(* ===== verification/Prelude.thy ===== *)
theory Prelude
  imports Main "HOL-Library.Word" "HOL-Library.Multiset" "HOL-Library.List_Lexorder"
    "HOL-Library.Char_ord" "HOL-Library.Sublist"
begin

text \<open>
  The vocabulary the component theories share: Go's machine types, the clock, the order in
  which a Go \<^verbatim>\<open>range\<close> statement visits a map, and generic lemmas on lists, sorted lists
  and words.  Strings are Go strings: sequences of bytes, compared bytewise (\<open>Char_ord\<close> and
  \<open>List_Lexorder\<close> give exactly that order).
\<close>

section \<open>Machine types and the clock\<close>

type_synonym u64 = "64 word"

text \<open>Instants and durations are nanosecond counts, as in Go's \<^verbatim>\<open>time\<close> package.\<close>

type_synonym instant = int
type_synonym duration = int

abbreviation second :: duration where "second \<equiv> 1000000000"
abbreviation minute :: duration where "minute \<equiv> 60 * second"

section \<open>Theorem collections\<close>

named_theorems go_string "rewriting rules of the Go string functions"
named_theorems go_sort "facts every sort the code relies on satisfies"
named_theorems reg_ops "the registry operations, unfolded to map updates"
named_theorems step_inv "one operation keeps its component's invariant"

section \<open>Iterating a map\<close>

text \<open>
  Go visits the entries of a map in an unspecified order that may differ at every
  \<^verbatim>\<open>range\<close>.  An operation that ranges over a map takes the order of its visit as an argument;
  \<open>iter_order m ks\<close> says that \<open>ks\<close> is a possible order.
\<close>

definition iter_order :: "('k \<rightharpoonup> 'v) \<Rightarrow> 'k list \<Rightarrow> bool" where
  "iter_order m ks \<longleftrightarrow> distinct ks \<and> set ks = dom m"

definition map_values :: "('k \<rightharpoonup> 'v) \<Rightarrow> 'k list \<Rightarrow> 'v list" where
  "map_values m ks = List.map_filter m ks"

lemma iter_orderD [dest]:
  assumes "iter_order m ks"
  shows "distinct ks" and "set ks = dom m"
  using assms by (simp_all add: iter_order_def)

lemma iter_order_mset: "iter_order m ks \<Longrightarrow> iter_order m ls \<Longrightarrow> mset ks = mset ls"
  by (metis iter_order_def set_eq_iff_mset_eq_distinct)

lemma set_map_filter: "set (List.map_filter f xs) = {y. \<exists>x \<in> set xs. f x = Some y}"
  by (induction xs) (auto simp: List.map_filter_simps split: option.splits)

lemma set_map_values [simp]: "iter_order m ks \<Longrightarrow> set (map_values m ks) = ran m"
  by (force simp: map_values_def set_map_filter iter_order_def ran_def)

lemma map_values_map: "iter_order m ks \<Longrightarrow> map_values m ks = map (\<lambda>k. the (m k)) ks"
proof -
  assume "iter_order m ks"
  then have "\<forall>k \<in> set ks. m k \<noteq> None" by (auto simp: iter_order_def)
  then show ?thesis
    unfolding map_values_def by (induction ks) (auto simp: List.map_filter_simps)
qed

lemma length_map_values: "iter_order m ks \<Longrightarrow> length (map_values m ks) = card (dom m)"
  using distinct_card [of ks] by (simp add: map_values_map iter_order_def)

lemma map_values_mset:
  assumes "iter_order m ks" and "iter_order m ls"
  shows "mset (map_values m ks) = mset (map_values m ls)"
  unfolding map_values_map [OF assms(1)] map_values_map [OF assms(2)]
  by (simp add: iter_order_mset [OF assms])

lemma iter_order_exists: "finite (dom m) \<Longrightarrow> \<exists>ks. iter_order m ks"
  using finite_distinct_list [of "dom m"] by (auto simp: iter_order_def)

section \<open>Lists\<close>

lemma find_None_filter: "List.find P xs = None \<longleftrightarrow> filter P xs = []"
  by (induction xs) auto

lemma takeWhile_append_stop: "\<not> P y \<Longrightarrow> (\<forall>x \<in> set xs. P x) \<Longrightarrow> takeWhile P (xs @ y # ys) = xs"
  by (induction xs) auto

lemma sum_list_take_le: "sum_list (take n xs) \<le> sum_list (xs :: nat list)"
  by (metis append_take_drop_id le_add1 sum_list_append)

lemma sum_list_mset_le: "mset xs \<subseteq># mset ys \<Longrightarrow> sum_list xs \<le> sum_list (ys :: nat list)"
  by (metis sum_mset_sum_list mset_subset_eq_exists_conv sum_mset.union le_add1)

lemma mset_filter_concat_single:
  "(\<And>x. x \<in> set xs \<Longrightarrow> f x = [g x]) \<Longrightarrow> concat (map f xs) = map g xs"
  by (induction xs) auto

section \<open>Words\<close>

lemma unat_plus_le: "unat ((a :: 'a::len word) + b) \<le> unat a + unat b"
  by (simp add: unat_word_ariths)

lemma unat_plus_nowrap: "unat (a :: 'a::len word) + unat b < 2 ^ LENGTH('a) \<Longrightarrow> unat (a + b) = unat a + unat b"
  by (simp add: unat_word_ariths)

end
