(* ===== verification/GoStrings.thy ===== *)
theory GoStrings
  imports Prelude
begin

text \<open>
  The functions of Go's \<^verbatim>\<open>strings\<close>, \<^verbatim>\<open>strconv\<close>, \<^verbatim>\<open>net\<close> and \<^verbatim>\<open>path/filepath\<close> packages the code
  calls, on byte strings.  Separators are single bytes wherever the code passes a one-byte
  separator.  \<open>TrimSpace\<close> trims the ASCII white space; the multi-byte spaces of Unicode, which
  Go also trims, do not occur in the texts the code trims (an identifier file of hex digits,
  \<^verbatim>\<open>nvidia-smi\<close> output, error bodies).
\<close>

section \<open>Prefixes, splitting and joining\<close>

definition HasPrefix :: "string \<Rightarrow> string \<Rightarrow> bool" where
  "HasPrefix s p \<longleftrightarrow> prefix p s"

definition TrimPrefix :: "string \<Rightarrow> string \<Rightarrow> string" where
  "TrimPrefix s p = (if HasPrefix s p then drop (length p) s else s)"

fun LastIndex :: "string \<Rightarrow> char \<Rightarrow> nat option" where
  "LastIndex [] c = None"
| "LastIndex (x # xs) c =
     (case LastIndex xs c of
        Some i \<Rightarrow> Some (Suc i)
      | None \<Rightarrow> if x = c then Some 0 else None)"

fun Split :: "string \<Rightarrow> char \<Rightarrow> string list" where
  "Split [] c = [[]]"
| "Split (x # xs) c =
     (if x = c then [] # Split xs c
      else (case Split xs c of [] \<Rightarrow> [[x]] | p # ps \<Rightarrow> (x # p) # ps))"

fun Join :: "string list \<Rightarrow> string \<Rightarrow> string" where
  "Join [] sep = []"
| "Join [x] sep = x"
| "Join (x # y # ys) sep = x @ sep @ Join (y # ys) sep"

text \<open>\<^verbatim>\<open>strings.Cut\<close> with a one-byte separator; \<open>None\<close> is \<^verbatim>\<open>found == false\<close>.\<close>

fun Cut :: "string \<Rightarrow> char \<Rightarrow> (string \<times> string) option" where
  "Cut [] c = None"
| "Cut (x # xs) c = (if x = c then Some ([], xs) else map_option (apfst (Cons x)) (Cut xs c))"

text \<open>\<^verbatim>\<open>strings.Replace(s, old, new, 1)\<close> for a nonempty \<open>old\<close>.\<close>

fun ReplaceFirst :: "string \<Rightarrow> string \<Rightarrow> string \<Rightarrow> string" where
  "ReplaceFirst [] old new = []"
| "ReplaceFirst (x # xs) old new =
     (if HasPrefix (x # xs) old then new @ drop (length old) (x # xs)
      else x # ReplaceFirst xs old new)"

definition is_space :: "char \<Rightarrow> bool" where
  "is_space c \<longleftrightarrow> c \<in> {CHR 0x09, CHR 0x0A, CHR 0x0B, CHR 0x0C, CHR 0x0D, CHR '' ''}"

definition TrimSpace :: "string \<Rightarrow> string" where
  "TrimSpace s = rev (dropWhile is_space (rev (dropWhile is_space s)))"

lemma HasPrefix_append [simp, go_string]: "HasPrefix (p @ s) p"
  by (simp add: HasPrefix_def)

lemma TrimPrefix_append [simp, go_string]: "TrimPrefix (p @ s) p = s"
  by (simp add: TrimPrefix_def)

lemma LastIndex_None [go_string]: "c \<notin> set s \<Longrightarrow> LastIndex s c = None"
  by (induction s) auto

lemma LastIndex_None_iff: "LastIndex s c = None \<longleftrightarrow> c \<notin> set s"
  by (induction s) (auto split: option.splits)

lemma LastIndex_append [go_string]: "c \<notin> set t \<Longrightarrow> LastIndex (s @ c # t) c = Some (length s)"
  by (induction s) (auto simp: LastIndex_None)

lemma LastIndex_SomeD:
  "LastIndex s c = Some i \<Longrightarrow> s = take i s @ c # drop (Suc i) s \<and> c \<notin> set (drop (Suc i) s)"
  by (induction s arbitrary: i) (auto simp: LastIndex_None_iff split: option.splits if_splits)

lemma Split_neq_Nil [simp]: "Split s c \<noteq> []"
  by (induction s) (auto split: list.splits)

lemma Split_single [go_string]: "c \<notin> set s \<Longrightarrow> Split s c = [s]"
  by (induction s) auto

lemma Split_append [go_string]: "c \<notin> set s \<Longrightarrow> Split (s @ c # t) c = s # Split t c"
  by (induction s) auto

lemma Split_no_sep: "p \<in> set (Split s c) \<Longrightarrow> c \<notin> set p"
  by (induction s arbitrary: p) (auto split: list.splits if_splits)

lemma Join_Split: "Join (Split s c) [c] = s"
proof (induction s)
  case (Cons x s)
  obtain p ps where "Split s c = p # ps" by (metis Split_neq_Nil neq_Nil_conv)
  then show ?case using Cons by (cases ps) auto
qed simp

lemma Split_Join:
  "ps \<noteq> [] \<Longrightarrow> \<forall>p \<in> set ps. c \<notin> set p \<Longrightarrow> Split (Join ps [c]) c = ps"
  by (induction ps "[c]" rule: Join.induct) (auto simp: go_string)

lemma Cut_append [go_string]: "c \<notin> set k \<Longrightarrow> Cut (k @ c # v) c = Some (k, v)"
  by (induction k) auto

lemma TrimSpace_id: "s \<noteq> [] \<Longrightarrow> \<not> is_space (hd s) \<Longrightarrow> \<not> is_space (last s) \<Longrightarrow> TrimSpace s = s"
proof -
  assume "s \<noteq> []" "\<not> is_space (hd s)" "\<not> is_space (last s)"
  then have "dropWhile is_space s = s" and "dropWhile is_space (rev s) = rev s"
    by (simp_all add: dropWhile_eq_self_iff hd_rev)
  then show ?thesis by (simp add: TrimSpace_def)
qed

lemma TrimSpace_newline:
  assumes "s \<noteq> []" and "\<forall>c \<in> set s. \<not> is_space c"
  shows "TrimSpace (s @ [CHR 0x0A]) = s"
proof -
  have "dropWhile is_space (s @ [CHR 0x0A]) = s @ [CHR 0x0A]"
    using assms by (cases s) auto
  moreover have "dropWhile is_space (rev s) = rev s"
    using assms by (cases s rule: rev_cases) auto
  ultimately show ?thesis by (simp add: TrimSpace_def is_space_def)
qed

section \<open>Numbers\<close>

fun dec_digits :: "nat \<Rightarrow> string" where
  "dec_digits n =
     (if n < 10 then [char_of (48 + n)] else dec_digits (n div 10) @ [char_of (48 + n mod 10)])"

declare dec_digits.simps [simp del]

text \<open>\<^verbatim>\<open>fmt.Sprint\<close> and \<^verbatim>\<open>%d\<close> of an integer.\<close>

definition Itoa :: "int \<Rightarrow> string" where
  "Itoa i = (if i < 0 then CHR ''-'' # dec_digits (nat (- i)) else dec_digits (nat i))"

definition is_digit :: "char \<Rightarrow> bool" where
  "is_digit c \<longleftrightarrow> (48 :: nat) \<le> of_char c \<and> of_char c \<le> (57 :: nat)"

definition digit_value :: "char \<Rightarrow> nat" where
  "digit_value c = of_char c - 48"

definition dec_value :: "string \<Rightarrow> nat" where
  "dec_value s = foldl (\<lambda>n c. 10 * n + digit_value c) 0 s"

lemma dec_digits_all: "\<forall>c \<in> set (dec_digits n). is_digit c"
proof (induction n rule: dec_digits.induct)
  case (1 n)
  show ?case
    using 1 by (subst dec_digits.simps) (auto simp: is_digit_def)
qed

lemma dec_digits_neq_Nil [simp]: "dec_digits n \<noteq> []"
  by (subst dec_digits.simps) simp

lemma dec_value_dec_digits: "dec_value (dec_digits n) = n"
proof (induction n rule: dec_digits.induct)
  case (1 n)
  show ?case
  proof (cases "n < 10")
    case True
    then show ?thesis by (subst dec_digits.simps) (simp add: dec_value_def digit_value_def)
  next
    case False
    with 1 have "dec_value (dec_digits (n div 10)) = n div 10" by simp
    with False show ?thesis
      by (subst dec_digits.simps) (simp add: dec_value_def digit_value_def)
  qed
qed

text \<open>
  \<^verbatim>\<open>strconv.ParseUint(s, 10, 64)\<close>: the value and whether there was no error.  A syntax error
  returns 0, a value out of range returns the largest value, as soon as it is noticed.
\<close>

fun parse_uint_loop :: "nat \<Rightarrow> string \<Rightarrow> nat \<times> bool" where
  "parse_uint_loop n [] = (n, True)"
| "parse_uint_loop n (c # cs) =
     (if \<not> is_digit c then (0, False)
      else if n \<ge> (2 ^ 64 - 1) div 10 + 1 then (2 ^ 64 - 1, False)
      else if 10 * n + digit_value c > 2 ^ 64 - 1 then (2 ^ 64 - 1, False)
      else parse_uint_loop (10 * n + digit_value c) cs)"

definition ParseUint :: "string \<Rightarrow> u64 \<times> bool" where
  "ParseUint s = (if s = [] then (0, False) else apfst of_nat (parse_uint_loop 0 s))"

text \<open>\<^verbatim>\<open>strconv.Atoi\<close> on a nonempty string of digits: a value out of range is the largest \<^verbatim>\<open>int\<close>.\<close>

definition Atoi_digits :: "string \<Rightarrow> int" where
  "Atoi_digits s = min (int (dec_value s)) (2 ^ 63 - 1)"

lemma parse_uint_loop_digits:
  assumes "\<forall>c \<in> set s. is_digit c" and "foldl (\<lambda>n c. 10 * n + digit_value c) n s < 2 ^ 64"
  shows "parse_uint_loop n s = (foldl (\<lambda>n c. 10 * n + digit_value c) n s, True)"
  using assms
proof (induction s arbitrary: n)
  case (Cons c cs)
  have mono: "m \<le> foldl (\<lambda>n c. 10 * n + digit_value c) m xs" for m xs
  proof (induction xs arbitrary: m)
    case (Cons a xs)
    from Cons [of "10 * m + digit_value a"] show ?case by simp
  qed simp
  have "10 * n + digit_value c < 2 ^ 64"
    using mono [of "10 * n + digit_value c" cs] Cons.prems(2) by simp
  with Cons show ?case by simp
qed simp

lemma ParseUint_dec_digits: "n < 2 ^ 64 \<Longrightarrow> ParseUint (dec_digits n) = (of_nat n, True)"
  using parse_uint_loop_digits [of "dec_digits n" 0] dec_digits_all [of n]
    dec_value_dec_digits [of n]
  by (simp add: ParseUint_def dec_value_def)

lemma is_digit_not: "is_digit c \<Longrightarrow> c \<notin> {CHR '':'', CHR ''/'', CHR '' '', CHR ''['', CHR '']'', CHR ''='', CHR ''.''}"
  by (auto simp: is_digit_def)

lemma dec_digits_no:
  "c \<in> {CHR '':'', CHR ''/'', CHR '' '', CHR ''['', CHR '']'', CHR ''='', CHR ''.''} \<Longrightarrow> c \<notin> set (dec_digits n)"
  using dec_digits_all is_digit_not by blast

lemma Itoa_no:
  "c \<in> {CHR '':'', CHR ''/'', CHR '' '', CHR ''['', CHR '']'', CHR ''='', CHR ''.''} \<Longrightarrow> c \<notin> set (Itoa i)"
  using dec_digits_no by (auto simp: Itoa_def)

section \<open>Quoting\<close>

text \<open>
  The verb \<^verbatim>\<open>%q\<close> (\<^verbatim>\<open>strconv.Quote\<close>).  Bytes from 0x80 on are copied: they are escaped only in
  malformed or unprintable UTF-8.
\<close>

definition hex_digit :: "nat \<Rightarrow> char" where
  "hex_digit n = (if n < 10 then char_of (48 + n) else char_of (87 + n))"

definition quote_char :: "char \<Rightarrow> string" where
  "quote_char c =
     (let n = of_char c :: nat in
      if n = 0x22 then [CHR 0x5C, c]
      else if n = 0x5C then [CHR 0x5C, c]
      else if n = 7 then [CHR 0x5C, CHR ''a'']
      else if n = 8 then [CHR 0x5C, CHR ''b'']
      else if n = 12 then [CHR 0x5C, CHR ''f'']
      else if n = 10 then [CHR 0x5C, CHR ''n'']
      else if n = 13 then [CHR 0x5C, CHR ''r'']
      else if n = 9 then [CHR 0x5C, CHR ''t'']
      else if n = 11 then [CHR 0x5C, CHR ''v'']
      else if n < 32 \<or> n = 127 then [CHR 0x5C, CHR ''x'', hex_digit (n div 16), hex_digit (n mod 16)]
      else [c])"

definition Quote :: "string \<Rightarrow> string" where
  "Quote s = [CHR 0x22] @ concat (map quote_char s) @ [CHR 0x22]"

lemma sublist_Join: "x \<in> set xs \<Longrightarrow> sublist x (Join xs sep)"
proof (induction xs sep rule: Join.induct)
  case (3 y z zs sep)
  show ?case
  proof (cases "x = y")
    case True
    then show ?thesis by (auto simp: sublist_def intro: exI [of _ "[]"])
  next
    case False
    with 3 obtain us vs where "Join (z # zs) sep = us @ x @ vs" by (auto simp: sublist_def)
    then have "Join (y # z # zs) sep = (y @ sep @ us) @ x @ vs" by simp
    then show ?thesis unfolding sublist_def by blast
  qed
qed auto

section \<open>Network addresses\<close>

datatype addr_error =
  MissingPort | MissingBracket | TooManyColons | UnexpectedOpen | UnexpectedClose

fun Index :: "string \<Rightarrow> char \<Rightarrow> nat option" where
  "Index [] c = None"
| "Index (x # xs) c = (if x = c then Some 0 else map_option Suc (Index xs c))"

definition check_brackets :: "string \<Rightarrow> nat \<Rightarrow> nat \<Rightarrow> string \<Rightarrow> string \<Rightarrow> addr_error + string \<times> string" where
  "check_brackets hostport j k host port =
     (if CHR ''['' \<in> set (drop j hostport) then Inl UnexpectedOpen
      else if CHR '']'' \<in> set (drop k hostport) then Inl UnexpectedClose
      else Inr (host, port))"

definition SplitHostPort :: "string \<Rightarrow> addr_error + string \<times> string" where
  "SplitHostPort hostport =
     (case LastIndex hostport (CHR '':'') of
        None \<Rightarrow> Inl MissingPort
      | Some i \<Rightarrow>
          let port = drop (Suc i) hostport in
          if hd hostport = CHR ''['' then
            (case Index hostport (CHR '']'') of
               None \<Rightarrow> Inl MissingBracket
             | Some e \<Rightarrow>
                 if e + 1 = length hostport then Inl MissingPort
                 else if e + 1 = i then
                   check_brackets hostport 1 (e + 1) (take (e - 1) (drop 1 hostport)) port
                 else if hostport ! (e + 1) = CHR '':'' then Inl TooManyColons
                 else Inl MissingPort)
          else if CHR '':'' \<in> set (take i hostport) then Inl TooManyColons
          else check_brackets hostport 0 0 (take i hostport) port)"

definition JoinHostPort :: "string \<Rightarrow> string \<Rightarrow> string" where
  "JoinHostPort host port =
     (if CHR '':'' \<in> set host then ''['' @ host @ '']:'' @ port else host @ '':'' @ port)"

lemma Index_append: "c \<notin> set s \<Longrightarrow> Index (s @ c # t) c = Some (length s)"
  by (induction s) auto

abbreviation brackets :: "char set" where "brackets \<equiv> {CHR ''['', CHR '']''}"

lemma SplitHostPort_plain:
  assumes "set host \<inter> brackets = {}" "CHR '':'' \<notin> set host" "set port \<inter> (insert (CHR '':'') brackets) = {}"
  shows "SplitHostPort (host @ CHR '':'' # port) = Inr (host, port)"
proof -
  have "hd (host @ CHR '':'' # port) \<noteq> CHR ''[''"
    using assms(1) by (cases host) auto
  moreover have "LastIndex (host @ CHR '':'' # port) (CHR '':'') = Some (length host)"
    using assms(3) by (simp add: LastIndex_append)
  ultimately show ?thesis
    using assms by (auto simp: SplitHostPort_def check_brackets_def)
qed

lemma SplitHostPort_bracketed:
  assumes "set host \<inter> brackets = {}" "set port \<inter> (insert (CHR '':'') brackets) = {}"
  shows "SplitHostPort (CHR ''['' # host @ CHR '']'' # CHR '':'' # port) = Inr (host, port)"
proof -
  let ?s = "CHR ''['' # host @ CHR '']'' # CHR '':'' # port"
  have "LastIndex (((CHR ''['' # host) @ [CHR '']'']) @ CHR '':'' # port) (CHR '':'')
      = Some (length ((CHR ''['' # host) @ [CHR '']'']))"
    using assms(2) by (intro LastIndex_append) auto
  then have li: "LastIndex ?s (CHR '':'') = Some (length host + 2)" by simp
  have "Index ((CHR ''['' # host) @ CHR '']'' # CHR '':'' # port) (CHR '']'') = Some (length (CHR ''['' # host))"
    using assms(1) by (intro Index_append) auto
  then have ix: "Index ?s (CHR '']'') = Some (length host + 1)" by simp
  show ?thesis
    using assms
    by (auto simp: SplitHostPort_def check_brackets_def li ix simp del: LastIndex.simps Index.simps)
qed

lemma SplitHostPort_JoinHostPort:
  assumes "set host \<inter> brackets = {}" "set port \<inter> (insert (CHR '':'') brackets) = {}"
  shows "SplitHostPort (JoinHostPort host port) = Inr (host, port)"
  using assms SplitHostPort_plain [of host port] SplitHostPort_bracketed [of host port]
  by (auto simp: JoinHostPort_def)

section \<open>File paths\<close>

text \<open>
  \<^verbatim>\<open>filepath.Clean\<close> on Unix: the elements of the path, kept in reverse on a stack, without the
  empty and \<^verbatim>\<open>.\<close> elements and with each \<^verbatim>\<open>..\<close> cancelling the element before it.
\<close>

fun clean_step :: "bool \<Rightarrow> string list \<Rightarrow> string \<Rightarrow> string list" where
  "clean_step rooted stack e =
     (if e = [] \<or> e = ''.'' then stack
      else if e = ''..'' then
        (case stack of
           [] \<Rightarrow> if rooted then [] else [''..'']
         | t # rest \<Rightarrow> if t = ''..'' then ''..'' # stack else rest)
      else e # stack)"

definition Clean :: "string \<Rightarrow> string" where
  "Clean p =
     (let rooted = HasPrefix p ''/'';
          elems = rev (foldl (clean_step rooted) [] (Split p (CHR ''/'')))
      in if rooted then ''/'' @ Join elems ''/''
         else if elems = [] then ''.'' else Join elems ''/'')"

definition FilepathJoin :: "string list \<Rightarrow> string" where
  "FilepathJoin es =
     (let es' = dropWhile (\<lambda>e. e = []) es in if es' = [] then [] else Clean (Join es' ''/''))"

text \<open>Joining plain elements to a clean rooted path only appends them.\<close>

definition plain_elem :: "string \<Rightarrow> bool" where
  "plain_elem e \<longleftrightarrow> e \<noteq> [] \<and> e \<noteq> ''.'' \<and> e \<noteq> ''..'' \<and> CHR ''/'' \<notin> set e"

lemma Join_append:
  "xs \<noteq> [] \<Longrightarrow> ys \<noteq> [] \<Longrightarrow> Join (xs @ ys) sep = Join xs sep @ sep @ Join ys sep"
proof (induction xs sep rule: Join.induct)
  case (2 x sep)
  then show ?case by (cases ys) simp_all
qed simp_all

lemma foldl_clean_plain:
  "\<forall>e \<in> set es. plain_elem e \<Longrightarrow> foldl (clean_step rooted) stack es = rev es @ stack"
  by (induction es arbitrary: stack) (simp_all add: plain_elem_def)

lemma Clean_plain:
  assumes "es \<noteq> []" and "\<forall>e \<in> set es. plain_elem e"
  shows "Clean (CHR ''/'' # Join es ''/'') = CHR ''/'' # Join es ''/''"
proof -
  have "Split (CHR ''/'' # Join es ''/'') (CHR ''/'') = [] # es"
    using assms Split_Join [of es "CHR ''/''"] by (auto simp: plain_elem_def)
  then show ?thesis
    using assms(2) by (simp add: Clean_def HasPrefix_def foldl_clean_plain)
qed

lemma FilepathJoin_plain:
  assumes "ds \<noteq> []" and "es \<noteq> []" and "\<forall>e \<in> set (ds @ es). plain_elem e"
  shows "FilepathJoin ((CHR ''/'' # Join ds ''/'') # es) = CHR ''/'' # Join (ds @ es) ''/''"
proof -
  have "Join ((CHR ''/'' # Join ds ''/'') # es) ''/'' = CHR ''/'' # Join (ds @ es) ''/''"
    using assms(1,2) by (cases es) (simp_all add: Join_append)
  then show ?thesis
    using assms Clean_plain [of "ds @ es"] by (simp add: FilepathJoin_def)
qed

end
