(* ===== verification/Discovery.thy ===== *)
theory Discovery
  imports GoStrings
begin

text \<open>
  \<^verbatim>\<open>internal/discovery/discovery.go\<close>: what a node announces over mDNS and how it reads the
  announcements of others.  The zeroconf library is not part of the repository: registering a
  service is an argument, and a received service entry is a record of the fields the code reads,
  with IP addresses as the texts they print as.
\<close>

record PeerHint =
  hint_ID :: string
  hint_Name :: string
  hint_Pool :: string
  hint_Addr :: string

record ServiceEntry =
  se_Text :: "string list"
  se_AddrIPv4 :: "string list"
  se_AddrIPv6 :: "string list"
  se_Port :: int

definition Service :: string where "Service = ''_potluck._tcp''"

definition mdns_domain :: string where "mdns_domain = ''local.''"

section \<open>Announcing this node\<close>

definition instanceName :: "string \<Rightarrow> string \<Rightarrow> string" where
  "instanceName name i =
     (let suffix = (if length i > 6 then take 6 i else i) in name @ ''-'' @ suffix)"

definition txt_records :: "string \<Rightarrow> string \<Rightarrow> string \<Rightarrow> string \<Rightarrow> string list" where
  "txt_records i name pool version =
     [''id='' @ i, ''name='' @ name, ''pool='' @ pool, ''version='' @ version]"

text \<open>\<open>register instance service domain port text\<close> is \<^verbatim>\<open>zeroconf.Register\<close>; a result is its error.\<close>

definition Advertise ::
  "(string \<Rightarrow> string \<Rightarrow> string \<Rightarrow> int \<Rightarrow> string list \<Rightarrow> 'err option)
    \<Rightarrow> string \<Rightarrow> string \<Rightarrow> string \<Rightarrow> int \<Rightarrow> string \<Rightarrow> 'err option" where
  "Advertise register i name pool port version =
     register (instanceName name i) Service mdns_domain port (txt_records i name pool version)"

section \<open>Reading announcements\<close>

definition zero_hint :: PeerHint where
  "zero_hint = \<lparr>hint_ID = [], hint_Name = [], hint_Pool = [], hint_Addr = []\<rparr>"

text \<open>One turn of the loop over the text records: unknown keys and records without \<^verbatim>\<open>=\<close> are skipped.\<close>

definition read_record :: "PeerHint \<Rightarrow> string \<Rightarrow> PeerHint" where
  "read_record h kv =
     (case Cut kv (CHR ''='') of
        None \<Rightarrow> h
      | Some (k, v) \<Rightarrow>
          if k = ''id'' then h\<lparr>hint_ID := v\<rparr>
          else if k = ''name'' then h\<lparr>hint_Name := v\<rparr>
          else if k = ''pool'' then h\<lparr>hint_Pool := v\<rparr>
          else h)"

definition parseEntry :: "ServiceEntry \<Rightarrow> PeerHint \<times> bool" where
  "parseEntry e =
     (let h = foldl read_record zero_hint (se_Text e) in
      if hint_ID h = [] then (h, False)
      else if se_AddrIPv4 e \<noteq> [] then
        (h\<lparr>hint_Addr := hd (se_AddrIPv4 e) @ '':'' @ Itoa (se_Port e)\<rparr>, True)
      else if se_AddrIPv6 e \<noteq> [] then
        (h\<lparr>hint_Addr := ''['' @ hd (se_AddrIPv6 e) @ '']:'' @ Itoa (se_Port e)\<rparr>, True)
      else (h, False))"

text \<open>
  The loop of \<^verbatim>\<open>browseOnce\<close> over the entries of one scan.  \<open>sends\<close> is how many hints go through
  before the context is cancelled; the loop then returns at the next one.
\<close>

fun browse_loop :: "string \<Rightarrow> string \<Rightarrow> nat \<Rightarrow> ServiceEntry list \<Rightarrow> PeerHint list" where
  "browse_loop selfID pool sends [] = []"
| "browse_loop selfID pool sends (e # es) =
     (let (hint, ok) = parseEntry e in
      if \<not> ok \<or> hint_ID hint = selfID \<or> hint_Pool hint \<noteq> pool then browse_loop selfID pool sends es
      else (case sends of 0 \<Rightarrow> [] | Suc n \<Rightarrow> hint # browse_loop selfID pool n es))"

datatype browse_error = ResolverError | BrowseError

text \<open>\<open>resolver\<close> and \<open>scan\<close> say whether the two library calls succeed.\<close>

definition browseOnce ::
  "bool \<Rightarrow> bool \<Rightarrow> string \<Rightarrow> string \<Rightarrow> nat \<Rightarrow> ServiceEntry list \<Rightarrow> browse_error + PeerHint list" where
  "browseOnce resolver scan selfID pool sends entries =
     (if \<not> resolver then Inl ResolverError
      else if \<not> scan then Inl BrowseError
      else Inr (browse_loop selfID pool sends entries))"

text \<open>
  The endless loop of \<^verbatim>\<open>Browse\<close>, over what happens in its turns: whether the context is already
  cancelled, the scan (with the number of hints that go through before a cancellation), whether
  the context is cancelled by the end of the scan, and whether it is during the wait after an
  error.  The result is the hints sent and the number of warnings logged.
\<close>

record scan_turn =
  turn_cancelled :: bool
  turn_resolver :: bool
  turn_scan :: bool
  turn_entries :: "ServiceEntry list"
  turn_sends :: nat
  turn_ctx_err :: bool
  turn_wait_cancelled :: bool

fun Browse :: "string \<Rightarrow> string \<Rightarrow> scan_turn list \<Rightarrow> PeerHint list \<times> nat" where
  "Browse selfID pool [] = ([], 0)"
| "Browse selfID pool (t # ts) =
     (if turn_cancelled t then ([], 0)
      else (case browseOnce (turn_resolver t) (turn_scan t) selfID pool (turn_sends t) (turn_entries t) of
              Inr hints \<Rightarrow> apfst (append hints) (Browse selfID pool ts)
            | Inl e \<Rightarrow>
                if turn_ctx_err t then Browse selfID pool ts
                else if turn_wait_cancelled t then ([], 1)
                else apsnd Suc (Browse selfID pool ts)))"

text \<open>
  What a node announces is what its peers read: from the text records of \<^verbatim>\<open>Advertise\<close> and an
  IPv4 address, \<^verbatim>\<open>parseEntry\<close> recovers the identifier, name and pool, whatever characters they
  contain, and an address that splits again into that host and port.
\<close>

theorem advertise_roundtrip:
  assumes "i \<noteq> []" and "set ip \<inter> {CHR '':'', CHR ''['', CHR '']''} = {}"
  shows "\<exists>addr. parseEntry \<lparr>se_Text = txt_records i name pool version, se_AddrIPv4 = ip # ips,
        se_AddrIPv6 = v6, se_Port = port\<rparr>
      = (\<lparr>hint_ID = i, hint_Name = name, hint_Pool = pool, hint_Addr = addr\<rparr>, True) \<and>
    SplitHostPort addr = Inr (ip, Itoa port)"
proof -
  have "Cut (''id='' @ i) (CHR ''='') = Some (''id'', i)"
    and "Cut (''name='' @ name) (CHR ''='') = Some (''name'', name)"
    and "Cut (''pool='' @ pool) (CHR ''='') = Some (''pool'', pool)"
    and "Cut (''version='' @ version) (CHR ''='') = Some (''version'', version)"
    by simp_all
  then have "foldl read_record zero_hint (txt_records i name pool version)
      = \<lparr>hint_ID = i, hint_Name = name, hint_Pool = pool, hint_Addr = []\<rparr>"
    by (simp add: txt_records_def read_record_def zero_hint_def)
  moreover have "SplitHostPort (ip @ CHR '':'' # Itoa port) = Inr (ip, Itoa port)"
    using assms(2) Itoa_no [of _ port] by (intro SplitHostPort_plain) auto
  ultimately show ?thesis
    using assms(1) by (simp add: parseEntry_def)
qed

theorem advertise_roundtrip_witness:
  "\<exists>addr. parseEntry \<lparr>se_Text = txt_records ''8f3a'' ''mac=mini'' ''home'' ''dev'',
        se_AddrIPv4 = [''10.0.0.2''], se_AddrIPv6 = [], se_Port = 11444\<rparr>
      = (\<lparr>hint_ID = ''8f3a'', hint_Name = ''mac=mini'', hint_Pool = ''home'', hint_Addr = addr\<rparr>, True) \<and>
    SplitHostPort addr = Inr (''10.0.0.2'', Itoa 11444)"
  by (rule advertise_roundtrip) simp_all

lemma parseEntry_usable:
  "parseEntry e = (h, True) \<Longrightarrow> hint_ID h \<noteq> [] \<and> hint_Addr h \<noteq> []"
  by (auto simp: parseEntry_def Let_def split: if_splits)

lemma browse_loop_skip:
  "parseEntry e = (h, ok) \<Longrightarrow> \<not> ok \<or> hint_ID h = selfID \<or> hint_Pool h \<noteq> pool \<Longrightarrow>
     browse_loop selfID pool sends (e # es) = browse_loop selfID pool sends es"
  by simp

lemma browse_loop_send:
  "parseEntry e = (h, True) \<Longrightarrow> hint_ID h \<noteq> selfID \<Longrightarrow> hint_Pool h = pool \<Longrightarrow>
     browse_loop selfID pool (Suc n) (e # es) = h # browse_loop selfID pool n es"
  by simp

lemma browse_loop_sound:
  "h \<in> set (browse_loop selfID pool sends es) \<Longrightarrow>
     hint_ID h \<noteq> [] \<and> hint_ID h \<noteq> selfID \<and> hint_Pool h = pool \<and> hint_Addr h \<noteq> []"
proof (induction es arbitrary: sends)
  case (Cons e es)
  obtain g ok where e: "parseEntry e = (g, ok)" by fastforce
  show ?case
  proof (cases "\<not> ok \<or> hint_ID g = selfID \<or> hint_Pool g \<noteq> pool")
    case True
    with Cons browse_loop_skip [OF e] show ?thesis by metis
  next
    case False
    with e have g: "parseEntry e = (g, True)" and "hint_ID g \<noteq> selfID" "hint_Pool g = pool" by auto
    with Cons parseEntry_usable [OF g] show ?thesis by (cases sends) auto
  qed
qed simp

lemma browse_loop_complete:
  "length es \<le> sends \<Longrightarrow> browse_loop selfID pool sends es =
     filter (\<lambda>h. hint_ID h \<noteq> selfID \<and> hint_Pool h = pool) (map fst (filter snd (map parseEntry es)))"
proof (induction es arbitrary: sends)
  case (Cons e es)
  obtain g ok where e: "parseEntry e = (g, ok)" by fastforce
  from Cons.prems obtain n where n: "sends = Suc n" "length es \<le> n" by (cases sends) auto
  show ?case
  proof (cases "\<not> ok \<or> hint_ID g = selfID \<or> hint_Pool g \<noteq> pool")
    case True
    with browse_loop_skip [OF e True, of sends es] Cons.IH [of sends] n e show ?thesis by auto
  qed (use Cons.IH [OF n(2)] e n(1) in auto)
qed simp

lemma Browse_sound:
  "h \<in> set (fst (Browse selfID pool ts)) \<Longrightarrow>
     hint_ID h \<noteq> [] \<and> hint_ID h \<noteq> selfID \<and> hint_Pool h = pool \<and> hint_Addr h \<noteq> []"
  by (induction ts) (auto simp: browseOnce_def dest: browse_loop_sound split: if_splits)

text \<open>
  Discovery only yields peers: every hint sent has an identifier that is not this node's, the
  pool asked for and an address; and in a scan that is not cancelled, no entry that announces such
  a peer is lost.
\<close>

theorem browse_loop_peers:
  "(\<forall>h \<in> set (fst (Browse selfID pool ts)).
      hint_ID h \<noteq> [] \<and> hint_ID h \<noteq> selfID \<and> hint_Pool h = pool \<and> hint_Addr h \<noteq> []) \<and>
   (length es \<le> sends \<longrightarrow>
      browse_loop selfID pool sends es =
        filter (\<lambda>h. hint_ID h \<noteq> selfID \<and> hint_Pool h = pool) (map fst (filter snd (map parseEntry es))))"
  using Browse_sound browse_loop_complete by blast

theorem browse_loop_peers_witness:
  "browse_loop ''me'' ''home'' 1
     [\<lparr>se_Text = [''id=you'', ''pool=home''], se_AddrIPv4 = [], se_AddrIPv6 = [''fe80::1''], se_Port = 7\<rparr>]
   = [\<lparr>hint_ID = ''you'', hint_Name = [], hint_Pool = ''home'', hint_Addr = ''[fe80::1]:'' @ Itoa 7\<rparr>]"
  using browse_loop_peers [where selfID = "''me''" and pool = "''home''" and ts = "[]" and sends = 1
     and es = "[\<lparr>se_Text = [''id=you'', ''pool=home''], se_AddrIPv4 = [], se_AddrIPv6 = [''fe80::1''], se_Port = 7\<rparr>]"]
  by (simp add: parseEntry_def read_record_def zero_hint_def)

end
