(* ===== verification/GoJSON.thy ===== *)
theory GoJSON
  imports GoStrings
begin

text \<open>
  The part of \<^verbatim>\<open>encoding/json\<close> the code relies on: the syntax of JSON texts, the decoding of
  string-valued struct fields and the encoding of strings.  A text is parsed in full before
  anything is decoded, as \<^verbatim>\<open>json.Unmarshal\<close> does; \<^verbatim>\<open>Decoder.Decode\<close> stops after the first value.
  Bytes from 0x80 on are copied; Go replaces those that are not valid UTF-8.
\<close>

datatype json =
  JNull | JBool bool | JNum string | JStr string | JArr "json list" | JObj "(string \<times> json) list"

section \<open>Parsing\<close>

definition is_json_space :: "char \<Rightarrow> bool" where
  "is_json_space c \<longleftrightarrow> c \<in> {CHR '' '', CHR 0x09, CHR 0x0A, CHR 0x0D}"

definition skip_ws :: "string \<Rightarrow> string" where
  "skip_ws s = dropWhile is_json_space s"

definition hex_value :: "char \<Rightarrow> nat option" where
  "hex_value c =
     (let n = of_char c :: nat in
      if 48 \<le> n \<and> n \<le> 57 then Some (n - 48)
      else if 97 \<le> n \<and> n \<le> 102 then Some (n - 87)
      else if 65 \<le> n \<and> n \<le> 70 then Some (n - 55)
      else None)"

definition hex4 :: "char \<Rightarrow> char \<Rightarrow> char \<Rightarrow> char \<Rightarrow> nat option" where
  "hex4 a b c d =
     (case (hex_value a, hex_value b, hex_value c, hex_value d) of
        (Some a, Some b, Some c, Some d) \<Rightarrow> Some (((a * 16 + b) * 16 + c) * 16 + d)
      | _ \<Rightarrow> None)"

definition utf8 :: "nat \<Rightarrow> string" where
  "utf8 n =
     (if n < 0x80 then [char_of n]
      else if n < 0x800 then [char_of (0xC0 + n div 64), char_of (0x80 + n mod 64)]
      else if n < 0x10000 then
        [char_of (0xE0 + n div 4096), char_of (0x80 + n div 64 mod 64), char_of (0x80 + n mod 64)]
      else [char_of (0xF0 + n div 262144), char_of (0x80 + n div 4096 mod 64),
            char_of (0x80 + n div 64 mod 64), char_of (0x80 + n mod 64)])"

definition simple_escape :: "char \<Rightarrow> char option" where
  "simple_escape c =
     (if c = CHR 0x22 \<or> c = CHR 0x5C \<or> c = CHR ''/'' then Some c
      else if c = CHR ''b'' then Some (CHR 0x08)
      else if c = CHR ''f'' then Some (CHR 0x0C)
      else if c = CHR ''n'' then Some (CHR 0x0A)
      else if c = CHR ''r'' then Some (CHR 0x0D)
      else if c = CHR ''t'' then Some (CHR 0x09)
      else None)"

text \<open>The low surrogate that follows a high one, with the rest of the text.\<close>

fun low_surrogate :: "string \<Rightarrow> (nat \<times> string) option" where
  "low_surrogate (x # u # a # b # c # d # r) =
     (if x = CHR 0x5C \<and> u = CHR ''u'' then
        (case hex4 a b c d of
           Some n \<Rightarrow> if 0xDC00 \<le> n \<and> n < 0xE000 then Some (n, r) else None
         | None \<Rightarrow> None)
      else None)"
| "low_surrogate _ = None"

lemma low_surrogate_shorter: "low_surrogate s = Some (n, r) \<Longrightarrow> length r < length s"
  by (induction s rule: low_surrogate.induct) (auto split: if_splits option.splits)

text \<open>The characters of a string literal, after its opening quote, and what follows its end.\<close>

function parse_chars :: "string \<Rightarrow> (string \<times> string) option" where
  "parse_chars [] = None"
| "parse_chars (c # cs) =
     (if c = CHR 0x22 then Some ([], cs)
      else if (of_char c :: nat) < 32 then None
      else if c \<noteq> CHR 0x5C then map_option (apfst (Cons c)) (parse_chars cs)
      else
        (case cs of
           [] \<Rightarrow> None
         | e # r \<Rightarrow>
             (case simple_escape e of
                Some x \<Rightarrow> map_option (apfst (Cons x)) (parse_chars r)
              | None \<Rightarrow>
                  (if e \<noteq> CHR ''u'' then None
                   else
                     (case r of
                        a # b # c # d # r' \<Rightarrow>
                          (case hex4 a b c d of
                             None \<Rightarrow> None
                           | Some n \<Rightarrow>
                               if 0xD800 \<le> n \<and> n < 0xE000 then
                                 (case (if n < 0xDC00 then low_surrogate r' else None) of
                                    Some (m, r'') \<Rightarrow>
                                      map_option (apfst (append (utf8 (0x10000 + (n - 0xD800) * 1024 + (m - 0xDC00)))))
                                        (parse_chars r'')
                                  | None \<Rightarrow> map_option (apfst (append (utf8 0xFFFD))) (parse_chars r'))
                               else map_option (apfst (append (utf8 n))) (parse_chars r'))
                      | _ \<Rightarrow> None)))))"
  by pat_completeness auto
termination
  by (relation "measure length") (auto split: if_splits dest!: low_surrogate_shorter)

fun parse_digits :: "string \<Rightarrow> string \<times> string" where
  "parse_digits s = (takeWhile is_digit s, dropWhile is_digit s)"

text \<open>A number, kept as its text: sign, integer part without leading zeros, fraction, exponent.\<close>

definition parse_int_part :: "string \<Rightarrow> (string \<times> string) option" where
  "parse_int_part s =
     (case parse_digits s of
        ([], _) \<Rightarrow> None
      | (d # ds, r) \<Rightarrow> if d = CHR ''0'' then Some ([d], drop 1 s) else Some (d # ds, r))"

definition parse_frac :: "string \<Rightarrow> (string \<times> string) option" where
  "parse_frac s =
     (if s \<noteq> [] \<and> hd s = CHR ''.'' then
        (case parse_digits (tl s) of ([], _) \<Rightarrow> None | (ds, r) \<Rightarrow> Some (CHR ''.'' # ds, r))
      else Some ([], s))"

definition parse_exp :: "string \<Rightarrow> (string \<times> string) option" where
  "parse_exp s =
     (if s \<noteq> [] \<and> hd s \<in> {CHR ''e'', CHR ''E''} then
        (let t = tl s; (sign, u) = (if t \<noteq> [] \<and> hd t \<in> {CHR ''+'', CHR ''-''} then ([hd t], tl t) else ([], t))
         in case parse_digits u of ([], _) \<Rightarrow> None | (ds, r) \<Rightarrow> Some (hd s # sign @ ds, r))
      else Some ([], s))"

definition parse_number :: "string \<Rightarrow> (json \<times> string) option" where
  "parse_number s =
     (let (sign, t) = (if s \<noteq> [] \<and> hd s = CHR ''-'' then ([hd s], tl s) else ([], s)) in
      case parse_int_part t of
        None \<Rightarrow> None
      | Some (i, r1) \<Rightarrow>
          (case parse_frac r1 of
             None \<Rightarrow> None
           | Some (f, r2) \<Rightarrow>
               (case parse_exp r2 of None \<Rightarrow> None | Some (e, r3) \<Rightarrow> Some (JNum (sign @ i @ f @ e), r3))))"

text \<open>
  Values, array elements and object members.  Every call but the first follows a character that
  was consumed, so the length of the text is enough fuel.
\<close>

fun parse_value :: "nat \<Rightarrow> string \<Rightarrow> (json \<times> string) option"
  and parse_elems :: "nat \<Rightarrow> string \<Rightarrow> (json list \<times> string) option"
  and parse_members :: "nat \<Rightarrow> string \<Rightarrow> ((string \<times> json) list \<times> string) option" where
  "parse_value 0 s = None"
| "parse_value (Suc fuel) s =
     (case skip_ws s of
        [] \<Rightarrow> None
      | c # cs \<Rightarrow>
          if c = CHR ''{'' then
            (if HasPrefix (skip_ws cs) ''}'' then Some (JObj [], tl (skip_ws cs))
             else map_option (apfst JObj) (parse_members fuel cs))
          else if c = CHR ''['' then
            (if HasPrefix (skip_ws cs) '']'' then Some (JArr [], tl (skip_ws cs))
             else map_option (apfst JArr) (parse_elems fuel cs))
          else if c = CHR 0x22 then map_option (apfst JStr) (parse_chars cs)
          else if HasPrefix (c # cs) ''true'' then Some (JBool True, drop 4 (c # cs))
          else if HasPrefix (c # cs) ''false'' then Some (JBool False, drop 5 (c # cs))
          else if HasPrefix (c # cs) ''null'' then Some (JNull, drop 4 (c # cs))
          else parse_number (c # cs))"
| "parse_elems 0 s = None"
| "parse_elems (Suc fuel) s =
     (case parse_value fuel s of
        None \<Rightarrow> None
      | Some (v, r) \<Rightarrow>
          (case skip_ws r of
             [] \<Rightarrow> None
           | c # r' \<Rightarrow>
               if c = CHR '','' then map_option (apfst (Cons v)) (parse_elems fuel r')
               else if c = CHR '']'' then Some ([v], r')
               else None))"
| "parse_members 0 s = None"
| "parse_members (Suc fuel) s =
     (case skip_ws s of
        [] \<Rightarrow> None
      | q # cs \<Rightarrow>
          if q \<noteq> CHR 0x22 then None
          else
            (case parse_chars cs of
               None \<Rightarrow> None
             | Some (k, r) \<Rightarrow>
                 (case skip_ws r of
                    [] \<Rightarrow> None
                  | x # r1 \<Rightarrow>
                      if x \<noteq> CHR '':'' then None
                      else
                        (case parse_value fuel r1 of
                           None \<Rightarrow> None
                         | Some (v, r2) \<Rightarrow>
                             (case skip_ws r2 of
                                [] \<Rightarrow> None
                              | c # r3 \<Rightarrow>
                                  if c = CHR '','' then map_option (apfst (Cons (k, v))) (parse_members fuel r3)
                                  else if c = CHR ''}'' then Some ([(k, v)], r3)
                                  else None)))))"

definition json_fuel :: "string \<Rightarrow> nat" where
  "json_fuel s = 2 * length s + 2"

text \<open>\<^verbatim>\<open>json.Unmarshal\<close> accepts one value and white space after it; a decoder stops at its end.\<close>

definition Unmarshal :: "string \<Rightarrow> json option" where
  "Unmarshal s =
     (case parse_value (json_fuel s) s of
        Some (v, r) \<Rightarrow> if skip_ws r = [] then Some v else None
      | None \<Rightarrow> None)"

definition Decode :: "string \<Rightarrow> json option" where
  "Decode s = map_option fst (parse_value (json_fuel s) s)"

section \<open>Decoding struct fields\<close>

definition to_lower :: "char \<Rightarrow> char" where
  "to_lower c = (let n = of_char c :: nat in if 65 \<le> n \<and> n \<le> 90 then char_of (n + 32) else c)"

definition fold_name :: "string \<Rightarrow> string" where
  "fold_name s = map to_lower s"

text \<open>
  The values given for a field, in order.  Keys match a field's name exactly or, failing that, up
  to case; the structs decoded here have no two fields whose names differ in case only.
\<close>

definition field_values :: "string \<Rightarrow> (string \<times> json) list \<Rightarrow> json list" where
  "field_values name ms = map snd (filter (\<lambda>(k, v). fold_name k = fold_name name) ms)"

text \<open>
  A string field: the last string wins, \<^verbatim>\<open>null\<close> changes nothing, anything else is an error.
\<close>

fun assign_string :: "string option \<Rightarrow> json \<Rightarrow> string option" where
  "assign_string None v = None"
| "assign_string (Some s) (JStr t) = Some t"
| "assign_string (Some s) JNull = Some s"
| "assign_string (Some s) _ = None"

definition string_field :: "string \<Rightarrow> (string \<times> json) list \<Rightarrow> string option" where
  "string_field name ms = foldl assign_string (Some []) (field_values name ms)"

text \<open>A string list: a value that is not a list is an error, a \<^verbatim>\<open>null\<close> element is the empty string.\<close>

definition assign_strings :: "string list option \<Rightarrow> json \<Rightarrow> string list option" where
  "assign_strings acc v =
     (case acc of
        None \<Rightarrow> None
      | Some old \<Rightarrow>
          (case v of
             JNull \<Rightarrow> Some []
           | JArr vs \<Rightarrow> those (map (assign_string (Some [])) vs)
           | _ \<Rightarrow> None))"

definition strings_field :: "string \<Rightarrow> (string \<times> json) list \<Rightarrow> string list option" where
  "strings_field name ms = foldl assign_strings (Some []) (field_values name ms)"

section \<open>Encoding strings\<close>

definition hex2 :: "nat \<Rightarrow> string" where
  "hex2 n = [hex_digit (n div 16), hex_digit (n mod 16)]"

definition encode_char :: "char \<Rightarrow> string" where
  "encode_char c =
     (let n = of_char c :: nat in
      if c = CHR 0x22 \<or> c = CHR 0x5C then [CHR 0x5C, c]
      else if n = 8 then [CHR 0x5C, CHR ''b'']
      else if n = 12 then [CHR 0x5C, CHR ''f'']
      else if n = 10 then [CHR 0x5C, CHR ''n'']
      else if n = 13 then [CHR 0x5C, CHR ''r'']
      else if n = 9 then [CHR 0x5C, CHR ''t'']
      else if n < 32 \<or> c \<in> {CHR ''<'', CHR ''>'', CHR ''&''} then [CHR 0x5C, CHR ''u'', CHR ''0'', CHR ''0''] @ hex2 n
      else [c])"

definition encode_string :: "string \<Rightarrow> string" where
  "encode_string s = [CHR 0x22] @ concat (map encode_char s) @ [CHR 0x22]"

definition encode_strings :: "string list \<Rightarrow> string" where
  "encode_strings ss = ''['' @ Join (map encode_string ss) '','' @ '']''"

section \<open>Decoding what was encoded\<close>

declare parse_chars.simps [simp del]

lemma char_of_of_char [simp]: "char_of (of_char c :: nat) = c"
  by (rule char_of_char)

lemma hex_value_digit: "n < 16 \<Longrightarrow> hex_value (hex_digit n) = Some n"
  by (auto simp: hex_value_def hex_digit_def Let_def)

lemma hex4_hex2: "n < 128 \<Longrightarrow> hex4 (CHR ''0'') (CHR ''0'') (hex_digit (n div 16)) (hex_digit (n mod 16)) = Some n"
proof -
  assume "n < 128"
  then have "n div 16 < 16" by simp
  moreover have "hex_value (CHR ''0'') = Some 0" by (simp add: hex_value_def)
  ultimately show ?thesis by (simp add: hex4_def hex_value_digit)
qed

lemma parse_chars_plain:
  "c \<noteq> CHR 0x22 \<Longrightarrow> c \<noteq> CHR 0x5C \<Longrightarrow> \<not> (of_char c :: nat) < 32 \<Longrightarrow>
     parse_chars (c # t) = map_option (apfst (Cons c)) (parse_chars t)"
  by (subst parse_chars.simps) simp

lemma parse_chars_simple:
  "simple_escape e = Some c \<Longrightarrow> parse_chars (CHR 0x5C # e # t) = map_option (apfst (Cons c)) (parse_chars t)"
  by (subst parse_chars.simps) simp

lemma parse_chars_unicode:
  assumes "hex4 a b c d = Some n" and "n < 128"
  shows "parse_chars (CHR 0x5C # CHR ''u'' # a # b # c # d # t)
    = map_option (apfst (Cons (char_of n))) (parse_chars t)"
proof -
  have "simple_escape (CHR ''u'') = None" by (simp add: simple_escape_def)
  moreover have "(@) [x] = (#) x" for x :: char by (simp add: fun_eq_iff)
  ultimately show ?thesis using assms by (subst parse_chars.simps) (simp add: utf8_def)
qed

lemma parse_chars_encode_char:
  "parse_chars (encode_char c @ t) = map_option (apfst (Cons c)) (parse_chars t)"
proof -
  let ?n = "of_char c :: nat"
  consider "c = CHR 0x22 \<or> c = CHR 0x5C" | "?n \<in> {8, 9, 10, 12, 13}"
    | "c \<noteq> CHR 0x22" "c \<noteq> CHR 0x5C" "?n \<notin> {8, 9, 10, 12, 13}" "?n < 32 \<or> c \<in> {CHR ''<'', CHR ''>'', CHR ''&''}"
    | "c \<noteq> CHR 0x22" "c \<noteq> CHR 0x5C" "\<not> (?n < 32 \<or> c \<in> {CHR ''<'', CHR ''>'', CHR ''&''})"
    by blast
  then show ?thesis
  proof cases
    case 1
    then have "simple_escape c = Some c" by (auto simp: simple_escape_def)
    with 1 show ?thesis by (auto simp: encode_char_def parse_chars_simple)
  next
    case 2
    then have "?n \<in> of_char ` {CHR 0x08, CHR 0x09, CHR 0x0A, CHR 0x0C, CHR 0x0D}" by simp
    then have "c \<in> {CHR 0x08, CHR 0x09, CHR 0x0A, CHR 0x0C, CHR 0x0D}"
      by (auto simp only: image_iff of_char_eq_iff)
    then show ?thesis
      by (auto simp: encode_char_def parse_chars_simple simple_escape_def)
  next
    case 3
    then have "encode_char c = [CHR 0x5C, CHR ''u'', CHR ''0'', CHR ''0''] @ hex2 ?n"
      by (simp add: encode_char_def)
    moreover have "?n < 128" using 3(4) by auto
    ultimately show ?thesis
      using parse_chars_unicode [OF hex4_hex2, of ?n t] by (simp add: hex2_def)
  next
    case 4
    then have "encode_char c = [c]" by (simp add: encode_char_def)
    with 4 show ?thesis by (simp add: parse_chars_plain)
  qed
qed

lemma parse_chars_encode: "parse_chars (concat (map encode_char s) @ CHR 0x22 # r) = Some (s, r)"
proof (induction s)
  case Nil
  show ?case by (simp add: parse_chars.simps(2))
next
  case (Cons c s)
  then show ?case by (simp add: parse_chars_encode_char)
qed

text \<open>
  What \<^verbatim>\<open>json.Marshal\<close> writes for a string is read back as that string, whatever its characters.
\<close>

lemma parse_value_string:
  "parse_value (Suc f) (encode_string s @ r) = Some (JStr s, r)"
  by (simp add: encode_string_def skip_ws_def is_json_space_def parse_chars_encode)

lemma parse_elems_strings:
  "length ss \<le> f \<Longrightarrow> ss \<noteq> [] \<Longrightarrow>
     parse_elems (Suc f) (Join (map encode_string ss) '','' @ CHR '']'' # r) = Some (map JStr ss, r)"
proof (induction ss arbitrary: f)
  case (Cons s ss)
  then obtain g where g: "f = Suc g" by (cases f) auto
  show ?case
  proof (cases ss)
    case Nil
    with g show ?thesis
      by (simp add: parse_value_string skip_ws_def is_json_space_def del: parse_value.simps)
  next
    case (Cons t ts)
    with Cons.IH [of g] Cons.prems g have
      "parse_elems (Suc g) (Join (map encode_string ss) '','' @ CHR '']'' # r) = Some (map JStr ss, r)"
      by simp
    with Cons g show ?thesis
      by (simp add: parse_value_string skip_ws_def is_json_space_def del: parse_value.simps)
  qed
qed simp

end
