(* ===== verification/GoFloat.thy ===== *)
theory GoFloat
  imports Prelude
begin

text \<open>
  The \<^verbatim>\<open>float64\<close> arithmetic of the memory estimates, exactly.  The code converts a \<^verbatim>\<open>uint64\<close>
  to \<^verbatim>\<open>float64\<close>, multiplies it by a constant and truncates the product back.  All the values are
  non-negative and neither overflow nor become subnormal, so a float is a natural number over a
  fixed power of two, and every IEEE operation is one rounding to 53 significant bits, to nearest,
  ties to even (\<open>round53\<close>).
\<close>

section \<open>Bit length\<close>

fun bit_length :: "nat \<Rightarrow> nat" where
  "bit_length n = (if n = 0 then 0 else Suc (bit_length (n div 2)))"

declare bit_length.simps [simp del]

lemma bit_length_0 [simp]: "bit_length 0 = 0"
  by (subst bit_length.simps) simp

lemma bit_length_upper: "n < 2 ^ bit_length n"
proof (induction n rule: bit_length.induct)
  case (1 n)
  then show ?case by (subst bit_length.simps) (cases "n = 0"; simp)
qed

lemma bit_length_pos: "0 < n \<Longrightarrow> bit_length n = Suc (bit_length (n div 2))"
  by (subst bit_length.simps) simp

lemma bit_length_twice: "0 < n \<Longrightarrow> 2 ^ bit_length n \<le> 2 * n"
proof (induction n rule: bit_length.induct)
  case (1 n)
  show ?case
  proof (cases "n div 2 = 0")
    case True
    with 1 show ?thesis by (simp add: bit_length_pos)
  next
    case False
    with 1 have "2 ^ bit_length (n div 2) \<le> 2 * (n div 2)" by simp
    also have "\<dots> \<le> n" by simp
    finally show ?thesis using 1 by (simp add: bit_length_pos)
  qed
qed

lemma bit_length_lower: "0 < n \<Longrightarrow> 2 ^ (bit_length n - 1) \<le> n"
  using bit_length_twice [of n] by (simp add: bit_length_pos)

lemma bit_length_le: "bit_length n \<le> k \<longleftrightarrow> n < 2 ^ k"
proof
  assume "bit_length n \<le> k"
  then have "(2::nat) ^ bit_length n \<le> 2 ^ k" by simp
  with bit_length_upper [of n] show "n < 2 ^ k" by linarith
next
  assume l: "n < 2 ^ k"
  show "bit_length n \<le> k"
  proof (rule ccontr)
    assume "\<not> bit_length n \<le> k"
    then have "n \<noteq> 0" and "k \<le> bit_length n - 1" by (auto intro: ccontr)
    then have "(2::nat) ^ k \<le> 2 ^ (bit_length n - 1)" and "0 < n" by simp_all
    with bit_length_lower [of n] l show False by linarith
  qed
qed

lemma bit_length_mono: "n \<le> m \<Longrightarrow> bit_length n \<le> bit_length m"
  using bit_length_le bit_length_upper le_less_trans by blast

section \<open>Rounding to 53 bits\<close>

definition ulp :: "nat \<Rightarrow> nat" where
  "ulp n = 2 ^ (bit_length n - 53)"

definition round53 :: "nat \<Rightarrow> nat" where
  "round53 n =
     (let u = ulp n; q = n div u; r = n mod u
      in if 2 * r < u \<or> 2 * r = u \<and> even q then q * u else (q + 1) * u)"

lemma ulp_pos [simp]: "0 < ulp n"
  by (simp add: ulp_def)

lemma round53_cases: "round53 n = n div ulp n * ulp n \<or> round53 n = (n div ulp n + 1) * ulp n"
  by (simp add: round53_def Let_def)

lemma round53_ge: "n div ulp n * ulp n \<le> round53 n"
  using round53_cases [of n] by auto

lemma round53_le: "round53 n \<le> (n div ulp n + 1) * ulp n"
  using round53_cases [of n] by auto

lemma round53_exact: "ulp n dvd n \<Longrightarrow> round53 n = n"
  by (simp add: round53_def Let_def)

lemma round53_small: "n < 2 ^ 53 \<Longrightarrow> round53 n = n"
  using bit_length_le [of n 53] by (intro round53_exact) (simp add: ulp_def)

lemma round53_scaled: "k < 2 ^ 53 \<Longrightarrow> round53 (k * 2 ^ j) = k * 2 ^ j"
proof (rule round53_exact)
  assume "k < 2 ^ 53"
  then have "k * 2 ^ j < 2 ^ (53 + j)" by (simp add: power_add)
  then have "bit_length (k * 2 ^ j) - 53 \<le> j" by (simp flip: bit_length_le)
  then have "ulp (k * 2 ^ j) dvd 2 ^ j" unfolding ulp_def by (rule le_imp_power_dvd)
  then show "ulp (k * 2 ^ j) dvd k * 2 ^ j" by simp
qed

lemma ulp_le: "n \<noteq> 0 \<Longrightarrow> ulp n \<noteq> 1 \<Longrightarrow> 2 ^ 52 * ulp n \<le> n"
proof -
  assume "n \<noteq> 0" "ulp n \<noteq> 1"
  then have "bit_length n - 1 = 52 + (bit_length n - 53)"
    by (cases "bit_length n \<le> 53") (auto simp: ulp_def)
  with bit_length_lower [of n] \<open>n \<noteq> 0\<close> show ?thesis
    by (metis ulp_def power_add neq0_conv)
qed

text \<open>The relative error of one rounding is at most \<open>2 ^ - 53\<close>.\<close>

lemma round53_err_above: "2 ^ 53 * round53 n \<le> (2 ^ 53 + 1) * n"
proof (cases "n = 0 \<or> ulp n = 1")
  case True
  then show ?thesis by (auto simp: round53_exact)
next
  case False
  let ?u = "ulp n" and ?q = "n div ulp n" and ?r = "n mod ulp n"
  have n: "n = ?q * ?u + ?r" by simp
  have le: "2 ^ 52 * ?u \<le> n" using False ulp_le by blast
  have "2 * round53 n \<le> 2 * n + ?u"
  proof (cases "2 * ?r < ?u \<or> 2 * ?r = ?u \<and> even ?q")
    case True
    then have "round53 n = ?q * ?u" by (simp add: round53_def Let_def)
    with n show ?thesis by linarith
  next
    case F: False
    then have "round53 n = (?q + 1) * ?u" by (simp only: round53_def Let_def if_False)
    then have "round53 n = ?q * ?u + ?u" by simp
    moreover from F have "?u \<le> 2 * ?r" by auto
    ultimately show ?thesis using n by linarith
  qed
  with le show ?thesis by simp
qed

lemma round53_le_bit_length: "round53 n \<le> 2 ^ bit_length n"
proof (cases "bit_length n \<le> 53")
  case True
  then have "round53 n = n" by (simp add: round53_small bit_length_le)
  then show ?thesis using bit_length_upper [of n] by simp
next
  case False
  have p: "2 ^ bit_length n = 2 ^ 53 * ulp n"
    unfolding ulp_def power_add [symmetric] using False by simp
  then have "n div ulp n < 2 ^ 53"
    using bit_length_upper [of n] by (simp add: less_mult_imp_div_less)
  then have "(n div ulp n + 1) * ulp n \<le> 2 ^ 53 * ulp n" by (intro mult_le_mono1) simp
  with round53_le [of n] p show ?thesis by (metis order_trans)
qed

lemma round53_ge_bit_length: "0 < n \<Longrightarrow> 2 ^ (bit_length n - 1) \<le> round53 n"
proof (cases "ulp n = 1")
  case True
  assume "0 < n"
  with True show ?thesis using bit_length_lower [of n] round53_exact [of n] by simp
next
  case False
  assume "0 < n"
  from False have "bit_length n - 1 = 52 + (bit_length n - 53)"
    by (cases "bit_length n \<le> 53") (auto simp: ulp_def)
  then have p: "2 ^ (bit_length n - 1) = 2 ^ 52 * ulp n"
    unfolding ulp_def by (metis power_add)
  with bit_length_lower [OF \<open>0 < n\<close>] have "2 ^ 52 \<le> n div ulp n"
    by (simp add: less_eq_div_iff_mult_less_eq)
  then have "2 ^ 52 * ulp n \<le> n div ulp n * ulp n" by (rule mult_le_mono1)
  with round53_ge [of n] p show ?thesis by (metis order_trans)
qed

lemma round53_mono:
  assumes "n \<le> m"
  shows "round53 n \<le> round53 m"
proof (cases "bit_length n = bit_length m")
  case True
  then have u: "ulp n = ulp m" by (simp add: ulp_def)
  let ?u = "ulp m"
  have q: "n div ?u \<le> m div ?u" using assms by (rule div_le_mono)
  show ?thesis
  proof (cases "n div ?u = m div ?u")
    case True
    then have "n mod ?u \<le> m mod ?u"
      using assms by (metis add_le_cancel_left div_mult_mod_eq)
    with True u show ?thesis by (auto simp: round53_def Let_def)
  next
    case False
    with q have "n div ?u + 1 \<le> m div ?u" by simp
    then have "(n div ?u + 1) * ?u \<le> m div ?u * ?u" by (rule mult_le_mono1)
    with round53_le [of n] round53_ge [of m] u show ?thesis by simp
  qed
next
  case False
  with bit_length_mono [OF assms] have "bit_length n \<le> bit_length m - 1" and "0 < m"
    by (auto intro: gr0I)
  then have "(2::nat) ^ bit_length n \<le> 2 ^ (bit_length m - 1)" by simp
  with round53_le_bit_length [of n] round53_ge_bit_length [OF \<open>0 < m\<close>] show ?thesis
    by linarith
qed

lemma round53_pos: "0 < n \<Longrightarrow> 0 < round53 n"
  using round53_ge_bit_length [of n] by (metis gr0I not_le power_not_zero zero_less_numeral
      zero_less_power)

section \<open>Scaling a 64-bit value by a constant\<close>

text \<open>\<open>scale64 m k x\<close> is the real value of \<^verbatim>\<open>float64(x) * (m / 2 ^ k)\<close>, truncated.\<close>

definition scale64 :: "nat \<Rightarrow> nat \<Rightarrow> nat \<Rightarrow> nat" where
  "scale64 m k x = round53 (round53 x * m) div 2 ^ k"

lemma scale64_mono: "x \<le> y \<Longrightarrow> scale64 m k x \<le> scale64 m k y"
  unfolding scale64_def by (intro div_le_mono round53_mono mult_le_mono1)

end
