(* ===== verification/Split.thy ===== *)
theory Split
  imports GoFloat GoStrings
begin

text \<open>
  \<^verbatim>\<open>internal/split/split.go\<close>: the types a driver advertises about its pipelines, the detection of
  the llama.cpp binaries, the memory estimates of the planner (in exact \<^verbatim>\<open>float64\<close> arithmetic)
  and the log files of child processes.
\<close>

section \<open>Binaries\<close>

record Binaries =
  RPCServer :: string
  LlamaServer :: string

text \<open>
  \<open>lookPath\<close> is \<^verbatim>\<open>exec.LookPath\<close> on the machine at hand: the resolved path, or \<open>None\<close> for its
  error.
\<close>

definition resolve :: "(string \<Rightarrow> string option) \<Rightarrow> string \<Rightarrow> string \<Rightarrow> string" where
  "resolve lookPath explicit name =
     (if explicit \<noteq> [] then
        (case lookPath explicit of Some p \<Rightarrow> p | None \<Rightarrow> [])
      else (case lookPath name of None \<Rightarrow> [] | Some p \<Rightarrow> p))"

definition Detect :: "(string \<Rightarrow> string option) \<Rightarrow> string \<Rightarrow> string \<Rightarrow> Binaries" where
  "Detect lookPath rpcServerPath llamaServerPath =
     \<lparr>RPCServer = resolve lookPath rpcServerPath ''rpc-server'',
      LlamaServer = resolve lookPath llamaServerPath ''llama-server''\<rparr>"

lemma resolve_explicit: "explicit \<noteq> [] \<Longrightarrow> lookPath explicit = None \<Longrightarrow> resolve lookPath explicit name = []"
  by (simp add: resolve_def)

section \<open>Pipelines as advertised\<close>

text \<open>
  A state is a text; the code names three.  Other texts can only come from the advertisement of a
  peer.
\<close>

datatype PipelineState = StateLoading | StateReady | StateError | StateOther string

record PipelineInfo =
  pi_Model :: string
  pi_State :: PipelineState
  pi_Workers :: "string list"
  pi_StartedAt :: instant
  pi_LastUsed :: instant
  pi_Error :: string

section \<open>Memory planning\<close>

text \<open>
  The factors as the compiler sees them, numerators over powers of two: 1.25 is exact; 0.80
  becomes the nearest \<^verbatim>\<open>float64\<close>, slightly above 4/5 (\<open>WorkerUsableFrac_nearest\<close>).
\<close>

definition FitFactor :: "nat \<times> nat" where "FitFactor = (5, 2)"

definition WorkerUsableFrac :: "nat \<times> nat" where "WorkerUsableFrac = (7205759403792794, 53)"

text \<open>
  The conversion of a \<^verbatim>\<open>float64\<close> that does not fit in 64 bits is left to the implementation by
  the Go specification; \<open>oor\<close> is what this one returns.
\<close>

definition f64_to_u64 :: "(nat \<Rightarrow> u64) \<Rightarrow> nat \<Rightarrow> u64" where
  "f64_to_u64 oor v = (if v < 2 ^ 64 then of_nat v else oor v)"

definition Need :: "(nat \<Rightarrow> u64) \<Rightarrow> u64 \<Rightarrow> u64" where
  "Need oor modelSize = f64_to_u64 oor (scale64 (fst FitFactor) (snd FitFactor) (unat modelSize))"

definition Usable :: "(nat \<Rightarrow> u64) \<Rightarrow> u64 \<Rightarrow> u64" where
  "Usable oor memAvailable =
     f64_to_u64 oor (scale64 (fst WorkerUsableFrac) (snd WorkerUsableFrac) (unat memAvailable))"

lemma WorkerUsableFrac_nearest:
  "2 * \<bar>5 * int (fst WorkerUsableFrac) - 4 * 2 ^ snd WorkerUsableFrac\<bar> \<le> 5"
  "2 ^ 52 \<le> fst WorkerUsableFrac \<and> fst WorkerUsableFrac < 2 ^ 53"
  by (simp_all add: WorkerUsableFrac_def)

abbreviation usable_nat :: "nat \<Rightarrow> nat" where
  "usable_nat x \<equiv> scale64 7205759403792794 53 x"

abbreviation need_nat :: "nat \<Rightarrow> nat" where
  "need_nat x \<equiv> scale64 5 2 x"

lemma usable_nat_lower: "x < 2 ^ 53 \<Longrightarrow> 4 * x div 5 \<le> usable_nat x"
proof -
  assume x: "x < 2 ^ 53"
  let ?k = "4 * x div 5"
  have "?k * 2 ^ 53 \<le> x * 7205759403792794" by simp
  then have "round53 (?k * 2 ^ 53) \<le> round53 (x * 7205759403792794)" by (rule round53_mono)
  moreover have "?k < 2 ^ 53" using x by simp
  ultimately have "?k * 2 ^ 53 \<le> round53 (x * 7205759403792794)" by (simp only: round53_scaled)
  then show ?thesis
    using x by (simp add: scale64_def round53_small less_eq_div_iff_mult_less_eq)
qed

lemma usable_nat_upper: "x < 2 ^ 50 \<Longrightarrow> usable_nat x \<le> 4 * x div 5"
proof -
  assume x: "x < 2 ^ 50"
  let ?p = "x * 7205759403792794" and ?k = "4 * x div 5"
  have r: "2 ^ 53 * round53 ?p \<le> (2 ^ 53 + 1) * ?p" by (rule round53_err_above)
  have k: "4 * x \<le> 5 * ?k + 4" by simp
  have "round53 ?p < (?k + 1) * 2 ^ 53"
    using r k x by simp
  then have "round53 ?p div 2 ^ 53 \<le> ?k" by (simp add: less_mult_imp_div_less less_Suc_eq_le)
  with x show ?thesis by (simp add: scale64_def round53_small)
qed

lemma usable_nat_le: "usable_nat x \<le> x"
proof -
  let ?y = "round53 x"
  have "2 ^ 53 * round53 (?y * 7205759403792794) \<le> (2 ^ 53 + 1) * (?y * 7205759403792794)"
    by (rule round53_err_above)
  moreover have "2 ^ 53 * ?y \<le> (2 ^ 53 + 1) * x" by (rule round53_err_above)
  ultimately have "round53 (?y * 7205759403792794) \<le> x * 2 ^ 53" by simp
  then have "round53 (?y * 7205759403792794) div 2 ^ 53 \<le> x * 2 ^ 53 div 2 ^ 53" by (rule div_le_mono)
  then show ?thesis by (simp add: scale64_def)
qed

lemma need_nat_exact: "x < 2 ^ 50 \<Longrightarrow> need_nat x = 5 * x div 4"
  by (simp add: scale64_def round53_small mult.commute)

lemma need_nat_ge: "x < 2 ^ 64 \<Longrightarrow> x \<le> need_nat x"
proof -
  assume "x < 2 ^ 64"
  show ?thesis
  proof (cases "x < 2 ^ 50")
    case True
    then show ?thesis by (simp add: need_nat_exact)
  next
    case False
    let ?y = "round53 x"
    have lo: "n div ulp n * ulp n + ulp n > n" for n
      using mod_less_divisor [OF ulp_pos, of n n] div_mult_mod_eq [of n "ulp n"] by linarith
    have u: "2 ^ 52 * ulp n \<le> n" if "2 ^ 50 \<le> n" "ulp n \<noteq> 1" for n
      using ulp_le that by force
    have below: "x \<le> ?y + ulp x" using lo [of x] round53_ge [of x] by linarith
    have below': "?y * 5 \<le> round53 (?y * 5) + ulp (?y * 5)"
      using lo [of "?y * 5"] round53_ge [of "?y * 5"] by linarith
    have e1: "2 ^ 50 * ulp x \<le> x" using u [of x] False by (cases "ulp x = 1") auto
    then have y: "2 ^ 49 \<le> ?y" using below False by simp
    then have e2: "2 ^ 50 * ulp (?y * 5) \<le> ?y * 5" using u [of "?y * 5"] by (cases "ulp (?y * 5) = 1") auto
    have "4 * x \<le> round53 (?y * 5)" using below below' e1 e2 by simp
    then show ?thesis by (simp add: scale64_def less_eq_div_iff_mult_less_eq)
  qed
qed

lemma unat_less_64 [simp]: "unat (x :: u64) < 18446744073709551616"
  using unsigned_less [of x, where ?'a = nat] by simp

lemma Usable_unat: "unat (Usable oor m) = usable_nat (unat m)"
proof -
  have "usable_nat (unat m) < 2 ^ 64"
    using le_less_trans [OF usable_nat_le [of "unat m"] unat_less_64] by simp
  then show ?thesis
    by (simp add: Usable_def f64_to_u64_def WorkerUsableFrac_def unat_of_nat take_bit_nat_eq_self)
qed

lemma Need_unat:
  assumes "need_nat (unat s) < 2 ^ 64"
  shows "unat (Need oor s) = need_nat (unat s)"
  using assms by (simp add: Need_def f64_to_u64_def FitFactor_def unat_of_nat take_bit_nat_eq_self)

lemma Usable_mono: "m \<le> n \<Longrightarrow> Usable oor m \<le> Usable oor n"
  by (simp add: word_le_nat_alt Usable_unat scale64_mono)

text \<open>
  C38.  What a pipeline may claim of a node is exactly four fifths of its free memory, rounded
  down, for any memory below 2 ^ 50 bytes (a pebibyte), although the code computes it through
  two roundings of \<^verbatim>\<open>float64\<close>; for every 64-bit value it never exceeds the free memory.
\<close>

theorem Usable_exact:
  "unat (Usable oor m) \<le> unat m \<and>
   (unat m < 2 ^ 50 \<longrightarrow> unat (Usable oor m) = 4 * unat m div 5)"
  using usable_nat_le [of "unat m"] usable_nat_upper [of "unat m"] usable_nat_lower [of "unat m"]
  by (auto simp: Usable_unat)

theorem Usable_exact_witness:
  "unat (Usable (\<lambda>_. 0) 17179869184) = 13743895347"
  using Usable_exact [of "\<lambda>_. 0" "17179869184 :: u64"] by simp

text \<open>
  The estimate of the memory a model needs is exactly its size times 5/4, rounded down, for
  sizes below 2 ^ 50 bytes, and whenever the estimate fits in 64 bits it is at least the size.
\<close>

theorem Need_exact:
  "(unat s < 2 ^ 50 \<longrightarrow> unat (Need oor s) = 5 * unat s div 4) \<and>
   (need_nat (unat s) < 2 ^ 64 \<longrightarrow> s \<le> Need oor s)"
proof -
  have "unat (Need oor s) = 5 * unat s div 4" if "unat s < 2 ^ 50"
    using that Need_unat [of s oor] need_nat_exact [of "unat s"] by simp
  moreover have "s \<le> Need oor s" if "need_nat (unat s) < 2 ^ 64"
    using that Need_unat [of s oor] need_nat_ge [of "unat s"] by (simp add: word_le_nat_alt)
  ultimately show ?thesis by blast
qed

theorem Need_exact_witness:
  "unat (Need (\<lambda>_. 0) 42949672960) = 53687091200"
  using Need_exact [of "42949672960 :: u64" "\<lambda>_. 0"] by simp

text \<open>The same in words, which evaluates on literals.\<close>

lemma Usable_word: "unat m < 2 ^ 50 \<Longrightarrow> Usable oor m = 4 * m div 5"
  and Need_word: "unat m < 2 ^ 50 \<Longrightarrow> Need oor m = 5 * m div 4"
proof -
  assume m: "unat m < 2 ^ 50"
  then have "unat (4 * m) = 4 * unat m" and "unat (5 * m) = 5 * unat m"
    by (simp_all add: unat_word_ariths)
  then have "unat (Usable oor m) = unat (4 * m div 5)" and "unat (Need oor m) = unat (5 * m div 4)"
    using m usable_nat_upper [of "unat m"] usable_nat_lower [of "unat m"] Need_unat [of m oor]
      need_nat_exact [of "unat m"] by (simp_all add: Usable_unat unat_div)
  then show "Usable oor m = 4 * m div 5" and "Need oor m = 5 * m div 4"
    by (simp_all add: word_unat_eq_iff)
qed

section \<open>Log files of child processes\<close>

text \<open>\<^verbatim>\<open>strings.NewReplacer("/", "_", ":", "_", " ", "_")\<close>.\<close>

definition safe_name :: "string \<Rightarrow> string" where
  "safe_name name = map (\<lambda>c. if c \<in> {CHR ''/'', CHR '':'', CHR '' ''} then CHR ''_'' else c) name"

definition LogDir :: "string option \<Rightarrow> string \<Rightarrow> string" where
  "LogDir home tempDir =
     (case home of None \<Rightarrow> tempDir | Some h \<Rightarrow> FilepathJoin [h, ''.potluck'', ''logs''])"

definition openLog :: "(string \<Rightarrow> 'file option) \<Rightarrow> string option \<Rightarrow> string \<Rightarrow> string \<Rightarrow> 'file option" where
  "openLog openFile home tempDir name =
     openFile (FilepathJoin [LogDir home tempDir, safe_name name @ ''.log''])"

text \<open>\<open>start\<close> launches the child with its output attached to a file, or discarded.\<close>

definition startLogged :: "('file option \<Rightarrow> 'err option) \<Rightarrow> 'file option \<Rightarrow> 'err option" where
  "startLogged start logFile =
     (case logFile of Some f \<Rightarrow> start (Some f) | None \<Rightarrow> start None)"

lemma safe_name_no_separator: "CHR ''/'' \<notin> set (safe_name name)"
  by (auto simp: safe_name_def)

end
