(* ===== verification/GoSort.thy ===== *)
theory GoSort
  imports Prelude
begin

text \<open>
  Go's package \<^verbatim>\<open>sort\<close>, as far as the code uses it.  \<^verbatim>\<open>sort.Slice\<close> promises a sorted
  permutation and nothing about equal elements (locale \<open>slice_sort\<close>); \<^verbatim>\<open>sort.SliceStable\<close>
  also keeps the order of equal elements (locale \<open>stable_slice_sort\<close>).  Both contracts are
  discharged by insertion sort, the algorithm Go runs on short slices; the stable contract
  determines the result completely, so \<open>SliceStable\<close> is defined by it, while every operation that
  calls \<^verbatim>\<open>sort.Slice\<close> takes the sort as an argument.
\<close>

section \<open>The comparator\<close>

definition equiv_by :: "('a \<Rightarrow> 'a \<Rightarrow> bool) \<Rightarrow> 'a \<Rightarrow> 'a \<Rightarrow> bool" where
  "equiv_by lt x y \<longleftrightarrow> \<not> lt x y \<and> \<not> lt y x"

definition strict_weak :: "('a \<Rightarrow> 'a \<Rightarrow> bool) \<Rightarrow> bool" where
  "strict_weak lt \<longleftrightarrow>
     (\<forall>x. \<not> lt x x) \<and>
     (\<forall>x y z. lt x y \<longrightarrow> lt y z \<longrightarrow> lt x z) \<and>
     (\<forall>x y z. equiv_by lt x y \<longrightarrow> equiv_by lt y z \<longrightarrow> equiv_by lt x z)"

definition sorted_by :: "('a \<Rightarrow> 'a \<Rightarrow> bool) \<Rightarrow> 'a list \<Rightarrow> bool" where
  "sorted_by lt xs \<longleftrightarrow> sorted_wrt (\<lambda>a b. \<not> lt b a) xs"

text \<open>A comparator that compares keys of a linear order is a strict weak order.\<close>

lemma strict_weak_key: "strict_weak (\<lambda>a b. (f a :: 'k::linorder) < f b)"
  by (auto simp: strict_weak_def equiv_by_def)

lemma sorted_by_key: "sorted_by (\<lambda>a b. (f a :: 'k::linorder) < f b) xs \<longleftrightarrow> sorted (map f xs)"
  by (simp add: sorted_by_def sorted_map not_less)

lemma not_less_trans:
  assumes "strict_weak lt" and "\<not> lt b a" and "\<not> lt c b"
  shows "\<not> lt c a"
  using assms unfolding strict_weak_def equiv_by_def by metis

section \<open>The contracts\<close>

locale slice_sort =
  fixes srt :: "('a \<Rightarrow> 'a \<Rightarrow> bool) \<Rightarrow> 'a list \<Rightarrow> 'a list"
  assumes srt_mset: "strict_weak lt \<Longrightarrow> mset (srt lt xs) = mset xs"
    and srt_sorted: "strict_weak lt \<Longrightarrow> sorted_by lt (srt lt xs)"
begin

lemma srt_set: "strict_weak lt \<Longrightarrow> set (srt lt xs) = set xs"
  by (metis srt_mset set_mset_mset)

lemma srt_length: "strict_weak lt \<Longrightarrow> length (srt lt xs) = length xs"
  by (metis srt_mset size_mset)

lemma srt_distinct: "strict_weak lt \<Longrightarrow> distinct (srt lt xs) = distinct xs"
  by (metis srt_mset mset_eq_imp_distinct_iff)

text \<open>The head of a sorted slice is minimal.\<close>

lemma srt_hd_minimal:
  assumes "strict_weak lt" and "xs \<noteq> []"
  shows "hd (srt lt xs) \<in> set xs" and "x \<in> set xs \<Longrightarrow> \<not> lt x (hd (srt lt xs))"
proof -
  obtain y ys where s: "srt lt xs = y # ys"
    by (metis assms srt_length length_0_conv neq_Nil_conv)
  have "set (y # ys) = set xs" using srt_set [OF assms(1), of xs] s by simp
  moreover have "\<forall>z \<in> set ys. \<not> lt z y"
    using srt_sorted [OF assms(1), of xs] s by (simp add: sorted_by_def)
  moreover have "\<not> lt y y" using assms(1) by (simp add: strict_weak_def)
  ultimately show "hd (srt lt xs) \<in> set xs" and "x \<in> set xs \<Longrightarrow> \<not> lt x (hd (srt lt xs))"
    using s by auto
qed

text \<open>The keys of the result are determined even where the elements are not.\<close>

lemma srt_keys: "map f (srt (\<lambda>a b. (f a :: 'k::linorder) < f b) xs) = sort (map f xs)"
proof (rule sym, rule properties_for_sort)
  show "mset (map f (srt (\<lambda>a b. f a < f b) xs)) = mset (map f xs)"
    using srt_mset [OF strict_weak_key, of f xs] by simp
  show "sorted (map f (srt (\<lambda>a b. f a < f b) xs))"
    using srt_sorted [OF strict_weak_key, of f xs] by (simp add: sorted_by_key)
qed

lemma srt_inj_key:
  assumes "inj_on f (set xs)"
  shows "srt (\<lambda>a b. (f a :: 'k::linorder) < f b) xs = sort_key f xs"
proof (rule map_inj_on [where f = f])
  let ?s = "srt (\<lambda>a b. f a < f b) xs"
  show "map f ?s = map f (sort_key f xs)"
    unfolding srt_keys by (rule properties_for_sort) simp_all
  show "inj_on f (set ?s \<union> set (sort_key f xs))"
    using assms by (simp add: srt_set [OF strict_weak_key])
qed

end

locale stable_slice_sort = slice_sort +
  assumes srt_stable:
    "strict_weak lt \<Longrightarrow> filter (equiv_by lt x) (srt lt xs) = filter (equiv_by lt x) xs"
begin

text \<open>A stable sort by a key is the library's \<open>sort_key\<close>.\<close>

lemma stable_eq_sort_key: "srt (\<lambda>a b. (f a :: 'k::linorder) < f b) xs = sort_key f xs"
proof (rule sym, rule properties_for_sort_key)
  let ?s = "srt (\<lambda>a b. f a < f b) xs"
  show "mset ?s = mset xs" by (rule srt_mset [OF strict_weak_key])
  show "sorted (map f ?s)"
    using srt_sorted [OF strict_weak_key, of f xs] by (simp add: sorted_by_key)
  fix k
  assume "k \<in> set ?s"
  have "equiv_by (\<lambda>a b. f a < f b) k = (\<lambda>x. f k = f x)"
    by (auto simp: equiv_by_def fun_eq_iff)
  then show "filter (\<lambda>x. f k = f x) ?s = filter (\<lambda>x. f k = f x) xs"
    using srt_stable [OF strict_weak_key, of f k xs] by simp
qed

end

section \<open>Insertion sort\<close>

text \<open>
  Go's \<^verbatim>\<open>insertionSort\<close> moves each element left past the elements it is less than.  The sorted
  prefix is kept reversed, so that the element meets the largest one first.
\<close>

fun insert_left :: "('a \<Rightarrow> 'a \<Rightarrow> bool) \<Rightarrow> 'a \<Rightarrow> 'a list \<Rightarrow> 'a list" where
  "insert_left lt x [] = [x]"
| "insert_left lt x (y # ys) = (if lt x y then y # insert_left lt x ys else x # y # ys)"

definition insertionSort :: "('a \<Rightarrow> 'a \<Rightarrow> bool) \<Rightarrow> 'a list \<Rightarrow> 'a list" where
  "insertionSort lt xs = rev (foldl (\<lambda>acc x. insert_left lt x acc) [] xs)"

definition SliceStable :: "('a \<Rightarrow> 'a \<Rightarrow> bool) \<Rightarrow> 'a list \<Rightarrow> 'a list" where
  "SliceStable lt xs = insertionSort lt xs"

lemma mset_insert_left [simp]: "mset (insert_left lt x ys) = add_mset x (mset ys)"
  by (induction ys) auto

lemma set_insert_left [simp]: "set (insert_left lt x ys) = insert x (set ys)"
  by (metis mset_insert_left set_mset_mset set_mset_add_mset_insert)

abbreviation desc_by :: "('a \<Rightarrow> 'a \<Rightarrow> bool) \<Rightarrow> 'a list \<Rightarrow> bool" where
  "desc_by lt \<equiv> sorted_wrt (\<lambda>a b. \<not> lt a b)"

lemma insert_left_desc:
  assumes "strict_weak lt" and "desc_by lt ys"
  shows "desc_by lt (insert_left lt x ys)"
  using assms(2)
proof (induction ys)
  case (Cons y ys)
  have "\<not> lt y x" if "lt x y"
    using assms(1) that unfolding strict_weak_def by blast
  moreover have "\<forall>z \<in> set ys. \<not> lt x z" if "\<not> lt x y"
    using that Cons.prems not_less_trans [OF assms(1)] by fastforce
  ultimately show ?case using Cons by auto
qed simp

text \<open>Stability: an element is put in front of its equals in the reversed prefix.\<close>

lemma insert_left_filter:
  assumes "strict_weak lt" and "desc_by lt ys"
  shows "filter (equiv_by lt k) (insert_left lt x ys)
    = (if equiv_by lt k x then x # filter (equiv_by lt k) ys else filter (equiv_by lt k) ys)"
  using assms(2)
proof (induction ys)
  case (Cons y ys)
  have "\<not> equiv_by lt k y" if "lt x y" "equiv_by lt k x"
    using assms(1) that unfolding strict_weak_def equiv_by_def by metis
  then show ?case using Cons by auto
qed simp

lemma foldl_insert_left:
  assumes "strict_weak lt" and "desc_by lt acc"
  defines "r \<equiv> \<lambda>xs. foldl (\<lambda>acc x. insert_left lt x acc) acc xs"
  shows "desc_by lt (r xs)" and "mset (r xs) = mset xs + mset acc"
    and "filter (equiv_by lt k) (r xs)
      = rev (filter (equiv_by lt k) xs) @ filter (equiv_by lt k) acc"
  using assms(2) unfolding r_def
  by (induction xs arbitrary: acc)
    (simp_all add: insert_left_desc insert_left_filter assms(1))

interpretation isort: stable_slice_sort insertionSort
proof
  fix lt :: "'a \<Rightarrow> 'a \<Rightarrow> bool" and xs x
  assume sw: "strict_weak lt"
  have nil: "desc_by lt []" by simp
  show "mset (insertionSort lt xs) = mset xs"
    using foldl_insert_left(2) [OF sw nil] by (simp add: insertionSort_def)
  show "sorted_by lt (insertionSort lt xs)"
    using foldl_insert_left(1) [OF sw nil]
    by (simp add: insertionSort_def sorted_by_def sorted_wrt_rev)
  show "filter (equiv_by lt x) (insertionSort lt xs) = filter (equiv_by lt x) xs"
    using foldl_insert_left(3) [OF sw nil, of x xs]
    by (simp add: insertionSort_def flip: rev_filter)
qed

interpretation stable: stable_slice_sort SliceStable
  unfolding SliceStable_def by (fact isort.stable_slice_sort_axioms)

text \<open>Any sort that keeps the stable contract returns what \<open>SliceStable\<close> returns.\<close>

lemma SliceStable_key: "SliceStable (\<lambda>a b. (f a :: 'k::linorder) < f b) xs = sort_key f xs"
  by (rule stable.stable_eq_sort_key)

lemma slice_sort_insertionSort [go_sort, simp]: "slice_sort insertionSort"
  by (rule isort.slice_sort_axioms)

end
