(* ===== verification/Registry.thy ===== *)
theory Registry
  imports Split GoSort "HOL-Library.Product_Lexorder"
begin

text \<open>
  \<^verbatim>\<open>internal/registry/registry.go\<close>: the node states every agent keeps, the model-name matching
  all of the scheduler rests on, and the registry itself, a map from node identifiers to the last
  known states.  Every method holds the registry's lock for its whole body, so an execution of the
  registry is a sequence of whole operations (\<open>reg_run\<close>), whatever the goroutines that call them.
\<close>

section \<open>Node states\<close>

record GPU =
  gpu_Name :: string
  gpu_Kind :: string
  gpu_MemTotal :: u64
  gpu_MemFree :: u64

record Resources =
  res_Hostname :: string
  res_OS :: string
  res_Arch :: string
  res_CPUModel :: string
  res_NumCPU :: int
  res_MemTotal :: u64
  res_MemAvailable :: u64
  res_GPUs :: "GPU list"

record Model =
  model_Name :: string
  model_Size :: u64
  model_Family :: string
  model_Parameters :: string
  model_Quant :: string

record SplitState =
  ss_Worker :: bool
  ss_Driver :: bool
  ss_RPCPort :: int
  ss_RPCRunning :: bool
  ss_Pipelines :: "PipelineInfo list"

record NodeState =
  ns_ID :: string
  ns_Name :: string
  ns_Version :: string
  ns_Pool :: string
  ns_Addr :: string
  ns_Sharing :: bool
  ns_Resources :: Resources
  ns_OllamaOK :: bool
  ns_OllamaVersion :: string
  ns_Models :: "Model list"
  ns_Loaded :: "string list"
  ns_Active :: int
  ns_TotalServed :: u64
  ns_Split :: SplitState
  ns_UpdatedAt :: instant
  ns_Self :: bool

text \<open>The zero values of the structs, as Go initialises them.\<close>

definition zero_Resources :: Resources where
  "zero_Resources = \<lparr>res_Hostname = [], res_OS = [], res_Arch = [], res_CPUModel = [], res_NumCPU = 0,
     res_MemTotal = 0, res_MemAvailable = 0, res_GPUs = []\<rparr>"

definition zero_SplitState :: SplitState where
  "zero_SplitState = \<lparr>ss_Worker = False, ss_Driver = False, ss_RPCPort = 0, ss_RPCRunning = False,
     ss_Pipelines = []\<rparr>"

definition zero_NodeState :: NodeState where
  "zero_NodeState = \<lparr>ns_ID = [], ns_Name = [], ns_Version = [], ns_Pool = [], ns_Addr = [],
     ns_Sharing = False, ns_Resources = zero_Resources, ns_OllamaOK = False, ns_OllamaVersion = [],
     ns_Models = [], ns_Loaded = [], ns_Active = 0, ns_TotalServed = 0, ns_Split = zero_SplitState,
     ns_UpdatedAt = 0, ns_Self = False\<rparr>"

text \<open>A node for the examples: shares its compute, its Ollama is up, seen at a given time.\<close>

definition example_node :: "string \<Rightarrow> instant \<Rightarrow> NodeState" where
  "example_node name t = zero_NodeState\<lparr>ns_ID := name, ns_Name := name, ns_Sharing := True,
     ns_OllamaOK := True, ns_UpdatedAt := t\<rparr>"

lemmas example_defs = example_node_def zero_NodeState_def zero_Resources_def zero_SplitState_def

abbreviation mem_available :: "NodeState \<Rightarrow> u64" where
  "mem_available n \<equiv> res_MemAvailable (ns_Resources n)"

section \<open>Model names\<close>

definition latest_tag :: string where "latest_tag = '':latest''"

text \<open>The comparison that \<^verbatim>\<open>HasModel\<close>, \<^verbatim>\<open>HasLoaded\<close> and \<^verbatim>\<open>PlanSplit\<close> write out.\<close>

definition model_matches :: "string \<Rightarrow> string \<Rightarrow> bool" where
  "model_matches m name \<longleftrightarrow> m = name \<or> m = name @ latest_tag \<or> m @ latest_tag = name"

definition HasModel :: "NodeState \<Rightarrow> string \<Rightarrow> bool" where
  "HasModel n name = list_ex (\<lambda>m. model_matches (model_Name m) name) (ns_Models n)"

definition HasLoaded :: "NodeState \<Rightarrow> string \<Rightarrow> bool" where
  "HasLoaded n name = list_ex (\<lambda>l. model_matches l name) (ns_Loaded n)"

text \<open>The name a reference stands for: the tag \<^verbatim>\<open>:latest\<close> is the default and can be dropped.\<close>

definition base_name :: "string \<Rightarrow> string" where
  "base_name s = (if suffix latest_tag s then take (length s - length latest_tag) s else s)"

lemma base_name_append [simp]: "base_name (s @ latest_tag) = s"
  by (simp add: base_name_def suffix_def)

lemma base_name_cases: "s = base_name s \<or> s = base_name s @ latest_tag"
  by (auto simp: base_name_def suffix_def)

lemma model_matches_refl [simp]: "model_matches m m"
  by (simp add: model_matches_def)

lemma model_matches_sym: "model_matches m n = model_matches n m"
  by (auto simp: model_matches_def)

lemma HasModel_iff: "HasModel n name \<longleftrightarrow> (\<exists>m \<in> set (ns_Models n). model_matches (model_Name m) name)"
  by (simp add: HasModel_def list_ex_iff)

text \<open>
  Model references are matched by what they stand for: for names that carry at most one
  \<^verbatim>\<open>:latest\<close>, a request matches a stored name exactly when both have the same base name, so
  matching is an equivalence and \<^verbatim>\<open>m\<close> and \<^verbatim>\<open>m:latest\<close> are the same model.
\<close>

theorem model_matches_base:
  assumes "\<not> suffix latest_tag (base_name m)" and "\<not> suffix latest_tag (base_name name)"
  shows "model_matches m name \<longleftrightarrow> base_name m = base_name name"
proof
  assume "model_matches m name"
  then consider "m = name" | "m = name @ latest_tag" | "name = m @ latest_tag"
    by (auto simp: model_matches_def)
  then show "base_name m = base_name name"
    using assms by cases (simp_all add: base_name_def [of name] base_name_def [of m])
next
  assume "base_name m = base_name name"
  then show "model_matches m name"
    using base_name_cases [of m] base_name_cases [of name] by (metis model_matches_def)
qed

theorem model_matches_base_witness:
  "model_matches ''llama3.2:latest'' ''llama3.2'' \<and> \<not> model_matches ''llama3.2:latest'' ''llama3.1''"
proof -
  have "\<not> suffix latest_tag (base_name s)" if "s \<in> {''llama3.2:latest'', ''llama3.2'', ''llama3.1''}" for s
    using that by (auto simp: base_name_def latest_tag_def suffix_def)
  then show ?thesis
    using model_matches_base [of "''llama3.2:latest''" "''llama3.2''"]
      model_matches_base [of "''llama3.2:latest''" "''llama3.1''"]
    by (simp add: base_name_def latest_tag_def suffix_def)
qed

section \<open>The registry and its operations\<close>

record Registry =
  nodes :: "string \<rightharpoonup> NodeState"

definition New :: Registry where
  "New = \<lparr>nodes = Map.empty\<rparr>"

definition Upsert :: "instant \<Rightarrow> NodeState \<Rightarrow> Registry \<Rightarrow> Registry" where
  "Upsert now s r = r\<lparr>nodes := (nodes r)(ns_ID s \<mapsto> s\<lparr>ns_UpdatedAt := now\<rparr>)\<rparr>"

definition Touch :: "instant \<Rightarrow> string \<Rightarrow> Registry \<Rightarrow> Registry" where
  "Touch now k r =
     (case nodes r k of
        Some n \<Rightarrow> r\<lparr>nodes := (nodes r)(k \<mapsto> n\<lparr>ns_UpdatedAt := now\<rparr>)\<rparr>
      | None \<Rightarrow> r)"

definition Remove :: "string \<Rightarrow> Registry \<Rightarrow> Registry" where
  "Remove k r = r\<lparr>nodes := (nodes r)(k := None)\<rparr>"

text \<open>The loop of \<^verbatim>\<open>Prune\<close>, over the identifiers in the order Go visits them.\<close>

fun prune_loop ::
  "instant \<Rightarrow> string list \<Rightarrow> (string \<rightharpoonup> NodeState) \<Rightarrow> (string \<rightharpoonup> NodeState) \<times> string list" where
  "prune_loop cutoff [] m = (m, [])"
| "prune_loop cutoff (k # ids) m =
     (case m k of
        Some n \<Rightarrow>
          if \<not> ns_Self n \<and> ns_UpdatedAt n < cutoff
          then apsnd (Cons k) (prune_loop cutoff ids (m(k := None)))
          else prune_loop cutoff ids m
      | None \<Rightarrow> prune_loop cutoff ids m)"

definition Prune :: "instant \<Rightarrow> duration \<Rightarrow> string list \<Rightarrow> Registry \<Rightarrow> Registry \<times> string list" where
  "Prune now ttl order r =
     (let (m, removed) = prune_loop (now - ttl) order (nodes r) in (r\<lparr>nodes := m\<rparr>, removed))"

definition snapshot_less :: "NodeState \<Rightarrow> NodeState \<Rightarrow> bool" where
  "snapshot_less a b = (if ns_Self a \<noteq> ns_Self b then ns_Self a else ns_Name a < ns_Name b)"

definition Snapshot ::
  "((NodeState \<Rightarrow> NodeState \<Rightarrow> bool) \<Rightarrow> NodeState list \<Rightarrow> NodeState list) \<Rightarrow> string list \<Rightarrow> Registry
    \<Rightarrow> NodeState list" where
  "Snapshot srt order r = srt snapshot_less (map_values (nodes r) order)"

definition Get :: "Registry \<Rightarrow> string \<Rightarrow> NodeState option" where
  "Get r k = nodes r k"

lemmas registry_defs = New_def Upsert_def Touch_def Remove_def Get_def

section \<open>The invariant\<close>

definition reg_inv :: "Registry \<Rightarrow> bool" where
  "reg_inv r \<longleftrightarrow> finite (dom (nodes r)) \<and> (\<forall>k n. nodes r k = Some n \<longrightarrow> ns_ID n = k)"

definition seen_by :: "instant \<Rightarrow> Registry \<Rightarrow> bool" where
  "seen_by now r \<longleftrightarrow> (\<forall>n \<in> ran (nodes r). ns_UpdatedAt n \<le> now)"

text \<open>What \<^verbatim>\<open>Prune\<close> is to do: drop exactly the stale entries of the other nodes.\<close>

definition stale_entry :: "instant \<Rightarrow> duration \<Rightarrow> NodeState \<Rightarrow> bool" where
  "stale_entry now ttl n \<longleftrightarrow> \<not> ns_Self n \<and> ns_UpdatedAt n < now - ttl"

definition pruned :: "instant \<Rightarrow> duration \<Rightarrow> Registry \<Rightarrow> Registry" where
  "pruned now ttl r = r\<lparr>nodes := (\<lambda>k. case nodes r k of
     Some n \<Rightarrow> if stale_entry now ttl n then None else Some n
   | None \<Rightarrow> None)\<rparr>"

lemma prune_loop_spec:
  assumes "distinct ids"
  shows "fst (prune_loop (now - ttl) ids m) = (\<lambda>k. if k \<in> set ids then
      (case m k of Some n \<Rightarrow> if stale_entry now ttl n then None else Some n | None \<Rightarrow> None) else m k)"
    and "snd (prune_loop (now - ttl) ids m) =
      filter (\<lambda>k. case m k of Some n \<Rightarrow> stale_entry now ttl n | None \<Rightarrow> False) ids"
  using assms
proof (induction ids arbitrary: m)
  case (Cons a ids)
  { case 1
    then show ?case
      using Cons.IH(1) by (auto simp: stale_entry_def fun_eq_iff split: option.splits)
  next
    case 2
    then have "filter (\<lambda>k. case (m(a := None)) k of Some n \<Rightarrow> stale_entry now ttl n | None \<Rightarrow> False) ids
        = filter (\<lambda>k. case m k of Some n \<Rightarrow> stale_entry now ttl n | None \<Rightarrow> False) ids"
      by (intro filter_cong) auto
    with 2 show ?case
      using Cons.IH(2) by (auto simp: stale_entry_def split: option.splits) }
qed (simp_all add: fun_eq_iff)

lemma pruned_nodes: "nodes (pruned now ttl r) k =
    (case nodes r k of Some n \<Rightarrow> if stale_entry now ttl n then None else Some n | None \<Rightarrow> None)"
  by (simp add: pruned_def)

lemma Prune_state:
  assumes "iter_order (nodes r) order"
  shows "fst (Prune now ttl order r) = pruned now ttl r"
proof -
  from assms have "\<forall>k. k \<notin> set order \<longrightarrow> nodes r k = None"
    by (auto simp: iter_order_def)
  then have "fst (prune_loop (now - ttl) order (nodes r)) = nodes (pruned now ttl r)"
    using prune_loop_spec(1) [of order now ttl "nodes r"] assms
    by (auto simp: iter_order_def pruned_nodes fun_eq_iff split: option.splits)
  then show ?thesis
    by (simp add: Prune_def case_prod_beta pruned_def)
qed

text \<open>
  \<^verbatim>\<open>Prune\<close> removes exactly the entries of other nodes not updated within the time to live,
  whatever the order in which the map is visited: the entries left are the old ones, the removed
  identifiers are reported once each, and this node is never removed.
\<close>

theorem Prune_exact:
  assumes "iter_order (nodes r) order"
  shows "(\<forall>k. nodes (fst (Prune now ttl order r)) k = (case nodes r k of
            Some n \<Rightarrow> if \<not> ns_Self n \<and> ns_UpdatedAt n < now - ttl then None else Some n
          | None \<Rightarrow> None)) \<and>
    distinct (snd (Prune now ttl order r)) \<and>
    set (snd (Prune now ttl order r)) =
          {k. \<exists>n. nodes r k = Some n \<and> \<not> ns_Self n \<and> ns_UpdatedAt n < now - ttl}"
proof -
  have removed: "snd (Prune now ttl order r) =
      filter (\<lambda>k. case nodes r k of Some n \<Rightarrow> stale_entry now ttl n | None \<Rightarrow> False) order"
    using prune_loop_spec(2) [of order now ttl "nodes r"] assms
    by (simp add: Prune_def case_prod_beta iter_order_def)
  show ?thesis
    unfolding removed Prune_state [OF assms] pruned_nodes stale_entry_def
    using assms by (auto simp: iter_order_def split: option.splits)
qed

theorem Prune_exact_witness:
  "set (snd (Prune 100 40 [''self'', ''old'', ''new'']
    \<lparr>nodes = [''self'' \<mapsto> example_node ''self'' 0 \<lparr>ns_Self := True\<rparr>,
       ''old'' \<mapsto> example_node ''old'' 59, ''new'' \<mapsto> example_node ''new'' 60]\<rparr>)) = {''old''}"
proof -
  let ?r = "\<lparr>nodes = [''self'' \<mapsto> example_node ''self'' 0 \<lparr>ns_Self := True\<rparr>,
       ''old'' \<mapsto> example_node ''old'' 59, ''new'' \<mapsto> example_node ''new'' 60]\<rparr>"
  have "iter_order (nodes ?r) [''self'', ''old'', ''new'']"
    by (auto simp: iter_order_def split: if_splits)
  from Prune_exact [OF this, of 100 40] show ?thesis
    by (auto simp: example_node_def zero_NodeState_def split: if_splits)
qed

section \<open>Executions\<close>

datatype reg_op =
  OpUpsert instant NodeState
| OpTouch instant string
| OpRemove string
| OpPrune instant duration

fun reg_step :: "reg_op \<Rightarrow> Registry \<Rightarrow> Registry" where
  "reg_step (OpUpsert t s) r = Upsert t s r"
| "reg_step (OpTouch t k) r = Touch t k r"
| "reg_step (OpRemove k) r = Remove k r"
| "reg_step (OpPrune t ttl) r = pruned t ttl r"

definition reg_run :: "reg_op list \<Rightarrow> Registry \<Rightarrow> Registry" where
  "reg_run ops r = fold reg_step ops r"

fun op_time :: "reg_op \<Rightarrow> instant option" where
  "op_time (OpUpsert t s) = Some t"
| "op_time (OpTouch t k) = Some t"
| "op_time (OpRemove k) = None"
| "op_time (OpPrune t ttl) = Some t"

lemma reg_inv_ID: "reg_inv r \<Longrightarrow> nodes r k = Some n \<Longrightarrow> ns_ID n = k"
  by (simp add: reg_inv_def)

lemma New_inv [step_inv]: "reg_inv New"
  by (simp add: reg_inv_def New_def)

lemma Upsert_inv [step_inv]: "reg_inv r \<Longrightarrow> reg_inv (Upsert now s r)"
  by (auto simp: reg_inv_def Upsert_def)

lemma Touch_inv [step_inv]: "reg_inv r \<Longrightarrow> reg_inv (Touch now k r)"
  by (auto simp: reg_inv_def Touch_def insert_absorb split: option.splits)

lemma Remove_inv [step_inv]: "reg_inv r \<Longrightarrow> reg_inv (Remove k r)"
  by (auto simp: reg_inv_def Remove_def)

lemma pruned_inv [step_inv]: "reg_inv r \<Longrightarrow> reg_inv (pruned now ttl r)"
proof -
  assume "reg_inv r"
  moreover have "dom (nodes (pruned now ttl r)) \<subseteq> dom (nodes r)"
    by (auto simp: pruned_nodes split: option.splits)
  ultimately show ?thesis
    by (auto simp: reg_inv_def pruned_nodes intro: finite_subset split: option.splits if_splits)
qed

lemma reg_step_inv: "reg_inv r \<Longrightarrow> reg_inv (reg_step op r)"
  by (cases op) (simp_all add: step_inv)

lemma reg_step_seen:
  "seen_by now r \<Longrightarrow> (\<And>t. op_time op = Some t \<Longrightarrow> t \<le> now) \<Longrightarrow> seen_by now (reg_step op r)"
  by (cases op) (auto simp: seen_by_def ran_def Upsert_def Touch_def Remove_def pruned_nodes
      split: option.splits if_splits)

text \<open>
  Whatever operations the agent's goroutines perform, in whatever order, the registry files
  every node under its own identifier, holds finitely many nodes, and no entry claims to have been
  updated later than the clock has reached.
\<close>

theorem reg_run_invariant:
  assumes "\<forall>op \<in> set ops. \<forall>t. op_time op = Some t \<longrightarrow> t \<le> now"
  shows "reg_inv (reg_run ops New) \<and> seen_by now (reg_run ops New)"
proof -
  have "reg_inv (fold reg_step ops r) \<and> seen_by now (fold reg_step ops r)"
    if "reg_inv r \<and> seen_by now r" for r
    using assms that
  proof (induction ops arbitrary: r)
    case (Cons op ops)
    then show ?case by (simp add: reg_step_inv reg_step_seen)
  qed simp
  moreover have "seen_by now New" by (simp add: seen_by_def New_def)
  ultimately show ?thesis by (simp add: reg_run_def New_inv)
qed

theorem reg_run_invariant_witness:
  "reg_inv (reg_run [OpUpsert 1 (example_node ''a'' 0), OpTouch 2 ''a'', OpPrune 3 1] New)"
  using reg_run_invariant [of "[OpUpsert 1 (example_node ''a'' 0), OpTouch 2 ''a'', OpPrune 3 1]" 3]
  by simp

section \<open>Snapshots\<close>

text \<open>The comparator of \<^verbatim>\<open>Snapshot\<close> compares keys: not this node, then the name.\<close>

definition snapshot_key :: "NodeState \<Rightarrow> bool \<times> string" where
  "snapshot_key n = (\<not> ns_Self n, ns_Name n)"

lemma snapshot_less_key: "snapshot_less = (\<lambda>a b. snapshot_key a < snapshot_key b)"
  by (auto simp: snapshot_less_def snapshot_key_def less_prod_def' fun_eq_iff)

lemma strict_weak_snapshot [go_sort, simp]: "strict_weak snapshot_less"
  unfolding snapshot_less_key by (rule strict_weak_key)

lemma Snapshot_mset:
  assumes "slice_sort srt" and "iter_order (nodes r) order"
  shows "mset (Snapshot srt order r) = mset (map_values (nodes r) order)"
  using slice_sort.srt_mset [OF assms(1) strict_weak_snapshot] by (simp add: Snapshot_def)

lemma Snapshot_set:
  assumes "slice_sort srt" and "iter_order (nodes r) order"
  shows "set (Snapshot srt order r) = ran (nodes r)"
  using Snapshot_mset [OF assms] set_map_values [OF assms(2)] by (metis set_mset_mset)

lemma distinct_map_values:
  assumes "reg_inv r" and "iter_order (nodes r) order"
  shows "distinct (map ns_ID (map_values (nodes r) order))"
proof -
  have "map ns_ID (map_values (nodes r) order) = order"
    unfolding map_values_map [OF assms(2)] map_map
    using assms by (intro map_idI) (auto simp: reg_inv_def iter_order_def)
  with assms(2) show ?thesis by (simp add: iter_order_def)
qed

text \<open>
  A snapshot lists every node of the registry exactly once, this node's entries before all
  the others and the others by name, for every order in which the map is visited and for every
  sort that keeps the contract of \<^verbatim>\<open>sort.Slice\<close>.
\<close>

theorem Snapshot_sorted:
  assumes "slice_sort srt" and "iter_order (nodes r) order" and "reg_inv r"
  shows "set (Snapshot srt order r) = ran (nodes r) \<and>
    length (Snapshot srt order r) = card (dom (nodes r)) \<and>
    distinct (map ns_ID (Snapshot srt order r)) \<and>
    sorted_wrt (\<lambda>a b. (ns_Self b \<longrightarrow> ns_Self a) \<and> (ns_Self a = ns_Self b \<longrightarrow> ns_Name a \<le> ns_Name b))
      (Snapshot srt order r)"
proof -
  have "length (Snapshot srt order r) = card (dom (nodes r))"
    using Snapshot_mset [OF assms(1,2)] length_map_values [OF assms(2)] by (metis size_mset)
  moreover have "distinct (map ns_ID (Snapshot srt order r))"
    using distinct_map_values [OF assms(3,2)] Snapshot_mset [OF assms(1,2)]
    by (metis mset_eq_imp_distinct_iff mset_map)
  moreover have "sorted_by snapshot_less (Snapshot srt order r)"
    unfolding Snapshot_def by (rule slice_sort.srt_sorted [OF assms(1) strict_weak_snapshot])
  then have "sorted_wrt (\<lambda>a b. (ns_Self b \<longrightarrow> ns_Self a) \<and>
      (ns_Self a = ns_Self b \<longrightarrow> ns_Name a \<le> ns_Name b)) (Snapshot srt order r)"
    unfolding sorted_by_def
    by (rule sorted_wrt_mono_rel [rotated]) (auto simp: snapshot_less_def split: if_splits)
  ultimately show ?thesis using Snapshot_set [OF assms(1,2)] by blast
qed

theorem Snapshot_sorted_witness:
  "distinct (map ns_ID (Snapshot insertionSort [''b''] (Upsert 5 (example_node ''b'' 0) New)))"
proof -
  have "iter_order (nodes (Upsert 5 (example_node ''b'' 0) New)) [''b'']"
    by (simp add: iter_order_def Upsert_def New_def example_defs)
  from Snapshot_sorted [OF slice_sort_insertionSort this] show ?thesis
    by (simp add: step_inv)
qed

section \<open>The interface the agent relies on\<close>

text \<open>
  The agent calls \<^verbatim>\<open>Get\<close>, \<^verbatim>\<open>Upsert\<close> and \<^verbatim>\<open>Prune\<close>.  What it needs of them is a last-writer-wins
  store of node states with expiry; its own lemmas are proved from these laws.
\<close>

locale node_store =
  fixes get :: "'s \<Rightarrow> string \<Rightarrow> NodeState option"
    and upsert :: "instant \<Rightarrow> NodeState \<Rightarrow> 's \<Rightarrow> 's"
    and prune :: "instant \<Rightarrow> duration \<Rightarrow> 's \<Rightarrow> 's"
    and valid :: "'s \<Rightarrow> bool"
  assumes valid_upsert: "valid s \<Longrightarrow> valid (upsert t n s)"
    and valid_prune: "valid s \<Longrightarrow> valid (prune t ttl s)"
    and get_ID: "valid s \<Longrightarrow> get s k = Some n \<Longrightarrow> ns_ID n = k"
    and get_upsert: "valid s \<Longrightarrow>
      get (upsert t n s) k = (if k = ns_ID n then Some (n\<lparr>ns_UpdatedAt := t\<rparr>) else get s k)"
    and get_prune: "valid s \<Longrightarrow> get (prune t ttl s) k =
      (case get s k of Some n \<Rightarrow> if stale_entry t ttl n then None else Some n | None \<Rightarrow> None)"
begin

abbreviation upserts :: "instant \<Rightarrow> NodeState list \<Rightarrow> 's \<Rightarrow> 's" where
  "upserts t ns s \<equiv> fold (upsert t) ns s"

lemma valid_upserts: "valid s \<Longrightarrow> valid (upserts t ns s)"
  by (induction ns arbitrary: s) (simp_all add: valid_upsert)

text \<open>A round of updates leaves the last state written for each identifier.\<close>

lemma get_upserts:
  "valid s \<Longrightarrow> get (upserts t ns s) k =
     (case List.find (\<lambda>n. ns_ID n = k) (rev ns) of
        Some n \<Rightarrow> Some (n\<lparr>ns_UpdatedAt := t\<rparr>)
      | None \<Rightarrow> get s k)"
proof (induction ns rule: rev_induct)
  case (snoc n ns)
  then show ?case by (simp add: get_upsert valid_upserts)
qed simp

lemma get_upserts_other:
  "valid s \<Longrightarrow> k \<notin> ns_ID ` set ns \<Longrightarrow> get (upserts t ns s) k = get s k"
proof -
  assume "valid s" and "k \<notin> ns_ID ` set ns"
  moreover from this have "List.find (\<lambda>n. ns_ID n = k) (rev ns) = None"
    by (auto simp: find_None_iff)
  ultimately show ?thesis by (simp add: get_upserts)
qed

text \<open>A peer that no update mentions goes once its entry is older than the time to live.\<close>

lemma silent_pruned:
  assumes "valid s" and "get s k = Some n" and "\<not> ns_Self n" and "ns_UpdatedAt n < now - ttl"
    and "k \<notin> ns_ID ` set ns"
  shows "get (prune now ttl (upserts t ns s)) k = None"
  using assms by (simp add: get_prune valid_upserts get_upserts_other stale_entry_def)

text \<open>This node's own entry survives every expiry.\<close>

lemma self_survives:
  assumes "valid s" and "get s k = Some n" and "ns_Self n"
  shows "get (prune now ttl s) k = Some n"
  using assms by (simp add: get_prune stale_entry_def)

end

interpretation reg: node_store Get Upsert pruned reg_inv
proof
  show "Get s k = Some n \<Longrightarrow> ns_ID n = k" if "reg_inv s" for s k n
    using that by (simp add: reg_inv_ID Get_def)
qed (simp_all add: step_inv, simp_all add: Get_def Upsert_def pruned_nodes)

end
