(* ===== verification/OllamaFS.thy ===== *)
theory OllamaFS
  imports GoJSON Registry
begin

text \<open>
  \<^verbatim>\<open>internal/ollamafs/ollamafs.go\<close>: finding the weights of a model in Ollama's store.  The file
  system is an argument: what a file contains, if it can be read, and which paths exist.
\<close>

record file_system =
  read_file :: "string \<Rightarrow> string option"
  path_exists :: "string \<Rightarrow> bool"

text \<open>\<open>env\<close> is the value of \<^verbatim>\<open>OLLAMA_MODELS\<close> (empty if unset), \<open>home\<close> the home directory.\<close>

definition DefaultDir :: "string \<Rightarrow> string option \<Rightarrow> string" where
  "DefaultDir env home =
     (if env \<noteq> [] then env
      else (case home of None \<Rightarrow> [] | Some h \<Rightarrow> FilepathJoin [h, ''.ollama'', ''models'']))"

section \<open>Model references\<close>

definition splitName :: "string \<Rightarrow> string \<times> string \<times> string \<times> string" where
  "splitName model =
     (let (name, tag) = (case LastIndex model (CHR '':'') of
            Some i \<Rightarrow> (take i model, drop (i + 1) model)
          | None \<Rightarrow> (model, ''latest''))
      in case Split name (CHR ''/'') of
           [a, b, c] \<Rightarrow> (a, b, c, tag)
         | [a, b] \<Rightarrow> (''registry.ollama.ai'', a, b, tag)
         | _ \<Rightarrow> (''registry.ollama.ai'', ''library'', name, tag))"

abbreviation name_part :: "string \<Rightarrow> bool" where
  "name_part p \<equiv> CHR ''/'' \<notin> set p \<and> CHR '':'' \<notin> set p"

lemma splitName_tagged:
  "CHR '':'' \<notin> set tag \<Longrightarrow> splitName (p @ CHR '':'' # tag) =
     (case Split p (CHR ''/'') of
        [a, b, c] \<Rightarrow> (a, b, c, tag)
      | [a, b] \<Rightarrow> (''registry.ollama.ai'', a, b, tag)
      | _ \<Rightarrow> (''registry.ollama.ai'', ''library'', p, tag))"
  by (simp add: splitName_def LastIndex_append)

lemma splitName_parts:
  assumes "name_part host" and "name_part ns" and "name_part name" and "CHR '':'' \<notin> set tag"
  shows "splitName (host @ ''/'' @ ns @ ''/'' @ name @ '':'' @ tag) = (host, ns, name, tag) \<and>
    splitName (ns @ ''/'' @ name @ '':'' @ tag) = (''registry.ollama.ai'', ns, name, tag) \<and>
    splitName (name @ '':'' @ tag) = (''registry.ollama.ai'', ''library'', name, tag) \<and>
    splitName name = (''registry.ollama.ai'', ''library'', name, ''latest'')"
proof -
  have "Split (host @ CHR ''/'' # ns @ CHR ''/'' # name) (CHR ''/'') = [host, ns, name]"
    and "Split (ns @ CHR ''/'' # name) (CHR ''/'') = [ns, name]" and "Split name (CHR ''/'') = [name]"
    using assms by (simp_all add: go_string)
  then show ?thesis
    using splitName_tagged [OF assms(4), of "host @ CHR ''/'' # ns @ CHR ''/'' # name"]
      splitName_tagged [OF assms(4), of "ns @ CHR ''/'' # name"] splitName_tagged [OF assms(4), of name]
      assms(3) by (simp add: splitName_def LastIndex_None)
qed

text \<open>
  A model reference is taken apart as Ollama writes it: \<^verbatim>\<open>host/namespace/name:tag\<close> gives back
  its four parts, and a missing host, namespace or tag becomes \<^verbatim>\<open>registry.ollama.ai\<close>,
  \<^verbatim>\<open>library\<close> or \<^verbatim>\<open>latest\<close>.
\<close>

theorem splitName_roundtrip:
  assumes "name_part host" and "name_part ns" and "name_part name" and "CHR '':'' \<notin> set tag"
  shows "splitName (host @ ''/'' @ ns @ ''/'' @ name @ '':'' @ tag) = (host, ns, name, tag) \<and>
    splitName (ns @ ''/'' @ name @ '':'' @ tag) = (''registry.ollama.ai'', ns, name, tag) \<and>
    splitName (name @ '':'' @ tag) = (''registry.ollama.ai'', ''library'', name, tag) \<and>
    splitName name = (''registry.ollama.ai'', ''library'', name, ''latest'')"
  using splitName_parts [OF assms] .

theorem splitName_roundtrip_witness:
  "splitName ''hf.co/org/repo:q4'' = (''hf.co'', ''org'', ''repo'', ''q4'') \<and>
   splitName ''repo'' = (''registry.ollama.ai'', ''library'', ''repo'', ''latest'')"
  using splitName_roundtrip [of "''hf.co''" "''org''" "''repo''" "''q4''"] by simp

lemma splitName_latest: "CHR '':'' \<notin> set m \<Longrightarrow> splitName (m @ latest_tag) = splitName m"
  using LastIndex_append [of "CHR '':''" "''latest''" m]
  by (simp add: splitName_def latest_tag_def LastIndex_None)

text \<open>
  Routing and storage agree on names: two references that the scheduler takes for the same
  model lead to the same manifest, if their names without the default tag carry no other tag.
\<close>

theorem splitName_respects_matching:
  assumes "model_matches m name" and "CHR '':'' \<notin> set (base_name m)" and "CHR '':'' \<notin> set (base_name name)"
  shows "splitName m = splitName name"
  using assms splitName_latest [of m] splitName_latest [of name] by (auto simp: model_matches_def)

theorem splitName_respects_matching_witness:
  "splitName ''llama3.2:latest'' = splitName ''llama3.2''"
  by (rule splitName_respects_matching)
    (simp_all add: model_matches_def base_name_def latest_tag_def suffix_def)

text \<open>
  A registry host with a port is not recognised: without a tag, the port and all that follows
  it are taken for the tag, so the reference resolves to a model named after the host in the
  default namespace.
\<close>

theorem splitName_host_port:
  assumes "name_part host" and "CHR '':'' \<notin> set port" and "CHR '':'' \<notin> set path"
  shows "splitName (host @ '':'' @ port @ ''/'' @ path) =
    (''registry.ollama.ai'', ''library'', host, port @ ''/'' @ path)"
  using splitName_tagged [of "port @ ''/'' @ path" host] assms by (simp add: Split_single)

theorem splitName_host_port_witness:
  "splitName ''localhost:5000/org/repo'' = (''registry.ollama.ai'', ''library'', ''localhost'', ''5000/org/repo'')"
  using splitName_host_port [of "''localhost''" "''5000''" "''org/repo''"] by simp

section \<open>Manifests and blobs\<close>

record layer =
  MediaType :: string
  Digest :: string

text \<open>\<^verbatim>\<open>json.Unmarshal\<close> into the manifest struct; \<open>None\<close> is its error.\<close>

fun layer_of :: "json \<Rightarrow> layer option" where
  "layer_of (JObj ms) =
     (case (string_field ''mediaType'' ms, string_field ''digest'' ms) of
        (Some m, Some d) \<Rightarrow> Some \<lparr>MediaType = m, Digest = d\<rparr>
      | _ \<Rightarrow> None)"
| "layer_of JNull = Some \<lparr>MediaType = [], Digest = []\<rparr>"
| "layer_of _ = None"

definition assign_layers :: "layer list option \<Rightarrow> json \<Rightarrow> layer list option" where
  "assign_layers acc v =
     (case (acc, v) of
        (Some ls, JArr vs) \<Rightarrow> those (map layer_of vs)
      | (Some ls, JNull) \<Rightarrow> Some []
      | _ \<Rightarrow> None)"

definition manifest_layers :: "string \<Rightarrow> layer list option" where
  "manifest_layers b =
     (case Unmarshal b of
        Some (JObj ms) \<Rightarrow> foldl assign_layers (Some []) (field_values ''layers'' ms)
      | Some JNull \<Rightarrow> Some []
      | _ \<Rightarrow> None)"

datatype blob_error =
  ModelNotFound string
| BadManifest string
| MissingBlob string string
| NoModelLayer string

definition model_media_type :: string where
  "model_media_type = ''application/vnd.ollama.image.model''"

definition manifest_path :: "string \<Rightarrow> string \<Rightarrow> string" where
  "manifest_path modelsDir model =
     (let (host, namespace, name, tag) = splitName model
      in FilepathJoin [modelsDir, ''manifests'', host, namespace, name, tag])"

definition blob_name :: "layer \<Rightarrow> string" where
  "blob_name l = ReplaceFirst (Digest l) ''sha256:'' ''sha256-''"

fun find_blob :: "file_system \<Rightarrow> string \<Rightarrow> string \<Rightarrow> layer list \<Rightarrow> blob_error + string" where
  "find_blob fs modelsDir model [] = Inl (NoModelLayer model)"
| "find_blob fs modelsDir model (l # ls) =
     (if MediaType l = model_media_type then
        (let path = FilepathJoin [modelsDir, ''blobs'', blob_name l]
         in if path_exists fs path then Inr path else Inl (MissingBlob model (blob_name l)))
      else find_blob fs modelsDir model ls)"

definition ModelBlobPath :: "file_system \<Rightarrow> string \<Rightarrow> string \<Rightarrow> blob_error + string" where
  "ModelBlobPath fs modelsDir model =
     (case read_file fs (manifest_path modelsDir model) of
        None \<Rightarrow> Inl (ModelNotFound model)
      | Some b \<Rightarrow>
          (case manifest_layers b of
             None \<Rightarrow> Inl (BadManifest model)
           | Some ls \<Rightarrow> find_blob fs modelsDir model ls))"

lemma find_blob_Inr:
  "find_blob fs dir model ls = Inr p \<longleftrightarrow>
     (\<exists>l. List.find (\<lambda>l. MediaType l = model_media_type) ls = Some l \<and>
        p = FilepathJoin [dir, ''blobs'', blob_name l] \<and> path_exists fs p)"
  by (induction ls) (auto simp: Let_def)

lemma find_blob_Inl:
  "find_blob fs dir model ls = Inl e \<longleftrightarrow>
     (case List.find (\<lambda>l. MediaType l = model_media_type) ls of
        None \<Rightarrow> e = NoModelLayer model
      | Some l \<Rightarrow> e = MissingBlob model (blob_name l) \<and>
          \<not> path_exists fs (FilepathJoin [dir, ''blobs'', blob_name l]))"
  by (induction ls) (auto simp: Let_def)

text \<open>
  A path is returned exactly when the manifest of the reference can be read and decoded, its
  first layer of the model media type exists as a blob, and the path is that blob; every way this
  fails has its own error.
\<close>

theorem ModelBlobPath_exact:
  "(ModelBlobPath fs dir model = Inr p \<longleftrightarrow>
      (\<exists>b ls l. read_file fs (manifest_path dir model) = Some b \<and> manifest_layers b = Some ls \<and>
         List.find (\<lambda>l. MediaType l = model_media_type) ls = Some l \<and>
         p = FilepathJoin [dir, ''blobs'', blob_name l] \<and> path_exists fs p)) \<and>
   (ModelBlobPath fs dir model = Inl (ModelNotFound model) \<longleftrightarrow>
      read_file fs (manifest_path dir model) = None) \<and>
   (ModelBlobPath fs dir model = Inl (BadManifest model) \<longleftrightarrow>
      (\<exists>b. read_file fs (manifest_path dir model) = Some b \<and> manifest_layers b = None))"
proof -
  have "find_blob fs dir model ls \<noteq> Inl (ModelNotFound model)" for ls
    by (auto simp: find_blob_Inl split: option.splits)
  moreover have "find_blob fs dir model ls \<noteq> Inl (BadManifest model)" for ls
    by (auto simp: find_blob_Inl split: option.splits)
  ultimately show ?thesis
    by (auto simp: ModelBlobPath_def find_blob_Inr split: option.splits)
qed

text \<open>
  The manifest of a reference with a host lies where Ollama puts it, below the store, provided
  no part of the reference is empty or a dot element.
\<close>

theorem manifest_path_below_store:
  assumes "ds \<noteq> []" and "\<forall>e \<in> set ds. plain_elem e"
    and "plain_elem host" "plain_elem ns" "plain_elem name" "plain_elem tag"
    and "CHR '':'' \<notin> set host" "CHR '':'' \<notin> set ns" "CHR '':'' \<notin> set name" "CHR '':'' \<notin> set tag"
  shows "manifest_path (''/'' @ Join ds ''/'') (host @ ''/'' @ ns @ ''/'' @ name @ '':'' @ tag) =
    ''/'' @ Join ds ''/'' @ ''/manifests/'' @ host @ ''/'' @ ns @ ''/'' @ name @ ''/'' @ tag"
proof -
  have "splitName (host @ ''/'' @ ns @ ''/'' @ name @ '':'' @ tag) = (host, ns, name, tag)"
    using assms splitName_parts [of host ns name tag] by (simp add: plain_elem_def)
  then have "manifest_path (''/'' @ Join ds ''/'') (host @ ''/'' @ ns @ ''/'' @ name @ '':'' @ tag) =
      FilepathJoin ((CHR ''/'' # Join ds ''/'') # [''manifests'', host, ns, name, tag])"
    by (simp add: manifest_path_def)
  also have "\<dots> = CHR ''/'' # Join (ds @ [''manifests'', host, ns, name, tag]) ''/''"
    using assms by (intro FilepathJoin_plain) (auto simp: plain_elem_def)
  finally show ?thesis using assms(1) by (simp add: Join_append)
qed

theorem manifest_path_below_store_witness:
  "manifest_path ''/models'' ''hf.co/org/repo:q4'' = ''/models/manifests/hf.co/org/repo/q4''"
  using manifest_path_below_store [of "[''models'']" "''hf.co''" "''org''" "''repo''" "''q4''"]
  by (simp add: plain_elem_def)

end
