(* ===== verification/GoJSONText.thy ===== *)
theory GoJSONText
  imports GoJSON
begin

text \<open>
  The texts the code writes, for whole JSON values, and the round trip: parsing what was written
  gives the value back, for values whose numbers are naturals or decimal fractions (as all written
  numbers are).
\<close>

fun encode_json :: "json \<Rightarrow> string" where
  "encode_json JNull = ''null''"
| "encode_json (JBool b) = (if b then ''true'' else ''false'')"
| "encode_json (JNum t) = t"
| "encode_json (JStr s) = encode_string s"
| "encode_json (JArr js) = ''['' @ Join (map encode_json js) '','' @ '']''"
| "encode_json (JObj ms) =
     ''{'' @ Join (map (\<lambda>m. encode_string (fst m) @ '':'' @ encode_json (snd m)) ms) '','' @ ''}''"

definition frac_text :: "string \<Rightarrow> bool" where
  "frac_text fr \<longleftrightarrow> (\<exists>ds. fr = CHR ''.'' # ds \<and> ds \<noteq> [] \<and> list_all is_digit ds)"

inductive plain_json :: "json \<Rightarrow> bool" where
  "plain_json JNull"
| "plain_json (JBool b)"
| "plain_json (JNum (dec_digits n))"
| "plain_json (JStr s)"
| "(\<And>j. j \<in> set js \<Longrightarrow> plain_json j) \<Longrightarrow> plain_json (JArr js)"
| "(\<And>k j. (k, j) \<in> set ms \<Longrightarrow> plain_json j) \<Longrightarrow> plain_json (JObj ms)"
| "frac_text fr \<Longrightarrow> plain_json (JNum (dec_digits n @ fr))"

text \<open>What may follow a value: nothing, or a character that no number goes on with.\<close>

definition delimited :: "string \<Rightarrow> bool" where
  "delimited r \<longleftrightarrow> r = [] \<or> hd r \<in> {CHR '','', CHR '']'', CHR ''}'', CHR 0x0A}"

lemma delimited_Cons [simp]: "delimited (c # r) \<longleftrightarrow> c \<in> {CHR '','', CHR '']'', CHR ''}'', CHR 0x0A}"
  by (simp add: delimited_def)

lemma delimited_Nil [simp]: "delimited []"
  by (simp add: delimited_def)

lemma dec_digits_first:
  "\<exists>d ds. dec_digits n = d # ds \<and> is_digit d \<and> (d = CHR ''0'' \<longrightarrow> ds = [])"
proof (induction n rule: dec_digits.induct)
  case (1 n)
  show ?case
  proof (cases "n < 10")
    case True
    then have "dec_digits n = [char_of (48 + n)]" by (subst dec_digits.simps) simp
    moreover have "is_digit (char_of (48 + n))" using dec_digits_all [of n] calculation by simp
    ultimately show ?thesis by simp
  next
    case False
    with 1 obtain d ds where d: "dec_digits (n div 10) = d # ds" "is_digit d" "d = CHR ''0'' \<longrightarrow> ds = []"
      by blast
    have "dec_digits n = dec_digits (n div 10) @ [char_of (48 + n mod 10)]"
      using False by (subst dec_digits.simps) simp
    moreover have "d \<noteq> CHR ''0''"
    proof
      assume "d = CHR ''0''"
      with d have "dec_digits (n div 10) = ''0''" by simp
      with dec_value_dec_digits [of "n div 10"] have "n div 10 = 0" by (simp add: dec_value_def digit_value_def)
      with False show False by simp
    qed
    ultimately show ?thesis using d by simp
  qed
qed

lemma parse_number_digits:
  assumes "delimited r" and "fr = [] \<or> frac_text fr"
  shows "parse_number (dec_digits n @ fr @ r) = Some (JNum (dec_digits n @ fr), r)"
proof -
  obtain d ds where d: "dec_digits n = d # ds" "is_digit d" "d = CHR ''0'' \<longrightarrow> ds = []"
    using dec_digits_first by blast
  have stop: "fr @ r = [] \<or> \<not> is_digit (hd (fr @ r))"
    using assms by (cases r) (auto simp: frac_text_def is_digit_def delimited_def)
  then have digits: "takeWhile is_digit (dec_digits n @ fr @ r) = dec_digits n"
    "dropWhile is_digit (dec_digits n @ fr @ r) = fr @ r"
    using dec_digits_all [of n] by (cases "fr @ r"; simp add: takeWhile_append2 dropWhile_append2)+
  have "d \<noteq> CHR ''-''" using d(2) by (auto simp: is_digit_def)
  moreover have "parse_int_part (dec_digits n @ fr @ r) = Some (dec_digits n, fr @ r)"
    using digits d by (auto simp: parse_int_part_def)
  moreover have "parse_frac (fr @ r) = Some (fr, r)"
  proof (cases "fr = []")
    case True
    with assms(1) show ?thesis by (auto simp: parse_frac_def delimited_def)
  next
    case False
    with assms(2) obtain fs where fs: "fr = CHR ''.'' # fs" "fs \<noteq> []" "list_all is_digit fs"
      by (auto simp: frac_text_def)
    moreover have "r = [] \<or> \<not> is_digit (hd r)" using assms(1) by (auto simp: delimited_def is_digit_def)
    ultimately have "takeWhile is_digit (fs @ r) = fs" "dropWhile is_digit (fs @ r) = r"
      by (cases r; simp add: list_all_iff takeWhile_append2 dropWhile_append2)+
    with fs show ?thesis by (cases fs) (simp_all add: parse_frac_def)
  qed
  moreover have "parse_exp r = Some ([], r)" using assms(1) by (auto simp: parse_exp_def delimited_def)
  ultimately show ?thesis using d by (simp add: parse_number_def)
qed

section \<open>Parsing what was written\<close>

lemma skip_ws_Cons: "\<not> is_json_space c \<Longrightarrow> skip_ws (c # s) = c # s"
  by (simp add: skip_ws_def)

lemma not_json_space [simp]:
  "\<not> is_json_space (CHR ''{'')" "\<not> is_json_space (CHR ''}'')" "\<not> is_json_space (CHR ''['')"
  "\<not> is_json_space (CHR '']'')" "\<not> is_json_space (CHR '','')" "\<not> is_json_space (CHR '':'')"
  "\<not> is_json_space (CHR 0x22)"
  by (simp_all add: is_json_space_def)

lemma encode_string_Cons: "encode_string s @ r = CHR 0x22 # concat (map encode_char s) @ CHR 0x22 # r"
  by (simp add: encode_string_def)

text \<open>No value starts with a closing bracket or white space.\<close>

lemma encode_json_first:
  assumes "plain_json j"
  shows "\<exists>c s. encode_json j = c # s \<and> \<not> is_json_space c \<and> c \<noteq> CHR '']'' \<and> c \<noteq> CHR ''}''"
  using assms
proof cases
  case (3 n)
  then show ?thesis using dec_digits_first [of n] by (auto simp: is_digit_def is_json_space_def)
next
  case (7 fr n)
  then show ?thesis using dec_digits_first [of n] by (auto simp: is_digit_def is_json_space_def)
qed (auto simp: encode_string_def is_json_space_def)

text \<open>Enough fuel for a value.\<close>

fun json_need :: "json \<Rightarrow> nat" where
  "json_need (JArr js) = Suc (sum_list (map (\<lambda>j. Suc (json_need j)) js))"
| "json_need (JObj ms) = Suc (sum_list (map (\<lambda>m. Suc (json_need (snd m))) ms))"
| "json_need _ = 1"

lemma parse_value_number:
  assumes "delimited r" and "fr = [] \<or> frac_text fr"
  shows "parse_value (Suc f) (dec_digits n @ fr @ r) = Some (JNum (dec_digits n @ fr), r)"
proof -
  obtain d ds where d: "dec_digits n = d # ds" "is_digit d" using dec_digits_first by blast
  then have c: "d \<noteq> CHR ''{''" "d \<noteq> CHR ''[''" "d \<noteq> CHR 0x22" "d \<noteq> CHR ''t''" "d \<noteq> CHR ''f''" "d \<noteq> CHR ''n''"
    "\<not> is_json_space d"
    by (auto simp: is_digit_def is_json_space_def)
  with parse_number_digits [OF assms, of n] d show ?thesis
    by (simp add: skip_ws_Cons HasPrefix_def)
qed

lemma parse_value_null: "parse_value (Suc f) (''null'' @ r) = Some (JNull, r)"
  by (simp add: skip_ws_def is_json_space_def HasPrefix_def)

lemma parse_value_bool:
  "parse_value (Suc f) (''true'' @ r) = Some (JBool True, r)"
  "parse_value (Suc f) (''false'' @ r) = Some (JBool False, r)"
  by (simp_all add: skip_ws_def is_json_space_def HasPrefix_def)

lemma Join_Cons: "Join (x # xs) sep = (if xs = [] then x else x @ sep @ Join xs sep)"
  by (cases xs) simp_all

lemma parse_elems_encode:
  assumes "\<And>j f r. j \<in> set js \<Longrightarrow> json_need j \<le> f \<Longrightarrow> delimited r \<Longrightarrow> parse_value f (encode_json j @ r) = Some (j, r)"
    and "js \<noteq> []" and "sum_list (map (\<lambda>j. Suc (json_need j)) js) \<le> f"
  shows "parse_elems f (Join (map encode_json js) '','' @ CHR '']'' # r) = Some (js, r)"
  using assms
proof (induction js arbitrary: f)
  case (Cons j js)
  then obtain g where g: "f = Suc g" by (cases f) auto
  show ?case
  proof (cases js)
    case Nil
    with Cons.prems g show ?thesis by (simp add: skip_ws_Cons del: parse_value.simps)
  next
    case (Cons k ks)
    have "parse_elems g (Join (map encode_json js) '','' @ CHR '']'' # r) = Some (js, r)"
      using Cons.prems Cons.IH [of g] Cons g by simp
    then show ?thesis
      using Cons.prems Cons g by (simp add: Join_Cons skip_ws_Cons del: parse_value.simps)
  qed
qed simp

lemma parse_members_encode:
  assumes "\<And>k j f r. (k, j) \<in> set ms \<Longrightarrow> json_need j \<le> f \<Longrightarrow> delimited r \<Longrightarrow> parse_value f (encode_json j @ r) = Some (j, r)"
    and "ms \<noteq> []" and "sum_list (map (\<lambda>m. Suc (json_need (snd m))) ms) \<le> f"
  shows "parse_members f (Join (map (\<lambda>m. encode_string (fst m) @ '':'' @ encode_json (snd m)) ms) '','' @ CHR ''}'' # r)
    = Some (ms, r)"
  using assms
proof (induction ms arbitrary: f)
  case (Cons m ms)
  obtain k j where m: "m = (k, j)" by fastforce
  obtain g where g: "f = Suc g" using Cons.prems by (cases f) auto
  have j: "json_need j \<le> g" using Cons.prems(3) m g by simp
  show ?case
  proof (cases ms)
    case Nil
    with Cons.prems(1) [of k j g] m g j show ?thesis
      by (simp add: encode_string_Cons skip_ws_Cons parse_chars_encode del: parse_value.simps)
  next
    case (Cons m2 ms2)
    have "parse_members g (Join (map (\<lambda>m. encode_string (fst m) @ '':'' @ encode_json (snd m)) ms) '','' @ CHR ''}'' # r)
        = Some (ms, r)"
      by (rule Cons.IH) (use Cons.prems Cons g in auto)
    with Cons.prems(1) [of k j g] m g j Cons show ?thesis
      by (simp add: Join_Cons encode_string_Cons skip_ws_Cons parse_chars_encode del: parse_value.simps)
  qed
qed simp

lemma parse_array_encode:
  assumes "\<And>j f r. j \<in> set js \<Longrightarrow> json_need j \<le> f \<Longrightarrow> delimited r \<Longrightarrow> parse_value f (encode_json j @ r) = Some (j, r)"
    and "\<And>j. j \<in> set js \<Longrightarrow> plain_json j" and "json_need (JArr js) \<le> f"
  shows "parse_value f (encode_json (JArr js) @ r) = Some (JArr js, r)"
proof -
  obtain g where g: "f = Suc g" using assms(3) by (cases f) auto
  show ?thesis
  proof (cases "js = []")
    case True
    with g show ?thesis by (simp add: skip_ws_Cons HasPrefix_def)
  next
    case False
    then obtain j js' where js: "js = j # js'" by (cases js) auto
    then have "plain_json j" using assms(2) by simp
    then obtain c s where c: "encode_json j = c # s" "\<not> is_json_space c" "c \<noteq> CHR '']''"
      using encode_json_first by blast
    have "parse_elems g (Join (map encode_json js) '','' @ CHR '']'' # r) = Some (js, r)"
      using assms False g by (intro parse_elems_encode) auto
    moreover have "\<not> HasPrefix (skip_ws (Join (map encode_json js) '','' @ CHR '']'' # r)) '']''"
      using c js by (simp add: Join_Cons skip_ws_Cons HasPrefix_def)
    ultimately show ?thesis using g by (simp add: skip_ws_Cons)
  qed
qed

lemma parse_object_encode:
  assumes "\<And>k j f r. (k, j) \<in> set ms \<Longrightarrow> json_need j \<le> f \<Longrightarrow> delimited r \<Longrightarrow> parse_value f (encode_json j @ r) = Some (j, r)"
    and "json_need (JObj ms) \<le> f"
  shows "parse_value f (encode_json (JObj ms) @ r) = Some (JObj ms, r)"
proof -
  obtain g where g: "f = Suc g" using assms(2) by (cases f) auto
  show ?thesis
  proof (cases "ms = []")
    case True
    with g show ?thesis by (simp add: skip_ws_Cons HasPrefix_def)
  next
    case False
    then obtain m ms' where ms: "ms = m # ms'" by (cases ms) auto
    let ?f = "\<lambda>m. encode_string (fst m) @ '':'' @ encode_json (snd m)"
    have "parse_members g (Join (map ?f ms) '','' @ CHR ''}'' # r) = Some (ms, r)"
      using assms False g by (intro parse_members_encode) auto
    moreover have "\<not> HasPrefix (skip_ws (Join (map ?f ms) '','' @ CHR ''}'' # r)) ''}''"
      using ms by (simp add: Join_Cons encode_string_Cons skip_ws_Cons HasPrefix_def)
    ultimately show ?thesis using g by (simp add: skip_ws_Cons)
  qed
qed

lemma parse_value_encode:
  assumes "plain_json j" and "json_need j \<le> f" and "delimited r"
  shows "parse_value f (encode_json j @ r) = Some (j, r)"
  using assms
proof (induction j arbitrary: f r rule: plain_json.induct)
  case 1
  then show ?case by (cases f) (use parse_value_null in \<open>simp_all del: parse_value.simps(2)\<close>)
next
  case (2 b)
  then show ?case by (cases f) (use parse_value_bool in \<open>simp_all del: parse_value.simps(2)\<close>)
next
  case (3 n)
  with parse_value_number [of r "[]" _ n] show ?case by (cases f) (simp_all del: parse_value.simps(2))
next
  case (7 fr n)
  then show ?case by (cases f) (simp_all add: parse_value_number del: parse_value.simps(2))
next
  case (4 s)
  then show ?case by (cases f) (simp_all add: parse_value_string del: parse_value.simps(2))
next
  case (5 js)
  show ?case by (rule parse_array_encode) (use 5 in auto)
next
  case (6 ms)
  show ?case by (rule parse_object_encode) (use 6 in auto)
qed

lemma sum_list_Suc_le:
  "(\<And>x. x \<in> set xs \<Longrightarrow> f x \<le> length (g x)) \<Longrightarrow> sum_list (map (\<lambda>x. Suc (f x)) xs) \<le> Suc (length (Join (map g xs) [c]))"
proof (induction xs)
  case (Cons x xs)
  then have "f x \<le> length (g x)" "sum_list (map (\<lambda>x. Suc (f x)) xs) \<le> Suc (length (Join (map g xs) [c]))"
    by simp_all
  then show ?case by (cases xs) (simp_all add: Join_Cons)
qed simp

lemma json_need_le: "plain_json j \<Longrightarrow> json_need j \<le> length (encode_json j)"
proof (induction rule: plain_json.induct)
  case (3 n)
  then show ?case using dec_digits_neq_Nil [of n] by (cases "dec_digits n") simp_all
next
  case (7 fr n)
  then show ?case using dec_digits_neq_Nil [of n] by (cases "dec_digits n") simp_all
next
  case (5 js)
  then show ?case using sum_list_Suc_le [of js json_need encode_json "CHR '',''"] by simp
next
  case (6 ms)
  have "json_need (snd m) \<le> length (encode_string (fst m) @ '':'' @ encode_json (snd m))" if "m \<in> set ms" for m
    using 6 [of "fst m" "snd m"] that by simp
  then have "sum_list (map (\<lambda>m. Suc (json_need (snd m))) ms) \<le>
      Suc (length (Join (map (\<lambda>m. encode_string (fst m) @ '':'' @ encode_json (snd m)) ms) '',''))"
    by (rule sum_list_Suc_le)
  then show ?case by simp
qed (simp_all add: encode_string_def)

text \<open>\<^verbatim>\<open>json.Unmarshal\<close> and a decoder read back what \<^verbatim>\<open>json.Marshal\<close> and an encoder wrote.\<close>

lemma Unmarshal_encode: "plain_json j \<Longrightarrow> Unmarshal (encode_json j) = Some j"
proof -
  assume j: "plain_json j"
  have "json_need j \<le> json_fuel (encode_json j)"
    using json_need_le [OF j] by (simp add: json_fuel_def)
  from parse_value_encode [OF j this, of "[]"] show ?thesis by (simp add: Unmarshal_def skip_ws_def)
qed

lemma Decode_encode: "plain_json j \<Longrightarrow> delimited r \<Longrightarrow> Decode (encode_json j @ r) = Some j"
proof -
  assume j: "plain_json j" and r: "delimited r"
  have "json_need j \<le> json_fuel (encode_json j @ r)"
    using json_need_le [OF j] by (simp add: json_fuel_def)
  from parse_value_encode [OF j this r] show ?thesis by (simp add: Decode_def)
qed

lemma encode_strings_json: "encode_strings ss = encode_json (JArr (map JStr ss))"
  by (simp add: encode_strings_def comp_def)

lemma plain_json_strings [simp]: "plain_json (JArr (map JStr ss))" "plain_json (JStr s)"
  by (auto intro!: plain_json.intros)

lemma those_strings: "those (map (assign_string (Some [])) (map JStr ss)) = Some ss"
  by (induction ss) simp_all

end
