(* ===== verification/Resources.thy ===== *)
theory Resources
  imports Registry GoJSONText
begin

text \<open>
  \<^verbatim>\<open>internal/resources/resources.go\<close>: the probes of the local machine and of the local Ollama.  What
  the operating system, \<^verbatim>\<open>nvidia-smi\<close> and Ollama answer is an argument; the model is of what the
  code makes of the answers, failures included.
\<close>

section \<open>Hardware\<close>

text \<open>A failing probe is \<open>None\<close>; the memory is total and available bytes.\<close>

record machine =
  mc_GOOS :: string
  mc_GOARCH :: string
  mc_NumCPU :: int
  mc_Hostname :: "string option"
  mc_Memory :: "(u64 \<times> u64) option"
  mc_CPUs :: "string list option"
  mc_nvidia :: "string option"

definition mib :: u64 where "mib = 1024 * 1024"

definition parse_gpu :: "string \<Rightarrow> GPU option" where
  "parse_gpu line =
     (case Split line (CHR '','') of
        [a, b, c] \<Rightarrow> Some \<lparr>gpu_Name = TrimSpace a, gpu_Kind = ''cuda'',
          gpu_MemTotal = fst (ParseUint (TrimSpace b)) * mib, gpu_MemFree = fst (ParseUint (TrimSpace c)) * mib\<rparr>
      | _ \<Rightarrow> None)"

definition nvidiaGPUs :: "machine \<Rightarrow> GPU list \<times> bool" where
  "nvidiaGPUs mc =
     (case mc_nvidia mc of
        None \<Rightarrow> ([], False)
      | Some out \<Rightarrow> (let gpus = List.map_filter parse_gpu (Split (TrimSpace out) (CHR 0x0A)) in (gpus, gpus \<noteq> [])))"

definition detectGPUs :: "machine \<Rightarrow> Resources \<Rightarrow> GPU list" where
  "detectGPUs mc res =
     (let (g, ok) = nvidiaGPUs mc; gpus = (if ok then g else [])
      in if mc_GOOS mc = ''darwin'' \<and> mc_GOARCH mc = ''arm64'' then
           gpus @ [\<lparr>gpu_Name = (if res_CPUModel res \<noteq> [] then res_CPUModel res else ''Apple Silicon'') @ '' (unified memory)'',
             gpu_Kind = ''metal'', gpu_MemTotal = res_MemTotal res, gpu_MemFree = res_MemAvailable res\<rparr>]
         else gpus)"

definition Collect :: "machine \<Rightarrow> Resources" where
  "Collect mc =
     (let res = zero_Resources\<lparr>res_OS := mc_GOOS mc, res_Arch := mc_GOARCH mc, res_NumCPU := mc_NumCPU mc\<rparr>;
          res = (case mc_Hostname mc of Some h \<Rightarrow> res\<lparr>res_Hostname := h\<rparr> | None \<Rightarrow> res);
          res = (case mc_Memory mc of Some (t, a) \<Rightarrow> res\<lparr>res_MemTotal := t, res_MemAvailable := a\<rparr> | None \<Rightarrow> res);
          res = (case mc_CPUs mc of Some (c # _) \<Rightarrow> res\<lparr>res_CPUModel := TrimSpace c\<rparr> | _ \<Rightarrow> res)
      in res\<lparr>res_GPUs := detectGPUs mc res\<rparr>)"

text \<open>A device and its line in the output of \<^verbatim>\<open>nvidia-smi\<close>.\<close>

definition trimmed :: "string \<Rightarrow> bool" where
  "trimmed s \<longleftrightarrow> s \<noteq> [] \<and> \<not> is_space (hd s) \<and> \<not> is_space (last s)"

definition smi_line :: "string \<times> nat \<times> nat \<Rightarrow> string" where
  "smi_line d = (case d of (name, tot, free) \<Rightarrow> name @ '', '' @ dec_digits tot @ '', '' @ dec_digits free)"

definition smi_ok :: "string \<times> nat \<times> nat \<Rightarrow> bool" where
  "smi_ok d \<longleftrightarrow> (case d of (name, tot, free) \<Rightarrow>
     trimmed name \<and> CHR '','' \<notin> set name \<and> CHR 0x0A \<notin> set name \<and> tot < 2 ^ 44 \<and> free < 2 ^ 44)"

definition smi_gpu :: "string \<times> nat \<times> nat \<Rightarrow> GPU" where
  "smi_gpu d = (case d of (name, tot, free) \<Rightarrow>
     \<lparr>gpu_Name = name, gpu_Kind = ''cuda'', gpu_MemTotal = of_nat (tot * 2 ^ 20), gpu_MemFree = of_nat (free * 2 ^ 20)\<rparr>)"

lemma digits_not:
  "CHR '','' \<notin> set (dec_digits n)" "CHR 0x0A \<notin> set (dec_digits n)" "\<forall>c \<in> set (dec_digits n). \<not> is_space c"
  using dec_digits_all [of n] by (auto simp: is_digit_def is_space_def)

lemma trimmed_digits: "trimmed (dec_digits n)"
  using digits_not(3) [of n] dec_digits_neq_Nil [of n]
  by (simp add: trimmed_def hd_in_set last_in_set)

lemma TrimSpace_trimmed: "trimmed s \<Longrightarrow> TrimSpace s = s"
  by (simp add: trimmed_def TrimSpace_id)

lemma TrimSpace_leading: "TrimSpace (CHR '' '' # s) = TrimSpace s"
  by (simp add: TrimSpace_def is_space_def)

lemma parse_gpu_line: "smi_ok d \<Longrightarrow> parse_gpu (smi_line d) = Some (smi_gpu d)"
proof -
  obtain name tot free where d: "d = (name, tot, free)" by (cases d)
  assume "smi_ok d"
  with d have ok: "trimmed name" "CHR '','' \<notin> set name" "tot < 2 ^ 44" "free < 2 ^ 44"
    by (simp_all add: smi_ok_def)
  have "Split (CHR '' '' # dec_digits free) (CHR '','') = [CHR '' '' # dec_digits free]"
    by (rule Split_single) (use digits_not in auto)
  moreover have "Split ((CHR '' '' # dec_digits tot) @ CHR '','' # CHR '' '' # dec_digits free) (CHR '','')
      = (CHR '' '' # dec_digits tot) # Split (CHR '' '' # dec_digits free) (CHR '','')"
    by (rule Split_append) (use digits_not in auto)
  ultimately have "Split (smi_line d) (CHR '','') = [name, CHR '' '' # dec_digits tot, CHR '' '' # dec_digits free]"
    using ok(2) by (simp add: smi_line_def d Split_append)
  moreover have "ParseUint (dec_digits n) = (of_nat n, True)" if "n < 2 ^ 44" for n
    using that by (intro ParseUint_dec_digits) simp
  ultimately show ?thesis
    using ok by (simp add: parse_gpu_def smi_gpu_def d TrimSpace_trimmed TrimSpace_leading trimmed_digits mib_def mult.commute)
qed

lemma last_Join: "xs \<noteq> [] \<Longrightarrow> last xs \<noteq> [] \<Longrightarrow> Join xs sep \<noteq> [] \<and> last (Join xs sep) = last (last xs)"
  by (induction xs sep rule: Join.induct) (auto split: if_splits)

lemma hd_Join: "xs \<noteq> [] \<Longrightarrow> hd xs \<noteq> [] \<Longrightarrow> hd (Join xs sep) = hd (hd xs)"
  by (induction xs sep rule: Join.induct) auto

lemma trimmed_line: "smi_ok d \<Longrightarrow> trimmed (smi_line d) \<and> CHR 0x0A \<notin> set (smi_line d)"
proof -
  obtain name tot free where d: "d = (name, tot, free)" by (cases d)
  assume "smi_ok d"
  then show ?thesis
    using trimmed_digits [of free] digits_not(2) d by (auto simp: smi_ok_def smi_line_def trimmed_def)
qed

lemma TrimSpace_line_end: "trimmed s \<Longrightarrow> TrimSpace (s @ [CHR 0x0A]) = s"
proof -
  assume s: "trimmed s"
  then have "dropWhile is_space (s @ [CHR 0x0A]) = s @ [CHR 0x0A]"
    by (cases s) (simp_all add: trimmed_def)
  moreover have "dropWhile is_space (rev s) = rev s"
    using s by (cases s rule: rev_cases) (simp_all add: trimmed_def)
  ultimately show ?thesis by (simp add: TrimSpace_def is_space_def)
qed

text \<open>
  The graphics cards are read as \<^verbatim>\<open>nvidia-smi\<close> prints them: every line becomes one card with
  its name and its memory in bytes, without wrap-around below 2 ^ 44 mebibytes, in order, and on
  any other system than Apple's there are no more; if the program fails there are none.
\<close>

theorem detectGPUs_roundtrip:
  assumes "ds \<noteq> []" and "\<forall>d \<in> set ds. smi_ok d" and "mc_GOOS mc \<noteq> ''darwin''"
    and "mc_nvidia mc = Some (Join (map smi_line ds) [CHR 0x0A] @ [CHR 0x0A])"
  shows "res_GPUs (Collect mc) = map smi_gpu ds \<and> res_GPUs (Collect (mc\<lparr>mc_nvidia := None\<rparr>)) = []"
proof -
  let ?text = "Join (map smi_line ds) [CHR 0x0A]"
  have "trimmed (smi_line (hd ds))" "trimmed (smi_line (last ds))"
    using assms(1,2) by (auto simp: trimmed_line)
  then have "trimmed ?text"
    using last_Join [of "map smi_line ds" "[CHR 0x0A]"] hd_Join [of "map smi_line ds" "[CHR 0x0A]"] assms(1)
    by (simp add: trimmed_def last_map hd_map)
  then have "TrimSpace (?text @ [CHR 0x0A]) = ?text" by (rule TrimSpace_line_end)
  moreover have "Split ?text (CHR 0x0A) = map smi_line ds"
    using assms(1,2) by (intro Split_Join) (auto simp: trimmed_line)
  moreover have "List.map_filter parse_gpu (map smi_line ds) = map smi_gpu ds"
    using assms(2) by (induction ds) (simp_all add: List.map_filter_simps parse_gpu_line)
  ultimately have "detectGPUs mc res = map smi_gpu ds" for res
    using assms by (simp add: detectGPUs_def nvidiaGPUs_def)
  moreover have "detectGPUs (mc\<lparr>mc_nvidia := None\<rparr>) res = []" for res
    using assms(3) by (simp add: detectGPUs_def nvidiaGPUs_def)
  ultimately show ?thesis by (simp add: Collect_def Let_def)
qed

definition example_machine :: machine where
  "example_machine = \<lparr>mc_GOOS = ''linux'', mc_GOARCH = ''amd64'', mc_NumCPU = 8, mc_Hostname = Some ''box'',
     mc_Memory = Some (64, 32), mc_CPUs = None,
     mc_nvidia = Some (Join [smi_line (''RTX 4090'', 24564, 20000), smi_line (''RTX 3060'', 12288, 512)] [CHR 0x0A] @ [CHR 0x0A])\<rparr>"

theorem detectGPUs_roundtrip_witness:
  "map gpu_Name (res_GPUs (Collect example_machine)) = [''RTX 4090'', ''RTX 3060'']"
  using detectGPUs_roundtrip [of "[(''RTX 4090'', 24564, 20000), (''RTX 3060'', 12288, 512)]" example_machine]
  by (simp add: example_machine_def smi_ok_def trimmed_def is_space_def smi_gpu_def)

section \<open>Ollama\<close>

record OllamaState =
  os_OK :: bool
  os_Version :: string
  os_Models :: "Model list"
  os_Loaded :: "string list"

text \<open>An answer to a GET request: none, or a status and a body.\<close>

datatype http_get = GetFailed | GetStatus int string

definition getJSON :: "(string \<Rightarrow> http_get) \<Rightarrow> string \<Rightarrow> json option" where
  "getJSON get url =
     (case get url of
        GetFailed \<Rightarrow> None
      | GetStatus status body \<Rightarrow> if status \<noteq> 200 then None else Decode body)"

text \<open>Decoding into the structs of the code; \<open>None\<close> is an error of the decoder.\<close>

fun assign_uint :: "u64 option \<Rightarrow> json \<Rightarrow> u64 option" where
  "assign_uint None v = None"
| "assign_uint (Some n) (JNum t) = (case ParseUint t of (m, True) \<Rightarrow> Some m | _ \<Rightarrow> None)"
| "assign_uint (Some n) JNull = Some n"
| "assign_uint (Some n) _ = None"

definition uint_field :: "string \<Rightarrow> (string \<times> json) list \<Rightarrow> u64 option" where
  "uint_field name ms = foldl assign_uint (Some 0) (field_values name ms)"

definition assign_object :: "(string \<times> json) list option \<Rightarrow> json \<Rightarrow> (string \<times> json) list option" where
  "assign_object acc v =
     (case (acc, v) of
        (Some old, JObj ms) \<Rightarrow> Some (old @ ms)
      | (Some old, JNull) \<Rightarrow> Some old
      | _ \<Rightarrow> None)"

text \<open>The members given for a nested struct, in order.\<close>

definition object_field :: "string \<Rightarrow> (string \<times> json) list \<Rightarrow> (string \<times> json) list option" where
  "object_field name ms = foldl assign_object (Some []) (field_values name ms)"

definition assign_list :: "(json \<Rightarrow> 'a option) \<Rightarrow> 'a list option \<Rightarrow> json \<Rightarrow> 'a list option" where
  "assign_list elem acc v =
     (case (acc, v) of
        (Some old, JArr vs) \<Rightarrow> those (map elem vs)
      | (Some old, JNull) \<Rightarrow> Some []
      | _ \<Rightarrow> None)"

definition list_field :: "(json \<Rightarrow> 'a option) \<Rightarrow> string \<Rightarrow> (string \<times> json) list \<Rightarrow> 'a list option" where
  "list_field elem name ms = foldl (assign_list elem) (Some []) (field_values name ms)"

fun tag_of :: "json \<Rightarrow> Model option" where
  "tag_of (JObj ms) =
     (case (string_field ''name'' ms, uint_field ''size'' ms, object_field ''details'' ms) of
        (Some name, Some sz, Some ds) \<Rightarrow>
          (case (string_field ''family'' ds, string_field ''parameter_size'' ds, string_field ''quantization_level'' ds) of
             (Some f, Some p, Some q) \<Rightarrow>
               Some \<lparr>model_Name = name, model_Size = sz, model_Family = f, model_Parameters = p, model_Quant = q\<rparr>
           | _ \<Rightarrow> None)
      | _ \<Rightarrow> None)"
| "tag_of JNull = Some \<lparr>model_Name = [], model_Size = 0, model_Family = [], model_Parameters = [], model_Quant = []\<rparr>"
| "tag_of _ = None"

fun loaded_of :: "json \<Rightarrow> string option" where
  "loaded_of (JObj ms) = string_field ''name'' ms"
| "loaded_of JNull = Some []"
| "loaded_of _ = None"

fun version_of :: "json \<Rightarrow> string option" where
  "version_of (JObj ms) = string_field ''version'' ms"
| "version_of JNull = Some []"
| "version_of _ = None"

fun models_of :: "(json \<Rightarrow> 'a option) \<Rightarrow> json \<Rightarrow> 'a list option" where
  "models_of elem (JObj ms) = list_field elem ''models'' ms"
| "models_of elem JNull = Some []"
| "models_of elem _ = None"

definition ProbeOllama :: "(string \<Rightarrow> http_get) \<Rightarrow> string \<Rightarrow> OllamaState" where
  "ProbeOllama get baseURL =
     (case Option.bind (getJSON get (baseURL @ ''/api/version'')) version_of of
        None \<Rightarrow> \<lparr>os_OK = False, os_Version = [], os_Models = [], os_Loaded = []\<rparr>
      | Some ver \<Rightarrow>
          \<lparr>os_OK = True, os_Version = ver,
           os_Models = (case Option.bind (getJSON get (baseURL @ ''/api/tags'')) (models_of tag_of) of
                          Some ms \<Rightarrow> ms | None \<Rightarrow> []),
           os_Loaded = (case Option.bind (getJSON get (baseURL @ ''/api/ps'')) (models_of loaded_of) of
                          Some ls \<Rightarrow> ls | None \<Rightarrow> [])\<rparr>)"

text \<open>Ollama's own answers.\<close>

definition tag_json :: "Model \<Rightarrow> json" where
  "tag_json m = JObj
     [(''name'', JStr (model_Name m)), (''model'', JStr (model_Name m)), (''size'', JNum (dec_digits (unat (model_Size m)))),
      (''details'', JObj [(''family'', JStr (model_Family m)), (''parameter_size'', JStr (model_Parameters m)),
         (''quantization_level'', JStr (model_Quant m))])]"

definition models_json :: "json list \<Rightarrow> json" where
  "models_json js = JObj [(''models'', JArr js)]"

lemma plain_tag_json: "plain_json (tag_json m)"
  unfolding tag_json_def by (auto intro!: plain_json.intros)

lemma plain_models_json: "(\<And>j. j \<in> set js \<Longrightarrow> plain_json j) \<Longrightarrow> plain_json (models_json js)"
  unfolding models_json_def by (auto intro!: plain_json.intros)

lemmas field_defs = string_field_def uint_field_def object_field_def list_field_def field_values_def
  fold_name_def to_lower_def Let_def

lemma tag_of_json: "tag_of (tag_json m) = Some m"
proof -
  have "ParseUint (dec_digits (unat (model_Size m))) = (model_Size m, True)"
    using ParseUint_dec_digits [of "unat (model_Size m)"] by simp
  then show ?thesis by (simp add: tag_json_def field_defs assign_object_def)
qed

lemma those_map_Some: "(\<And>x. x \<in> set xs \<Longrightarrow> f (g x) = Some x) \<Longrightarrow> those (map f (map g xs)) = Some xs"
  by (induction xs) auto

lemma models_of_json:
  "(\<And>x. x \<in> set xs \<Longrightarrow> elem (g x) = Some x) \<Longrightarrow> models_of elem (models_json (map g xs)) = Some xs"
  using those_map_Some [of xs elem g] by (simp add: models_json_def field_defs assign_list_def comp_def)

lemma getJSON_answer:
  "plain_json j \<Longrightarrow> get url = GetStatus 200 (encode_json j @ r) \<Longrightarrow> delimited r \<Longrightarrow> getJSON get url = Some j"
  by (simp add: getJSON_def Decode_encode)

lemma ProbeOllama_answers:
  assumes "get (baseURL @ ''/api/version'') = GetStatus 200 (encode_json (JObj [(''version'', JStr v)]))"
    and "get (baseURL @ ''/api/tags'') = GetStatus 200 (encode_json (models_json (map tag_json ms)))"
    and "get (baseURL @ ''/api/ps'') = GetStatus 200 (encode_json (models_json (map (\<lambda>l. JObj [(''name'', JStr l)]) ls)))"
    and "get' (baseURL @ ''/api/version'') = GetFailed"
    and "get'' = get(baseURL @ ''/api/tags'' := GetFailed)"
  shows "ProbeOllama get baseURL = \<lparr>os_OK = True, os_Version = v, os_Models = ms, os_Loaded = ls\<rparr> \<and>
    ProbeOllama get' baseURL = \<lparr>os_OK = False, os_Version = [], os_Models = [], os_Loaded = []\<rparr> \<and>
    ProbeOllama get'' baseURL = \<lparr>os_OK = True, os_Version = v, os_Models = [], os_Loaded = ls\<rparr>"
proof -
  have "plain_json (JObj [(''version'', JStr v)])" by (auto intro!: plain_json.intros)
  then have ver: "getJSON g (baseURL @ ''/api/version'') = Some (JObj [(''version'', JStr v)])"
    if "g (baseURL @ ''/api/version'') = get (baseURL @ ''/api/version'')" for g
    using that assms(1) getJSON_answer [of "JObj [(''version'', JStr v)]" g _ "[]"] by simp
  have tags: "getJSON get (baseURL @ ''/api/tags'') = Some (models_json (map tag_json ms))"
    using assms(2) plain_tag_json
    by (intro getJSON_answer [where r = "[]"] plain_models_json) auto
  have ps: "getJSON g (baseURL @ ''/api/ps'') = Some (models_json (map (\<lambda>l. JObj [(''name'', JStr l)]) ls))"
    if "g (baseURL @ ''/api/ps'') = get (baseURL @ ''/api/ps'')" for g
    using that assms(3)
    by (intro getJSON_answer [where r = "[]"] plain_models_json) (auto intro!: plain_json.intros)
  have loaded: "models_of loaded_of (models_json (map (\<lambda>l. JObj [(''name'', JStr l)]) ls)) = Some ls"
    by (rule models_of_json) (simp add: field_defs)
  have "version_of (JObj [(''version'', JStr v)]) = Some v" by (simp add: field_defs)
  moreover have "getJSON get'' (baseURL @ ''/api/tags'') = None" by (simp add: assms(5) getJSON_def)
  moreover have "getJSON get' (baseURL @ ''/api/version'') = None" by (simp add: assms(4) getJSON_def)
  ultimately show ?thesis
    using ver [of get] ver [of get''] ps [of get] ps [of get''] tags
    by (simp add: ProbeOllama_def models_of_json tag_of_json loaded assms(5))
qed

text \<open>
  The node advertises what its Ollama says: from Ollama's answers the version, all models with
  their sizes and details, and the loaded ones are read exactly; when the version cannot be read,
  nothing is advertised; when only a listing cannot, it is empty and the node still counts as up.
\<close>

theorem ProbeOllama_roundtrip:
  assumes "get (baseURL @ ''/api/version'') = GetStatus 200 (encode_json (JObj [(''version'', JStr v)]))"
    and "get (baseURL @ ''/api/tags'') = GetStatus 200 (encode_json (models_json (map tag_json ms)))"
    and "get (baseURL @ ''/api/ps'') = GetStatus 200 (encode_json (models_json (map (\<lambda>l. JObj [(''name'', JStr l)]) ls)))"
    and "get' (baseURL @ ''/api/version'') = GetFailed"
    and "get'' = get(baseURL @ ''/api/tags'' := GetFailed)"
  shows "ProbeOllama get baseURL = \<lparr>os_OK = True, os_Version = v, os_Models = ms, os_Loaded = ls\<rparr> \<and>
    ProbeOllama get' baseURL = \<lparr>os_OK = False, os_Version = [], os_Models = [], os_Loaded = []\<rparr> \<and>
    ProbeOllama get'' baseURL = \<lparr>os_OK = True, os_Version = v, os_Models = [], os_Loaded = ls\<rparr>"
  by (rule ProbeOllama_answers [where get = get and get' = get' and get'' = get'' and baseURL = baseURL, OF assms])

definition example_ollama :: "string \<Rightarrow> http_get" where
  "example_ollama url =
     (if url = ''u/api/version'' then GetStatus 200 (encode_json (JObj [(''version'', JStr ''0.5.1'')]))
      else if url = ''u/api/tags'' then GetStatus 200 (encode_json (models_json (map tag_json
        [\<lparr>model_Name = ''m'', model_Size = 7, model_Family = ''llama'', model_Parameters = ''1B'', model_Quant = ''Q4''\<rparr>])))
      else GetStatus 200 (encode_json (models_json (map (\<lambda>l. JObj [(''name'', JStr l)]) [''m'']))))"

theorem ProbeOllama_roundtrip_witness:
  "os_Loaded (ProbeOllama example_ollama ''u'') = [''m'']"
proof -
  have "ProbeOllama example_ollama ''u'' = \<lparr>os_OK = True, os_Version = ''0.5.1'', os_Models =
      [\<lparr>model_Name = ''m'', model_Size = 7, model_Family = ''llama'', model_Parameters = ''1B'', model_Quant = ''Q4''\<rparr>],
      os_Loaded = [''m'']\<rparr>"
    by (rule conjunct1 [OF ProbeOllama_roundtrip [where get' = "\<lambda>u. GetFailed"]])
      (simp_all add: example_ollama_def del: encode_json.simps)
  then show ?thesis by simp
qed

end
