(* ===== verification/StateJSON.thy ===== *)
theory StateJSON
  imports Resources "HOL-Library.Monad_Syntax"
begin

text \<open>
  The JSON form of a node's state: the struct tags of \<^verbatim>\<open>internal/registry/registry.go\<close> and
  \<^verbatim>\<open>internal/split/split.go\<close>, as \<^verbatim>\<open>encoding/json\<close> applies them when a node serves its state and
  when a peer reads it.  An empty slice is written as \<^verbatim>\<open>null\<close> (the slices here are nil when empty)
  or left out.  How an instant is written is a parameter: \<open>tt\<close> writes it, \<open>pt\<close> reads it back.
\<close>

section \<open>Fields\<close>

text \<open>\<^verbatim>\<open>strconv.ParseInt\<close> on the text of a JSON number.\<close>

definition parse_int :: "string \<Rightarrow> int option" where
  "parse_int t =
     (let negative = HasPrefix t ''-''; ds = TrimPrefix t ''-''
      in if ds = [] \<or> \<not> list_all is_digit ds then None
         else if negative then (if dec_value ds \<le> 2 ^ 63 then Some (- int (dec_value ds)) else None)
         else (if dec_value ds < 2 ^ 63 then Some (int (dec_value ds)) else None))"

fun assign_int :: "int option \<Rightarrow> json \<Rightarrow> int option" where
  "assign_int None v = None"
| "assign_int (Some n) (JNum t) = parse_int t"
| "assign_int (Some n) JNull = Some n"
| "assign_int (Some n) _ = None"

definition int_field :: "string \<Rightarrow> (string \<times> json) list \<Rightarrow> int option" where
  "int_field name ms = foldl assign_int (Some 0) (field_values name ms)"

fun assign_bool :: "bool option \<Rightarrow> json \<Rightarrow> bool option" where
  "assign_bool None v = None"
| "assign_bool (Some b) (JBool c) = Some c"
| "assign_bool (Some b) JNull = Some b"
| "assign_bool (Some b) _ = None"

definition bool_field :: "string \<Rightarrow> (string \<times> json) list \<Rightarrow> bool option" where
  "bool_field name ms = foldl assign_bool (Some False) (field_values name ms)"

text \<open>The zero time of Go, the start of year 1.\<close>

definition zero_time :: instant where "zero_time = - 62135596800 * second"

definition assign_time :: "(string \<Rightarrow> instant option) \<Rightarrow> instant option \<Rightarrow> json \<Rightarrow> instant option" where
  "assign_time pt acc v =
     (case (acc, v) of
        (Some t, JStr s) \<Rightarrow> pt s
      | (Some t, JNull) \<Rightarrow> Some t
      | _ \<Rightarrow> None)"

definition time_field :: "(string \<Rightarrow> instant option) \<Rightarrow> string \<Rightarrow> (string \<times> json) list \<Rightarrow> instant option" where
  "time_field pt name ms = foldl (assign_time pt) (Some zero_time) (field_values name ms)"

section \<open>Writing\<close>

definition opt_str :: "string \<Rightarrow> string \<Rightarrow> (string \<times> json) list" where
  "opt_str k v = (if v = [] then [] else [(k, JStr v)])"

definition opt_list :: "string \<Rightarrow> json list \<Rightarrow> (string \<times> json) list" where
  "opt_list k vs = (if vs = [] then [] else [(k, JArr vs)])"

definition slice_json :: "json list \<Rightarrow> json" where
  "slice_json vs = (if vs = [] then JNull else JArr vs)"

definition uint_json :: "u64 \<Rightarrow> json" where "uint_json n = JNum (dec_digits (unat n))"

definition int_json :: "int \<Rightarrow> json" where "int_json i = JNum (Itoa i)"

definition gpu_json :: "GPU \<Rightarrow> json" where
  "gpu_json g = JObj
     [(''name'', JStr (gpu_Name g)), (''kind'', JStr (gpu_Kind g)), (''mem_total'', uint_json (gpu_MemTotal g)),
      (''mem_free'', uint_json (gpu_MemFree g))]"

definition resources_json :: "Resources \<Rightarrow> json" where
  "resources_json r = JObj
     ([(''hostname'', JStr (res_Hostname r)), (''os'', JStr (res_OS r)), (''arch'', JStr (res_Arch r)),
       (''cpu_model'', JStr (res_CPUModel r)), (''num_cpu'', int_json (res_NumCPU r)),
       (''mem_total'', uint_json (res_MemTotal r)), (''mem_available'', uint_json (res_MemAvailable r))]
      @ opt_list ''gpus'' (map gpu_json (res_GPUs r)))"

definition model_members :: "Model \<Rightarrow> (string \<times> json) list" where
  "model_members m =
     [(''name'', JStr (model_Name m)), (''size'', uint_json (model_Size m))] @ opt_str ''family'' (model_Family m)
      @ opt_str ''parameters'' (model_Parameters m) @ opt_str ''quant'' (model_Quant m)"

definition model_json :: "Model \<Rightarrow> json" where
  "model_json m = JObj (model_members m)"

fun state_text :: "PipelineState \<Rightarrow> string" where
  "state_text StateLoading = ''loading''"
| "state_text StateReady = ''ready''"
| "state_text StateError = ''error''"
| "state_text (StateOther s) = s"

definition pipeline_json :: "(instant \<Rightarrow> string) \<Rightarrow> PipelineInfo \<Rightarrow> json" where
  "pipeline_json tt p = JObj
     ([(''model'', JStr (pi_Model p)), (''state'', JStr (state_text (pi_State p))),
       (''workers'', slice_json (map JStr (pi_Workers p))), (''started_at'', JStr (tt (pi_StartedAt p))),
       (''last_used'', JStr (tt (pi_LastUsed p)))] @ opt_str ''error'' (pi_Error p))"

definition split_json :: "(instant \<Rightarrow> string) \<Rightarrow> SplitState \<Rightarrow> json" where
  "split_json tt s = JObj
     ([(''worker'', JBool (ss_Worker s)), (''driver'', JBool (ss_Driver s)), (''rpc_port'', int_json (ss_RPCPort s)),
       (''rpc_running'', JBool (ss_RPCRunning s))] @ opt_list ''pipelines'' (map (pipeline_json tt) (ss_Pipelines s)))"

definition node_json :: "(instant \<Rightarrow> string) \<Rightarrow> NodeState \<Rightarrow> json" where
  "node_json tt n = JObj
     ([(''id'', JStr (ns_ID n)), (''name'', JStr (ns_Name n)), (''version'', JStr (ns_Version n)),
       (''pool'', JStr (ns_Pool n)), (''addr'', JStr (ns_Addr n)), (''sharing'', JBool (ns_Sharing n)),
       (''resources'', resources_json (ns_Resources n)), (''ollama_ok'', JBool (ns_OllamaOK n))]
      @ opt_str ''ollama_version'' (ns_OllamaVersion n) @
      [(''models'', slice_json (map model_json (ns_Models n))), (''loaded'', slice_json (map JStr (ns_Loaded n))),
       (''active'', int_json (ns_Active n)), (''total_served'', uint_json (ns_TotalServed n)),
       (''split'', split_json tt (ns_Split n)), (''updated_at'', JStr (tt (ns_UpdatedAt n))), (''self'', JBool (ns_Self n))])"

section \<open>Reading\<close>

text \<open>A \<^verbatim>\<open>null\<close> element leaves the zero value, as an object without members does.\<close>

definition struct_of :: "((string \<times> json) list \<Rightarrow> 'a option) \<Rightarrow> json \<Rightarrow> 'a option" where
  "struct_of f v = (case v of JObj ms \<Rightarrow> f ms | JNull \<Rightarrow> f [] | _ \<Rightarrow> None)"

definition read_gpu :: "(string \<times> json) list \<Rightarrow> GPU option" where
  "read_gpu ms = do {
     name \<leftarrow> string_field ''name'' ms; kind \<leftarrow> string_field ''kind'' ms;
     tot \<leftarrow> uint_field ''mem_total'' ms; free \<leftarrow> uint_field ''mem_free'' ms;
     Some \<lparr>gpu_Name = name, gpu_Kind = kind, gpu_MemTotal = tot, gpu_MemFree = free\<rparr> }"

definition read_resources :: "(string \<times> json) list \<Rightarrow> Resources option" where
  "read_resources ms = do {
     host \<leftarrow> string_field ''hostname'' ms; os \<leftarrow> string_field ''os'' ms; arch \<leftarrow> string_field ''arch'' ms;
     cpu \<leftarrow> string_field ''cpu_model'' ms; ncpu \<leftarrow> int_field ''num_cpu'' ms;
     tot \<leftarrow> uint_field ''mem_total'' ms; avail \<leftarrow> uint_field ''mem_available'' ms;
     gpus \<leftarrow> list_field (struct_of read_gpu) ''gpus'' ms;
     Some \<lparr>res_Hostname = host, res_OS = os, res_Arch = arch, res_CPUModel = cpu, res_NumCPU = ncpu,
       res_MemTotal = tot, res_MemAvailable = avail, res_GPUs = gpus\<rparr> }"

definition read_model :: "(string \<times> json) list \<Rightarrow> Model option" where
  "read_model ms = do {
     name \<leftarrow> string_field ''name'' ms; sz \<leftarrow> uint_field ''size'' ms; family \<leftarrow> string_field ''family'' ms;
     params \<leftarrow> string_field ''parameters'' ms; quant \<leftarrow> string_field ''quant'' ms;
     Some \<lparr>model_Name = name, model_Size = sz, model_Family = family, model_Parameters = params, model_Quant = quant\<rparr> }"

definition text_state :: "string \<Rightarrow> PipelineState" where
  "text_state s =
     (if s = ''loading'' then StateLoading else if s = ''ready'' then StateReady
      else if s = ''error'' then StateError else StateOther s)"

definition read_pipeline :: "(string \<Rightarrow> instant option) \<Rightarrow> (string \<times> json) list \<Rightarrow> PipelineInfo option" where
  "read_pipeline pt ms = do {
     model \<leftarrow> string_field ''model'' ms; st \<leftarrow> string_field ''state'' ms; workers \<leftarrow> strings_field ''workers'' ms;
     started \<leftarrow> time_field pt ''started_at'' ms; used \<leftarrow> time_field pt ''last_used'' ms; err \<leftarrow> string_field ''error'' ms;
     Some \<lparr>pi_Model = model, pi_State = text_state st, pi_Workers = workers, pi_StartedAt = started,
       pi_LastUsed = used, pi_Error = err\<rparr> }"

definition read_split :: "(string \<Rightarrow> instant option) \<Rightarrow> (string \<times> json) list \<Rightarrow> SplitState option" where
  "read_split pt ms = do {
     worker \<leftarrow> bool_field ''worker'' ms; driver \<leftarrow> bool_field ''driver'' ms; port \<leftarrow> int_field ''rpc_port'' ms;
     running \<leftarrow> bool_field ''rpc_running'' ms;
     ps \<leftarrow> list_field (struct_of (read_pipeline pt)) ''pipelines'' ms;
     Some \<lparr>ss_Worker = worker, ss_Driver = driver, ss_RPCPort = port, ss_RPCRunning = running, ss_Pipelines = ps\<rparr> }"

definition read_node :: "(string \<Rightarrow> instant option) \<Rightarrow> (string \<times> json) list \<Rightarrow> NodeState option" where
  "read_node pt ms = do {
     k \<leftarrow> string_field ''id'' ms; name \<leftarrow> string_field ''name'' ms; version \<leftarrow> string_field ''version'' ms;
     pool \<leftarrow> string_field ''pool'' ms; addr \<leftarrow> string_field ''addr'' ms; sharing \<leftarrow> bool_field ''sharing'' ms;
     rms \<leftarrow> object_field ''resources'' ms; res \<leftarrow> read_resources rms;
     ok \<leftarrow> bool_field ''ollama_ok'' ms; over \<leftarrow> string_field ''ollama_version'' ms;
     models \<leftarrow> list_field (struct_of read_model) ''models'' ms; loaded \<leftarrow> strings_field ''loaded'' ms;
     active \<leftarrow> int_field ''active'' ms; served \<leftarrow> uint_field ''total_served'' ms;
     sms \<leftarrow> object_field ''split'' ms; split \<leftarrow> read_split pt sms;
     updated \<leftarrow> time_field pt ''updated_at'' ms; self \<leftarrow> bool_field ''self'' ms;
     Some \<lparr>ns_ID = k, ns_Name = name, ns_Version = version, ns_Pool = pool, ns_Addr = addr, ns_Sharing = sharing,
       ns_Resources = res, ns_OllamaOK = ok, ns_OllamaVersion = over, ns_Models = models, ns_Loaded = loaded,
       ns_Active = active, ns_TotalServed = served, ns_Split = split, ns_UpdatedAt = updated, ns_Self = self\<rparr> }"

definition decode_node :: "(string \<Rightarrow> instant option) \<Rightarrow> string \<Rightarrow> NodeState option" where
  "decode_node pt body = Option.bind (Decode body) (struct_of (read_node pt))"

section \<open>The state survives the wire\<close>

text \<open>The field names are their own lower-case forms, so looking one up compares names.\<close>

lemma fold_keys [simp]:
  "fold_name ''name'' = ''name''"
  "fold_name ''kind'' = ''kind''"
  "fold_name ''mem_total'' = ''mem_total''"
  "fold_name ''mem_free'' = ''mem_free''"
  "fold_name ''hostname'' = ''hostname''"
  "fold_name ''os'' = ''os''"
  "fold_name ''arch'' = ''arch''"
  "fold_name ''cpu_model'' = ''cpu_model''"
  "fold_name ''num_cpu'' = ''num_cpu''"
  "fold_name ''mem_available'' = ''mem_available''"
  "fold_name ''gpus'' = ''gpus''"
  "fold_name ''size'' = ''size''"
  "fold_name ''family'' = ''family''"
  "fold_name ''parameters'' = ''parameters''"
  "fold_name ''quant'' = ''quant''"
  "fold_name ''model'' = ''model''"
  "fold_name ''state'' = ''state''"
  "fold_name ''workers'' = ''workers''"
  "fold_name ''started_at'' = ''started_at''"
  "fold_name ''last_used'' = ''last_used''"
  "fold_name ''error'' = ''error''"
  "fold_name ''worker'' = ''worker''"
  "fold_name ''driver'' = ''driver''"
  "fold_name ''rpc_port'' = ''rpc_port''"
  "fold_name ''rpc_running'' = ''rpc_running''"
  "fold_name ''pipelines'' = ''pipelines''"
  "fold_name ''id'' = ''id''"
  "fold_name ''version'' = ''version''"
  "fold_name ''pool'' = ''pool''"
  "fold_name ''addr'' = ''addr''"
  "fold_name ''sharing'' = ''sharing''"
  "fold_name ''resources'' = ''resources''"
  "fold_name ''ollama_ok'' = ''ollama_ok''"
  "fold_name ''ollama_version'' = ''ollama_version''"
  "fold_name ''models'' = ''models''"
  "fold_name ''loaded'' = ''loaded''"
  "fold_name ''active'' = ''active''"
  "fold_name ''total_served'' = ''total_served''"
  "fold_name ''split'' = ''split''"
  "fold_name ''updated_at'' = ''updated_at''"
  "fold_name ''self'' = ''self''"
  by (simp_all add: fold_name_def to_lower_def)

lemma field_values_Nil [simp]: "field_values name [] = []"
  by (simp add: field_values_def)

lemma field_values_Cons [simp]:
  "field_values name ((k, v) # ms) =
     (if fold_name k = fold_name name then v # field_values name ms else field_values name ms)"
  by (simp add: field_values_def)

lemma field_values_append [simp]: "field_values name (ms @ ns) = field_values name ms @ field_values name ns"
  by (simp add: field_values_def)

lemma field_values_opt [simp]:
  "field_values name (opt_str k v) = (if v \<noteq> [] \<and> fold_name k = fold_name name then [JStr v] else [])"
  "field_values name (opt_list k vs) = (if vs \<noteq> [] \<and> fold_name k = fold_name name then [JArr vs] else [])"
  by (simp_all add: opt_str_def opt_list_def)

lemmas read_fields = string_field_def strings_field_def uint_field_def int_field_def bool_field_def
  time_field_def object_field_def list_field_def

lemma assign_uint_json [simp]: "assign_uint (Some n) (uint_json m) = Some m"
  using ParseUint_dec_digits [of "unat m"] by (simp add: uint_json_def)

lemma parse_int_Itoa: "0 \<le> i \<Longrightarrow> i < 2 ^ 63 \<Longrightarrow> parse_int (Itoa i) = Some i"
proof -
  assume i: "0 \<le> i" "i < 2 ^ 63"
  obtain d ds where d: "dec_digits (nat i) = d # ds" "is_digit d" using dec_digits_first by blast
  then have "\<not> HasPrefix (dec_digits (nat i)) ''-''" by (auto simp: HasPrefix_def is_digit_def)
  moreover have "list_all is_digit (dec_digits (nat i))" using dec_digits_all by (simp add: list_all_iff)
  moreover have "nat i < 2 ^ 63" using i by (simp add: nat_less_iff)
  ultimately show ?thesis
    using i by (simp add: parse_int_def Itoa_def TrimPrefix_def dec_value_dec_digits Let_def)
qed

lemma assign_int_json [simp]: "0 \<le> i \<Longrightarrow> i < 2 ^ 63 \<Longrightarrow> assign_int (Some n) (int_json i) = Some i"
  by (simp add: int_json_def parse_int_Itoa)

lemma assign_list_map:
  "(\<And>x. x \<in> set xs \<Longrightarrow> elem (g x) = Some x) \<Longrightarrow> assign_list elem (Some old) (JArr (map g xs)) = Some xs"
  using those_map_Some [of xs elem g] by (simp add: assign_list_def)

lemma assign_list_slice:
  "(\<And>x. x \<in> set xs \<Longrightarrow> elem (g x) = Some x) \<Longrightarrow> assign_list elem (Some []) (slice_json (map g xs)) = Some xs"
  using assign_list_map [of xs elem g "[]"] by (cases "xs = []") (simp_all add: slice_json_def assign_list_def)

lemma assign_strings_slice [simp]: "assign_strings (Some []) (slice_json (map JStr ss)) = Some ss"
  using those_strings [of ss] by (cases "ss = []") (simp_all add: slice_json_def assign_strings_def comp_def)

lemma struct_of_obj [simp]: "struct_of f (JObj ms) = f ms"
  by (simp add: struct_of_def)

lemma read_gpu_json: "struct_of read_gpu (gpu_json g) = Some g"
  by (simp add: gpu_json_def read_gpu_def read_fields)

lemma read_model_json: "struct_of read_model (model_json m) = Some m"
  by (simp add: model_json_def model_members_def read_model_def read_fields)

definition resources_ok :: "Resources \<Rightarrow> bool" where
  "resources_ok r \<longleftrightarrow> 0 \<le> res_NumCPU r \<and> res_NumCPU r < 2 ^ 63"

lemma read_resources_json:
  assumes "resources_ok r"
  shows "struct_of read_resources (resources_json r) = Some r"
proof -
  have "assign_list (struct_of read_gpu) (Some []) (JArr (map gpu_json gs)) = Some gs" for gs
    by (rule assign_list_map) (rule read_gpu_json)
  with assms show ?thesis
    by (cases "res_GPUs r = []") (simp_all add: resources_json_def read_resources_def read_fields resources_ok_def)
qed

text \<open>A state other than the three named ones is none of their texts.\<close>

definition pipeline_ok :: "PipelineInfo \<Rightarrow> bool" where
  "pipeline_ok p \<longleftrightarrow> text_state (state_text (pi_State p)) = pi_State p"

lemma pipeline_ok_named: "pi_State p \<in> {StateLoading, StateReady, StateError} \<Longrightarrow> pipeline_ok p"
  by (auto simp: pipeline_ok_def text_state_def)

lemma read_pipeline_json:
  assumes "pipeline_ok p" and "\<And>t. pt (tt t) = Some t"
  shows "struct_of (read_pipeline pt) (pipeline_json tt p) = Some p"
  using assms by (simp add: pipeline_json_def read_pipeline_def read_fields assign_time_def pipeline_ok_def)

definition split_ok :: "SplitState \<Rightarrow> bool" where
  "split_ok s \<longleftrightarrow> 0 \<le> ss_RPCPort s \<and> ss_RPCPort s < 2 ^ 63 \<and> (\<forall>p \<in> set (ss_Pipelines s). pipeline_ok p)"

lemma read_split_json:
  assumes "split_ok s" and "\<And>t. pt (tt t) = Some t"
  shows "struct_of (read_split pt) (split_json tt s) = Some s"
proof -
  have "assign_list (struct_of (read_pipeline pt)) (Some []) (JArr (map (pipeline_json tt) (ss_Pipelines s)))
      = Some (ss_Pipelines s)"
    using assms by (intro assign_list_map read_pipeline_json) (auto simp: split_ok_def)
  with assms(1) show ?thesis
    by (cases "ss_Pipelines s = []") (simp_all add: split_json_def read_split_def read_fields split_ok_def)
qed

definition node_ok :: "NodeState \<Rightarrow> bool" where
  "node_ok n \<longleftrightarrow> resources_ok (ns_Resources n) \<and> split_ok (ns_Split n) \<and> 0 \<le> ns_Active n \<and> ns_Active n < 2 ^ 63"

lemma object_json:
  "resources_json r = JObj ms \<Longrightarrow> resources_ok r \<Longrightarrow> read_resources ms = Some r"
  "split_json tt s = JObj ns \<Longrightarrow> split_ok s \<Longrightarrow> (\<And>t. pt (tt t) = Some t) \<Longrightarrow> read_split pt ns = Some s"
  using read_resources_json [of r] read_split_json [of s pt tt] by simp_all

lemma read_node_json:
  assumes "node_ok n" and "\<And>t. pt (tt t) = Some t"
  shows "struct_of (read_node pt) (node_json tt n) = Some n"
proof -
  obtain rms where r: "resources_json (ns_Resources n) = JObj rms" by (simp add: resources_json_def)
  obtain sms where s: "split_json tt (ns_Split n) = JObj sms" by (simp add: split_json_def)
  have "assign_list (struct_of read_model) (Some []) (slice_json (map model_json (ns_Models n))) = Some (ns_Models n)"
    by (rule assign_list_slice) (rule read_model_json)
  moreover have "read_resources rms = Some (ns_Resources n)" "read_split pt sms = Some (ns_Split n)"
    using object_json r s assms by (auto simp: node_ok_def)
  ultimately show ?thesis
    using assms unfolding node_json_def r s
    by (simp add: read_node_def read_fields assign_object_def assign_time_def node_ok_def)
qed

lemma plain_slice: "(\<And>j. j \<in> set js \<Longrightarrow> plain_json j) \<Longrightarrow> plain_json (slice_json js)"
  by (auto simp: slice_json_def intro: plain_json.intros)

lemma plain_uint [simp]: "plain_json (uint_json n)"
  by (auto simp: uint_json_def intro: plain_json.intros)

lemma plain_int [simp]: "0 \<le> i \<Longrightarrow> plain_json (int_json i)"
  by (auto simp: int_json_def Itoa_def intro: plain_json.intros)

lemma plain_obj:
  "(\<And>m. m \<in> set ms \<Longrightarrow> plain_json (snd m)) \<Longrightarrow> plain_json (JObj ms)"
  by (rule plain_json.intros(6)) fastforce

lemma plain_basic [simp]: "plain_json (JStr s)" "plain_json (JBool b)"
  by (rule plain_json.intros)+

lemma plain_opt_str [simp]: "(a, b) \<in> set (opt_str k v) \<Longrightarrow> plain_json b"
  by (auto simp: opt_str_def split: if_splits)

lemma plain_opt_list:
  "(\<And>x. x \<in> set xs \<Longrightarrow> plain_json (g x)) \<Longrightarrow> (a, b) \<in> set (opt_list k (map g xs)) \<Longrightarrow> plain_json b"
  by (auto simp: opt_list_def intro!: plain_json.intros split: if_splits)

lemma plain_strings [simp]: "plain_json (slice_json (map JStr ss))"
  by (rule plain_slice) auto

lemma plain_gpu: "plain_json (gpu_json g)"
  unfolding gpu_json_def by (rule plain_obj) auto

lemma plain_resources: "resources_ok r \<Longrightarrow> plain_json (resources_json r)"
  unfolding resources_json_def by (rule plain_obj) (auto simp: resources_ok_def intro: plain_opt_list [OF plain_gpu])

lemma plain_members: "m \<in> set (model_members x) \<Longrightarrow> plain_json (snd m)"
  by (cases m) (auto simp: model_members_def)

lemma plain_model: "plain_json (model_json m)"
  unfolding model_json_def by (rule plain_obj) (rule plain_members)

lemma plain_pipeline: "plain_json (pipeline_json tt p)"
  unfolding pipeline_json_def by (rule plain_obj) auto

lemma plain_split: "split_ok s \<Longrightarrow> plain_json (split_json tt s)"
  unfolding split_json_def by (rule plain_obj) (auto simp: split_ok_def intro: plain_opt_list [OF plain_pipeline])

lemma plain_node: "node_ok n \<Longrightarrow> plain_json (node_json tt n)"
  unfolding node_json_def
  by (rule plain_obj) (auto simp: node_ok_def plain_resources plain_split plain_model intro!: plain_slice)

text \<open>What a node's encoder writes, its line end included, a peer's decoder reads.\<close>

lemma decode_node_encode:
  assumes "node_ok n" and "\<And>t. pt (tt t) = Some t"
  shows "decode_node pt (encode_json (node_json tt n) @ [CHR 0x0A]) = Some n"
  using Decode_encode [OF plain_node [OF assms(1)], of "[CHR 0x0A]" tt] read_node_json [where tt = tt, OF assms]
  by (simp add: decode_node_def)

text \<open>A way to write instants, for the examples.\<close>

definition example_pt :: "string \<Rightarrow> instant option" where
  "example_pt s = Some (if HasPrefix s ''-'' then - int (dec_value (tl s)) else int (dec_value s))"

lemma example_pt_Itoa: "example_pt (Itoa t) = Some t"
proof (cases "t < 0")
  case True
  then show ?thesis by (simp add: example_pt_def Itoa_def HasPrefix_def dec_value_dec_digits)
next
  case False
  obtain d ds where "dec_digits (nat t) = d # ds" "is_digit d" using dec_digits_first by blast
  then have "\<not> HasPrefix (dec_digits (nat t)) ''-''" by (auto simp: HasPrefix_def is_digit_def)
  with False show ?thesis by (simp add: example_pt_def Itoa_def dec_value_dec_digits)
qed

end
