(* ===== verification/Pipeline.thy ===== *)
theory Pipeline
  imports Split
begin

text \<open>
  \<^verbatim>\<open>internal/split/pipeline.go\<close>: the manager that runs distributed pipelines on a driver.  First its
  operations, one definition for every section that holds the lock; then \<^verbatim>\<open>waitReady\<close>, \<^verbatim>\<open>freePort\<close>
  and \<^verbatim>\<open>Ensure\<close> composed of them, as one caller alone sees it.  The interleaving of callers, reapers
  and the collector is the subject of \<open>PipelineConc\<close>.  The listening test of a port, the start
  of a child and the answers of \<^verbatim>\<open>llama-server\<close> come from outside and are arguments.
\<close>

section \<open>The manager and its locked sections\<close>

definition IdleTimeout :: duration where "IdleTimeout = 10 * minute"

text \<open>The pointer comparison of the reaper is a comparison of processes: each pipeline has its own.\<close>

record pipeline =
  pl_info :: PipelineInfo
  pl_port :: int
  pl_cmd :: nat

record Manager =
  mg_bin :: string
  mg_basePort :: int
  mg_pipelines :: "string \<rightharpoonup> pipeline"

definition NewManager :: "string \<Rightarrow> int \<Rightarrow> Manager" where
  "NewManager bin basePort = \<lparr>mg_bin = bin, mg_basePort = basePort, mg_pipelines = Map.empty\<rparr>"

definition Available :: "Manager \<Rightarrow> bool" where
  "Available m \<longleftrightarrow> mg_bin m \<noteq> []"

definition Infos :: "Manager \<Rightarrow> string list \<Rightarrow> PipelineInfo list" where
  "Infos m order = map pl_info (map_values (mg_pipelines m) order)"

definition update_info :: "string \<Rightarrow> (PipelineInfo \<Rightarrow> PipelineInfo) \<Rightarrow> Manager \<Rightarrow> Manager" where
  "update_info model f m =
     (case mg_pipelines m model of
        None \<Rightarrow> m
      | Some p \<Rightarrow> m\<lparr>mg_pipelines := (mg_pipelines m)(model \<mapsto> p\<lparr>pl_info := f (pl_info p)\<rparr>)\<rparr>)"

definition TouchPipe :: "instant \<Rightarrow> string \<Rightarrow> Manager \<Rightarrow> Manager" where
  "TouchPipe now model m = update_info model (\<lambda>i. i\<lparr>pi_LastUsed := now\<rparr>) m"

definition Port :: "Manager \<Rightarrow> string \<Rightarrow> int option" where
  "Port m model =
     (case mg_pipelines m model of
        None \<Rightarrow> None
      | Some p \<Rightarrow> if pi_State (pl_info p) \<noteq> StateReady then None else Some (pl_port p))"

definition alive :: "Manager \<Rightarrow> string \<Rightarrow> bool" where
  "alive m model \<longleftrightarrow> mg_pipelines m model \<noteq> None"

definition setState :: "string \<Rightarrow> PipelineState \<Rightarrow> Manager \<Rightarrow> Manager" where
  "setState model s m = update_info model (\<lambda>i. i\<lparr>pi_State := s\<rparr>) m"

definition setError :: "string \<Rightarrow> string \<Rightarrow> Manager \<Rightarrow> Manager" where
  "setError model err m = update_info model (\<lambda>i. i\<lparr>pi_State := StateError, pi_Error := err\<rparr>) m"

text \<open>\<^verbatim>\<open>stop\<close> forgets the pipeline under the lock; the process it returns is killed after that.\<close>

definition stop_section :: "string \<Rightarrow> Manager \<Rightarrow> Manager \<times> nat option" where
  "stop_section model m =
     (m\<lparr>mg_pipelines := (mg_pipelines m)(model := None)\<rparr>, map_option pl_cmd (mg_pipelines m model))"

definition stop :: "string \<Rightarrow> Manager \<Rightarrow> Manager" where
  "stop model m = fst (stop_section model m)"

text \<open>The reaper of a pipeline, once its process has exited.\<close>

definition reap :: "nat \<Rightarrow> string \<Rightarrow> Manager \<Rightarrow> Manager" where
  "reap cmd model m =
     (case mg_pipelines m model of
        None \<Rightarrow> m
      | Some cur \<Rightarrow>
          if pl_cmd cur = cmd \<and> pi_State (pl_info cur) \<noteq> StateError
          then m\<lparr>mg_pipelines := (mg_pipelines m)(model := None)\<rparr> else m)"

text \<open>
  \<^verbatim>\<open>StopAll\<close> and a tick of the collector: a list of models taken under the lock, then a stop of each, with the
  processes that are killed.
\<close>

fun stop_each :: "string list \<Rightarrow> Manager \<Rightarrow> Manager \<times> nat list" where
  "stop_each [] m = (m, [])"
| "stop_each (model # models) m =
     (let (m1, victim) = stop_section model m; (m2, victims) = stop_each models m1
      in (m2, (case victim of None \<Rightarrow> victims | Some pid \<Rightarrow> pid # victims)))"

definition StopAll :: "string list \<Rightarrow> Manager \<Rightarrow> Manager \<times> nat list" where
  "StopAll order m = stop_each order m"

definition idle_models :: "instant \<Rightarrow> string list \<Rightarrow> Manager \<Rightarrow> string list" where
  "idle_models now order m =
     filter (\<lambda>model. case mg_pipelines m model of
         None \<Rightarrow> False
       | Some p \<Rightarrow> pi_State (pl_info p) = StateReady \<and> now - pi_LastUsed (pl_info p) > IdleTimeout) order"

definition gc_tick :: "instant \<Rightarrow> string list \<Rightarrow> Manager \<Rightarrow> Manager \<times> nat list" where
  "gc_tick now order m = stop_each (idle_models now order m) m"

section \<open>Choosing a port\<close>

datatype wait_error = Cancelled string | ExitedDuringLoad string | NotReady string

datatype ensure_error =
  NotInstalled
| NoFreePort int int
| StartFailed string
| WaitFailed wait_error

text \<open>\<open>free p\<close> tells whether listening on the port succeeds at that moment.\<close>

fun free_from :: "(int \<Rightarrow> bool) \<Rightarrow> int \<Rightarrow> nat \<Rightarrow> int option" where
  "free_from free p 0 = None"
| "free_from free p (Suc n) = (if free p then Some p else free_from free (p + 1) n)"

definition freePort :: "(int \<Rightarrow> bool) \<Rightarrow> int \<Rightarrow> ensure_error + int" where
  "freePort free base =
     (case free_from free base 100 of
        Some p \<Rightarrow> Inr p
      | None \<Rightarrow> Inl (NoFreePort base (base + 100)))"

lemma free_from_Some:
  "free_from free p n = Some q \<longleftrightarrow> p \<le> q \<and> q < p + int n \<and> free q \<and> (\<forall>r. p \<le> r \<and> r < q \<longrightarrow> \<not> free r)"
proof (induction n arbitrary: p)
  case (Suc n)
  show ?case
  proof (cases "free p")
    case True
    then show ?thesis by (auto simp: le_less)
  next
    case False
    have "(p \<le> q \<and> q < p + int (Suc n) \<and> free q \<and> (\<forall>r. p \<le> r \<and> r < q \<longrightarrow> \<not> free r)) \<longleftrightarrow>
        (p + 1 \<le> q \<and> q < p + 1 + int n \<and> free q \<and> (\<forall>r. p + 1 \<le> r \<and> r < q \<longrightarrow> \<not> free r))"
      using False by (smt (verit, ccfv_threshold) of_nat_Suc)
    with Suc.IH [of "p + 1"] False show ?thesis by simp
  qed
qed simp

lemma free_from_None: "free_from free p n = None \<longleftrightarrow> (\<forall>r. p \<le> r \<and> r < p + int n \<longrightarrow> \<not> free r)"
proof (induction n arbitrary: p)
  case (Suc n)
  have "(\<forall>r. p \<le> r \<and> r < p + int (Suc n) \<longrightarrow> \<not> free r) \<longleftrightarrow>
      \<not> free p \<and> (\<forall>r. p + 1 \<le> r \<and> r < p + 1 + int n \<longrightarrow> \<not> free r)"
    by (smt (verit, ccfv_threshold) of_nat_Suc of_nat_0_le_iff)
  with Suc.IH [of "p + 1"] show ?case by simp
qed auto

text \<open>
  The port is the first free one of the hundred from the base on, and the error means that
  none of these is free (its text announces one port more than the loop tries).
\<close>

theorem freePort_exact:
  "(freePort free base = Inr p \<longleftrightarrow>
      base \<le> p \<and> p < base + 100 \<and> free p \<and> (\<forall>r. base \<le> r \<and> r < p \<longrightarrow> \<not> free r)) \<and>
   (freePort free base = Inl (NoFreePort base (base + 100)) \<longleftrightarrow>
      (\<forall>r. base \<le> r \<and> r < base + 100 \<longrightarrow> \<not> free r))"
  using free_from_Some [of free base 100 p] free_from_None [of free base 100]
  by (auto simp: freePort_def split: option.splits)

theorem freePort_exact_witness:
  "freePort (\<lambda>p. 11502 \<le> p) 11500 = Inr 11502"
  using freePort_exact [of "\<lambda>p. 11502 \<le> p" 11500 11502] by simp

section \<open>Waiting for the model to load\<close>

text \<open>What one turn of the polling loop meets.\<close>

record poll =
  poll_now :: instant
  poll_ctx :: "string option"
  poll_alive :: bool
  poll_health :: "int option"
  poll_cancelled :: "string option"

fun wait_loop :: "nat \<Rightarrow> instant \<Rightarrow> string \<Rightarrow> (nat \<Rightarrow> poll) \<Rightarrow> nat \<Rightarrow> wait_error option option" where
  "wait_loop 0 deadline model env i = None"
| "wait_loop (Suc fuel) deadline model env i =
     (let q = env i in
      if \<not> poll_now q < deadline then Some (Some (NotReady model))
      else (case poll_ctx q of
              Some e \<Rightarrow> Some (Some (Cancelled e))
            | None \<Rightarrow>
                if \<not> poll_alive q then Some (Some (ExitedDuringLoad model))
                else if poll_health q = Some 200 then Some None
                else (case poll_cancelled q of
                        Some e \<Rightarrow> Some (Some (Cancelled e))
                      | None \<Rightarrow> wait_loop fuel deadline model env (Suc i))))"

definition waitReady :: "nat \<Rightarrow> instant \<Rightarrow> string \<Rightarrow> (nat \<Rightarrow> poll) \<Rightarrow> wait_error option option" where
  "waitReady fuel start model env = wait_loop fuel (start + 30 * minute) model env 0"

text \<open>A turn that goes on to the next one.\<close>

definition keeps_waiting :: "instant \<Rightarrow> poll \<Rightarrow> bool" where
  "keeps_waiting deadline q \<longleftrightarrow> poll_now q < deadline \<and> poll_ctx q = None \<and> poll_alive q \<and>
     poll_health q \<noteq> Some 200 \<and> poll_cancelled q = None"

lemma wait_loop_step:
  "keeps_waiting deadline (env i) \<Longrightarrow>
     wait_loop (Suc fuel) deadline model env i = wait_loop fuel deadline model env (Suc i)"
  by (simp add: keeps_waiting_def Let_def)

lemma wait_loop_stops:
  "\<not> keeps_waiting deadline (env i) \<Longrightarrow> \<exists>r. wait_loop (Suc fuel) deadline model env i = Some r"
  by (auto simp: keeps_waiting_def Let_def split: option.splits)

lemma wait_loop_ready:
  "wait_loop fuel deadline model env i = Some None \<longleftrightarrow>
     (\<exists>n < fuel. (\<forall>k < n. keeps_waiting deadline (env (i + k))) \<and>
        poll_now (env (i + n)) < deadline \<and> poll_ctx (env (i + n)) = None \<and>
        poll_alive (env (i + n)) \<and> poll_health (env (i + n)) = Some 200)"
proof (induction fuel arbitrary: i)
  case (Suc fuel)
  show ?case (is "_ \<longleftrightarrow> (\<exists>n < Suc fuel. ?P i n)")
  proof (cases "keeps_waiting deadline (env i)")
    case True
    then have no0: "\<not> ?P i 0" by (simp add: keeps_waiting_def)
    have shift: "?P i (Suc n) \<longleftrightarrow> ?P (Suc i) n" for n
      using True by (simp add: All_less_Suc2)
    have "(\<exists>n < Suc fuel. ?P i n) \<longleftrightarrow> (\<exists>n < fuel. ?P i (Suc n))"
      using no0 unfolding Ex_less_Suc2 by blast
    with shift wait_loop_step [where env = env and i = i, OF True, of fuel model] Suc.IH [of "Suc i"] show ?thesis by simp
  next
    case False
    have "(\<exists>n < Suc fuel. ?P i n) \<longleftrightarrow> ?P i 0"
    proof
      assume "\<exists>n < Suc fuel. ?P i n"
      then obtain n where "?P i n" by blast
      with False show "?P i 0" by (cases n) auto
    qed auto
    with False show ?thesis by (auto simp: keeps_waiting_def Let_def split: option.splits)
  qed
qed simp

lemma wait_loop_returns:
  assumes "\<And>k. poll_now (env k) \<ge> start + int k * second" and "deadline \<le> start + int (i + fuel) * second"
  shows "\<exists>r. wait_loop (Suc fuel) deadline model env i = Some r"
  using assms(2)
proof (induction fuel arbitrary: i)
  case 0
  with assms(1) [of i] have "\<not> keeps_waiting deadline (env i)" by (auto simp: keeps_waiting_def)
  then show ?case by (rule wait_loop_stops)
next
  case (Suc fuel)
  show ?case
  proof (cases "keeps_waiting deadline (env i)")
    case True
    with Suc.IH [of "Suc i"] Suc.prems show ?thesis by (simp only: wait_loop_step) simp
  qed (rule wait_loop_stops)
qed

text \<open>
  C34.  Waiting for a model ends: the loop sleeps a second between two polls, so it returns within
  1801 polls, whatever the answers are; and it reports the pipeline ready exactly when a poll
  before the deadline saw the health check succeed while the pipeline was registered, and no poll
  before it had a reason to stop.
\<close>

theorem waitReady_terminates:
  assumes "\<And>k. poll_now (env k) \<ge> start + int k * second"
  shows "\<exists>r. waitReady 1801 start model env = Some r \<and>
    (r = None \<longleftrightarrow> (\<exists>n < 1801. (\<forall>k < n. keeps_waiting (start + 30 * minute) (env k)) \<and>
        poll_now (env n) < start + 30 * minute \<and> poll_ctx (env n) = None \<and>
        poll_alive (env n) \<and> poll_health (env n) = Some 200))"
proof -
  from wait_loop_returns [of start env "start + 30 * minute" 0 1800 model] assms
  obtain r where "wait_loop (Suc 1800) (start + 30 * minute) model env 0 = Some r" by auto
  then have r: "wait_loop 1801 (start + 30 * minute) model env 0 = Some r" by simp
  then show ?thesis
    using wait_loop_ready [of 1801 "start + 30 * minute" model env 0] by (simp add: waitReady_def)
qed

theorem waitReady_terminates_witness:
  "\<exists>r. waitReady 1801 0 ''m'' (\<lambda>k. \<lparr>poll_now = int k * second, poll_ctx = None, poll_alive = True,
     poll_health = None, poll_cancelled = None\<rparr>) = Some r"
  using waitReady_terminates [of 0 "\<lambda>k. \<lparr>poll_now = int k * second, poll_ctx = None, poll_alive = True,
     poll_health = None, poll_cancelled = None\<rparr>" "''m''"] by auto

section \<open>Starting pipelines\<close>

record request =
  rq_model :: string
  rq_gguf :: string
  rq_workers :: "string list"
  rq_ctxSize :: int

definition server_args :: "request \<Rightarrow> int \<Rightarrow> string list" where
  "server_args rq port =
     [''-m'', rq_gguf rq, ''--host'', ''127.0.0.1'', ''--port'', Itoa port, ''--alias'', rq_model rq,
      ''-ngl'', ''999'', ''-c'', Itoa (rq_ctxSize rq), ''--no-webui''] @
     (if rq_workers rq \<noteq> [] then [''--rpc'', Join (rq_workers rq) '','']  else [])"

text \<open>
  What a locked section of \<^verbatim>\<open>Ensure\<close> meets: the time, the ports that are free, the start of a child
  (\<open>None\<close> when it starts) and the process it then is.
\<close>

record launch_env =
  le_now :: instant
  le_free :: "int \<Rightarrow> bool"
  le_start :: "string \<Rightarrow> string list \<Rightarrow> string option"
  le_pid :: nat

text \<open>
  How a locked section of \<^verbatim>\<open>Ensure\<close> leaves: with a result, waiting for a pipeline another caller is
  loading, after a failed attempt that must be stopped, or waiting for the pipeline it started.
\<close>

datatype ensure_out = Returned int "ensure_error option" | Joined int | Failed | Launched int

definition new_pipeline :: "launch_env \<Rightarrow> request \<Rightarrow> int \<Rightarrow> pipeline" where
  "new_pipeline env rq port =
     \<lparr>pl_info = \<lparr>pi_Model = rq_model rq, pi_State = StateLoading, pi_Workers = rq_workers rq,
        pi_StartedAt = le_now env, pi_LastUsed = le_now env, pi_Error = []\<rparr>,
      pl_port = port, pl_cmd = le_pid env\<rparr>"

definition launch :: "launch_env \<Rightarrow> request \<Rightarrow> Manager \<Rightarrow> Manager \<times> ensure_out" where
  "launch env rq m =
     (case freePort (le_free env) (mg_basePort m) of
        Inl e \<Rightarrow> (m, Returned 0 (Some e))
      | Inr port \<Rightarrow>
          (case le_start env (mg_bin m) (server_args rq port) of
             Some err \<Rightarrow> (m, Returned 0 (Some (StartFailed err)))
           | None \<Rightarrow>
               (m\<lparr>mg_pipelines := (mg_pipelines m)(rq_model rq \<mapsto> new_pipeline env rq port)\<rparr>,
                Launched port)))"

definition ensure_begin :: "launch_env \<Rightarrow> request \<Rightarrow> Manager \<Rightarrow> Manager \<times> ensure_out" where
  "ensure_begin env rq m =
     (if mg_bin m = [] then (m, Returned 0 (Some NotInstalled))
      else (case mg_pipelines m (rq_model rq) of
              None \<Rightarrow> launch env rq m
            | Some p \<Rightarrow>
                (TouchPipe (le_now env) (rq_model rq) m,
                 (case pi_State (pl_info p) of
                    StateReady \<Rightarrow> Returned (pl_port p) None
                  | StateLoading \<Rightarrow> Joined (pl_port p)
                  | _ \<Rightarrow> Failed))))"

definition wait_error_text :: "wait_error \<Rightarrow> string" where
  "wait_error_text e =
     (case e of
        Cancelled s \<Rightarrow> s
      | ExitedDuringLoad model \<Rightarrow> ''pipeline for '' @ Quote model @
          '' exited during load (likely out of memory or worker unreachable)''
      | NotReady model \<Rightarrow> ''pipeline for '' @ Quote model @ '' did not become ready'')"

text \<open>
  \<^verbatim>\<open>Ensure\<close> as a caller without interference runs it.  \<open>env\<close> is met by the first locked section and
  by a relaunch, \<open>wait port\<close> is the outcome of \<^verbatim>\<open>waitReady\<close> on that port.
\<close>

definition ensure_wait :: "string \<Rightarrow> (int \<Rightarrow> wait_error option) \<Rightarrow> int \<Rightarrow> Manager
    \<Rightarrow> Manager \<times> int \<times> ensure_error option" where
  "ensure_wait model wait port m =
     (case wait port of
        Some e \<Rightarrow> (stop model (setError model (wait_error_text e) m), 0, Some (WaitFailed e))
      | None \<Rightarrow> (setState model StateReady m, port, None))"

definition ensure_finish :: "string \<Rightarrow> (int \<Rightarrow> wait_error option) \<Rightarrow> Manager \<times> ensure_out
    \<Rightarrow> Manager \<times> int \<times> ensure_error option" where
  "ensure_finish model wait r =
     (case r of
        (m, Returned port e) \<Rightarrow> (m, port, e)
      | (m, Joined port) \<Rightarrow> (m, port, map_option WaitFailed (wait port))
      | (m, Launched port) \<Rightarrow> ensure_wait model wait port m
      | (m, Failed) \<Rightarrow> (m, 0, None))"

definition Ensure :: "launch_env \<Rightarrow> (int \<Rightarrow> wait_error option) \<Rightarrow> request \<Rightarrow> Manager
    \<Rightarrow> Manager \<times> int \<times> ensure_error option" where
  "Ensure env wait rq m =
     (case ensure_begin env rq m of
        (m', Failed) \<Rightarrow> ensure_finish (rq_model rq) wait (launch env rq (stop (rq_model rq) m'))
      | r \<Rightarrow> ensure_finish (rq_model rq) wait r)"

lemmas section_defs = TouchPipe_def setState_def setError_def update_info_def stop_section_def
  stop_def reap_def

lemma launch_not_failed: "snd (launch env rq m) \<noteq> Failed" "snd (launch env rq m) \<noteq> Joined port"
  by (auto simp: launch_def split: sum.splits option.splits)

lemma launch_Launched:
  "launch env rq m = (m', Launched port) \<longleftrightarrow>
     freePort (le_free env) (mg_basePort m) = Inr port \<and> le_start env (mg_bin m) (server_args rq port) = None \<and>
     m' = m\<lparr>mg_pipelines := (mg_pipelines m)(rq_model rq \<mapsto> new_pipeline env rq port)\<rparr>"
  by (auto simp: launch_def split: sum.splits option.splits)

lemma launch_Returned:
  "launch env rq m = (m', Returned port e) \<Longrightarrow> m' = m \<and> port = 0 \<and> e \<noteq> None"
  by (auto simp: launch_def split: sum.splits option.splits)

definition loading :: "Manager \<Rightarrow> string \<Rightarrow> bool" where
  "loading m model \<longleftrightarrow> (\<exists>p. mg_pipelines m model = Some p \<and> pi_State (pl_info p) = StateLoading)"

lemma stop_pipelines [simp]: "mg_pipelines (stop model m) = (mg_pipelines m)(model := None)"
  by (simp add: stop_def stop_section_def)

lemma stop_bin [simp]: "mg_bin (stop model m) = mg_bin m" "mg_basePort (stop model m) = mg_basePort m"
  by (simp_all add: stop_def stop_section_def)

lemma update_info_other [simp]: "x \<noteq> model \<Longrightarrow> mg_pipelines (update_info model f m) x = mg_pipelines m x"
  by (auto simp: update_info_def split: option.splits)

lemma update_info_None [simp]: "mg_pipelines (update_info model f m) x = None \<longleftrightarrow> mg_pipelines m x = None"
  by (auto simp: update_info_def split: option.splits)

lemma ensure_finish_launch:
  assumes "ensure_finish (rq_model rq) wait (launch env rq m) = (m', port, e)"
  shows "(\<forall>x. x \<noteq> rq_model rq \<longrightarrow> mg_pipelines m' x = mg_pipelines m x) \<and>
    (e = None \<longrightarrow> Port m' (rq_model rq) = Some port) \<and>
    (e \<noteq> None \<longrightarrow> port = 0 \<and> (mg_pipelines m (rq_model rq) = None \<longrightarrow> mg_pipelines m' (rq_model rq) = None))"
proof -
  obtain m1 out where l: "launch env rq m = (m1, out)" by fastforce
  show ?thesis
  proof (cases out)
    case (Returned p err)
    with l assms launch_Returned [of env rq m m1 p err] show ?thesis
      by (auto simp: ensure_finish_def)
  next
    case (Launched p)
    with l have m1: "m1 = m\<lparr>mg_pipelines := (mg_pipelines m)(rq_model rq \<mapsto> new_pipeline env rq p)\<rparr>"
      by (simp add: launch_Launched)
    from assms l Launched have w: "ensure_wait (rq_model rq) wait p m1 = (m', port, e)"
      by (simp add: ensure_finish_def)
    show ?thesis
    proof (cases "wait p")
      case None
      with w m1 show ?thesis
        by (auto simp: ensure_wait_def setState_def update_info_def Port_def new_pipeline_def)
    next
      case (Some err)
      with w m1 show ?thesis
        by (auto simp: ensure_wait_def setError_def)
    qed
  qed (use l launch_not_failed [of env rq m] in auto)
qed

lemma Ensure_spec:
  assumes "Ensure env wait rq m = (m', port, e)"
  shows "(\<forall>x. x \<noteq> rq_model rq \<longrightarrow> mg_pipelines m' x = mg_pipelines m x) \<and>
    (e = None \<and> \<not> loading m (rq_model rq) \<longrightarrow> Port m' (rq_model rq) = Some port) \<and>
    (e \<noteq> None \<and> \<not> loading m (rq_model rq) \<longrightarrow>
       port = 0 \<and> (mg_bin m \<noteq> [] \<or> mg_pipelines m (rq_model rq) = None \<longrightarrow> mg_pipelines m' (rq_model rq) = None))"
proof (cases "mg_bin m = []")
  case True
  with assms show ?thesis by (auto simp: Ensure_def ensure_begin_def ensure_finish_def)
next
  case bin: False
  show ?thesis
  proof (cases "mg_pipelines m (rq_model rq)")
    case None
    with bin have b: "ensure_begin env rq m = launch env rq m" by (simp add: ensure_begin_def)
    have "Ensure env wait rq m = ensure_finish (rq_model rq) wait (launch env rq m)"
      unfolding Ensure_def b using launch_not_failed(1) [of env rq m]
      by (auto split: prod.splits ensure_out.splits)
    with assms ensure_finish_launch [of rq wait env m m' port e] None show ?thesis by simp
  next
    case (Some p)
    consider (ready) "pi_State (pl_info p) = StateReady" | (loading) "pi_State (pl_info p) = StateLoading"
      | (other) "pi_State (pl_info p) \<noteq> StateReady" "pi_State (pl_info p) \<noteq> StateLoading" by blast
    then show ?thesis
    proof cases
      case ready
      with assms Some bin show ?thesis
        by (auto simp: Ensure_def ensure_begin_def ensure_finish_def TouchPipe_def update_info_def Port_def)
    next
      case loading
      with assms Some bin show ?thesis
        by (auto simp: Ensure_def ensure_begin_def ensure_finish_def TouchPipe_def loading_def)
    next
      case other
      let ?m = "stop (rq_model rq) (TouchPipe (le_now env) (rq_model rq) m)"
      from other Some bin have "Ensure env wait rq m = ensure_finish (rq_model rq) wait (launch env rq ?m)"
        by (cases "pi_State (pl_info p)") (simp_all add: Ensure_def ensure_begin_def)
      with assms ensure_finish_launch [of rq wait env ?m m' port e] show ?thesis
        by (auto simp: TouchPipe_def)
    qed
  qed
qed

text \<open>
  C12.  What \<^verbatim>\<open>Ensure\<close> promises a caller that nobody interferes with: other models' pipelines are not
  touched; after a success a pipeline that was not being loaded already is ready on exactly the
  returned port; after an error the port is 0 and no pipeline is left behind where none was.
\<close>

theorem Ensure_contract:
  assumes "Ensure env wait rq m = (m', port, e)"
  shows "(\<forall>x. x \<noteq> rq_model rq \<longrightarrow> mg_pipelines m' x = mg_pipelines m x) \<and>
    (e = None \<and> \<not> loading m (rq_model rq) \<longrightarrow> Port m' (rq_model rq) = Some port) \<and>
    (e \<noteq> None \<and> \<not> loading m (rq_model rq) \<longrightarrow>
       port = 0 \<and> (mg_bin m \<noteq> [] \<or> mg_pipelines m (rq_model rq) = None \<longrightarrow> mg_pipelines m' (rq_model rq) = None))"
  by (rule Ensure_spec [OF assms])

definition example_pipeline :: "PipelineState \<Rightarrow> instant \<Rightarrow> pipeline" where
  "example_pipeline s used = \<lparr>pl_info = \<lparr>pi_Model = ''m'', pi_State = s, pi_Workers = [],
     pi_StartedAt = 0, pi_LastUsed = used, pi_Error = []\<rparr>, pl_port = 11500, pl_cmd = 0\<rparr>"

definition example_env :: launch_env where
  "example_env = \<lparr>le_now = 5, le_free = (\<lambda>p. True), le_start = (\<lambda>bin args. None), le_pid = 7\<rparr>"

definition example_request :: "string \<Rightarrow> request" where
  "example_request model = \<lparr>rq_model = model, rq_gguf = ''/models/blobs/sha256-1'',
     rq_workers = [''10.0.0.2:50752''], rq_ctxSize = 4096\<rparr>"

lemma freePort_first [simp]: "freePort (\<lambda>p. True) base = Inr base"
  by (simp add: freePort_def eval_nat_numeral)

theorem Ensure_contract_witness:
  "Port (fst (Ensure example_env (\<lambda>port. None) (example_request ''m'') (NewManager ''llama-server'' 11500))) ''m''
     = Some 11500"
proof -
  let ?m = "NewManager ''llama-server'' 11500" and ?rq = "example_request ''m''"
  obtain m' where m': "Ensure example_env (\<lambda>port. None) ?rq ?m = (m', 11500, None)"
    by (simp add: Ensure_def ensure_begin_def launch_def ensure_finish_def ensure_wait_def NewManager_def
        example_env_def example_request_def)
  moreover have "\<not> loading ?m (rq_model ?rq)" by (simp add: loading_def NewManager_def)
  moreover have "rq_model ?rq = ''m''" by (simp add: example_request_def)
  ultimately show ?thesis using Ensure_contract [OF m'] by simp
qed

text \<open>
  Two callers of one loading pipeline: the one that joins can be told that the pipeline is up,
  with its port, while the manager still refuses to name that port, because only the caller that
  launched it sets the state, after its own next poll.
\<close>

theorem Ensure_joined_not_ready:
  assumes "mg_bin m \<noteq> []" and "mg_pipelines m (rq_model rq) = Some p"
    and "pi_State (pl_info p) = StateLoading" and "wait (pl_port p) = None"
  shows "\<exists>m'. Ensure env wait rq m = (m', pl_port p, None) \<and> Port m' (rq_model rq) = None"
  using assms by (simp add: Ensure_def ensure_begin_def ensure_finish_def TouchPipe_def update_info_def Port_def)

theorem Ensure_joined_not_ready_witness:
  "\<exists>m'. Ensure example_env (\<lambda>port. None) (example_request ''m'')
       \<lparr>mg_bin = ''b'', mg_basePort = 11500, mg_pipelines = [''m'' \<mapsto> example_pipeline StateLoading 0]\<rparr>
       = (m', 11500, None) \<and> Port m' ''m'' = None"
  using Ensure_joined_not_ready [of "\<lparr>mg_bin = ''b'', mg_basePort = 11500,
      mg_pipelines = [''m'' \<mapsto> example_pipeline StateLoading 0]\<rparr>" "example_request ''m''"
      "example_pipeline StateLoading 0" "\<lambda>port. None" example_env]
  by (simp add: example_request_def example_pipeline_def)

text \<open>
  The test of \<^verbatim>\<open>freePort\<close> reserves nothing: two pipelines launched before the first server
  listens are given the same port, so both wait for the same server's health.
\<close>

theorem launch_same_port:
  assumes "launch env rq m = (m1, Launched port)" and "rq_model rq' \<noteq> rq_model rq"
    and "le_free env' = le_free env" and "le_start env' (mg_bin m) (server_args rq' port) = None"
  shows "\<exists>m2. launch env' rq' m1 = (m2, Launched port) \<and>
    (\<exists>p q. mg_pipelines m2 (rq_model rq) = Some p \<and> mg_pipelines m2 (rq_model rq') = Some q \<and>
       pl_port p = port \<and> pl_port q = port)"
  using assms unfolding launch_Launched by (auto simp: new_pipeline_def)

theorem launch_same_port_witness:
  "\<exists>m1 m2 p q. launch example_env (example_request ''m'') (NewManager ''b'' 11500) = (m1, Launched 11500) \<and>
     launch example_env (example_request ''n'') m1 = (m2, Launched 11500) \<and>
     mg_pipelines m2 ''m'' = Some p \<and> mg_pipelines m2 ''n'' = Some q \<and> pl_port p = 11500 \<and> pl_port q = 11500"
proof -
  have "\<exists>m1. launch example_env (example_request ''m'') (NewManager ''b'' 11500) = (m1, Launched 11500)"
    by (simp add: launch_def NewManager_def example_env_def)
  then obtain m1 where m1: "launch example_env (example_request ''m'') (NewManager ''b'' 11500) = (m1, Launched 11500)" ..
  from launch_same_port [OF m1, of "example_request ''n''" example_env]
  show ?thesis using m1 by (auto simp: example_request_def example_env_def)
qed

section \<open>Stopping pipelines\<close>

lemma fold_stop: "mg_pipelines (fold stop models m) x = (if x \<in> set models then None else mg_pipelines m x)"
  by (induction models arbitrary: m) auto

lemma stop_each_manager: "fst (stop_each models m) = fold stop models m"
proof (induction models arbitrary: m)
  case (Cons model models)
  obtain m1 victim where "stop_section model m = (m1, victim)" by fastforce
  with Cons.IH [of m1] show ?case by (auto simp: stop_def split: prod.split)
qed simp

lemma stop_each_victims:
  "set (snd (stop_each models m)) = {pl_cmd p | model p. model \<in> set models \<and> mg_pipelines m model = Some p}"
proof (induction models arbitrary: m)
  case (Cons model models)
  obtain m1 victim where s: "stop_section model m = (m1, victim)" by fastforce
  then have m1: "mg_pipelines m1 = (mg_pipelines m)(model := None)" and victim: "victim = map_option pl_cmd (mg_pipelines m model)"
    by (auto simp: stop_section_def)
  have "set (snd (stop_each (model # models) m)) = set_option victim \<union> set (snd (stop_each models m1))"
    using s by (auto split: prod.split option.split)
  also have "\<dots> = {pl_cmd p | x p. x \<in> set (model # models) \<and> mg_pipelines m x = Some p}"
    unfolding Cons.IH m1 victim by auto
  finally show ?case .
qed simp

lemma idle_models_mem:
  assumes "iter_order (mg_pipelines m) order"
  shows "x \<in> set (idle_models now order m) \<longleftrightarrow>
    (\<exists>p. mg_pipelines m x = Some p \<and> pi_State (pl_info p) = StateReady \<and>
       now - pi_LastUsed (pl_info p) > IdleTimeout)"
  using iter_orderD [OF assms] by (auto simp: idle_models_def split: option.splits)

text \<open>
  C13.  A tick of the collector drops and kills exactly the pipelines that are ready and unused for more than
  ten minutes: every other one stays as it is, loading and failed ones whatever their age, and no other process
  is killed.  \<^verbatim>\<open>StopAll\<close> drops and kills every pipeline.  Both hold for every order in which the map is visited.
\<close>

theorem gc_tick_exact:
  assumes "iter_order (mg_pipelines m) order"
  shows "mg_pipelines (fst (gc_tick now order m)) x =
      (case mg_pipelines m x of
         None \<Rightarrow> None
       | Some p \<Rightarrow>
           if pi_State (pl_info p) = StateReady \<and> now - pi_LastUsed (pl_info p) > 600 * second then None
           else Some p) \<and>
    set (snd (gc_tick now order m)) =
      {pl_cmd p | p. p \<in> ran (mg_pipelines m) \<and> pi_State (pl_info p) = StateReady \<and> now - pi_LastUsed (pl_info p) > 600 * second} \<and>
    mg_pipelines (fst (StopAll order m)) = Map.empty \<and> set (snd (StopAll order m)) = pl_cmd ` ran (mg_pipelines m)"
proof (intro conjI)
  note idle = idle_models_mem [OF assms, of _ now]
  show "mg_pipelines (fst (gc_tick now order m)) x =
      (case mg_pipelines m x of
         None \<Rightarrow> None
       | Some p \<Rightarrow>
           if pi_State (pl_info p) = StateReady \<and> now - pi_LastUsed (pl_info p) > 600 * second then None
           else Some p)"
    using idle [of x] by (auto simp: gc_tick_def stop_each_manager fold_stop IdleTimeout_def split: option.splits)
  show "set (snd (gc_tick now order m)) =
      {pl_cmd p | p. p \<in> ran (mg_pipelines m) \<and> pi_State (pl_info p) = StateReady \<and> now - pi_LastUsed (pl_info p) > 600 * second}"
    unfolding gc_tick_def stop_each_victims idle by (auto simp: ran_def IdleTimeout_def)
  show "mg_pipelines (fst (StopAll order m)) = Map.empty"
    using iter_orderD [OF assms] by (auto simp: StopAll_def stop_each_manager fold_stop fun_eq_iff)
  show "set (snd (StopAll order m)) = pl_cmd ` ran (mg_pipelines m)"
    unfolding StopAll_def stop_each_victims using iter_orderD [OF assms] by (auto simp: ran_def image_iff)
qed

theorem gc_tick_exact_witness:
  "mg_pipelines (fst (gc_tick (601 * second) [''m'']
     \<lparr>mg_bin = ''b'', mg_basePort = 11500, mg_pipelines = [''m'' \<mapsto> example_pipeline StateReady 0]\<rparr>)) ''m'' = None"
  using gc_tick_exact [of "\<lparr>mg_bin = ''b'', mg_basePort = 11500, mg_pipelines = [''m'' \<mapsto> example_pipeline StateReady 0]\<rparr>"
      "[''m'']" "601 * second" "''m''"]
  by (simp add: iter_order_def example_pipeline_def)

end
