(* ===== verification/Worker.thy ===== *)
theory Worker
  imports Pipeline
begin

text \<open>
  \<^verbatim>\<open>internal/split/worker.go\<close>: the \<^verbatim>\<open>rpc-server\<close> process a node lends to the pipelines of others.
  The text of a device listing and how it is read, the choice of devices, starting, stopping and
  reaping the process, and the wait for its port.  What a child prints and whether it starts or
  listens are arguments.
\<close>

section \<open>The device listing\<close>

text \<open>The class \<^verbatim>\<open>\s\<close> of Go's regular expressions.\<close>

definition is_re_space :: "char \<Rightarrow> bool" where
  "is_re_space c \<longleftrightarrow> c \<in> {CHR 0x09, CHR 0x0A, CHR 0x0C, CHR 0x0D, CHR '' ''}"

text \<open>\<^verbatim>\<open>\((\d+) MiB, \d+ MiB free\)\<close> at the start of a text; the result is the group.\<close>

definition mem_at :: "string \<Rightarrow> string option" where
  "mem_at s =
     (if \<not> HasPrefix s ''('' then None
      else
        (let digits = takeWhile is_digit (tl s); r = dropWhile is_digit (tl s);
             r' = dropWhile is_digit (TrimPrefix r '' MiB, '')
         in if digits \<noteq> [] \<and> HasPrefix r '' MiB, '' \<and>
               takeWhile is_digit (TrimPrefix r '' MiB, '') \<noteq> [] \<and> HasPrefix r' '' MiB free)''
            then Some digits else None))"

text \<open>A greedy \<^verbatim>\<open>.*\<close> before it: the last place where it matches.\<close>

fun last_mem :: "string \<Rightarrow> string option" where
  "last_mem [] = None"
| "last_mem (x # xs) = (case last_mem xs of Some m \<Rightarrow> Some m | None \<Rightarrow> mem_at (x # xs))"

text \<open>
  \<^verbatim>\<open>^\s{2}(\S+): .*\((\d+) MiB, \d+ MiB free\)\<close>: the name is followed by a colon and a space, so it
  is the whole run of non-space characters but for its last one.
\<close>

fun deviceLine :: "string \<Rightarrow> (string \<times> string) option" where
  "deviceLine (a # b # rest) =
     (let run = takeWhile (\<lambda>c. \<not> is_re_space c) rest; after = dropWhile (\<lambda>c. \<not> is_re_space c) rest
      in if is_re_space a \<and> is_re_space b \<and> 2 \<le> length run \<and> last run = CHR '':'' \<and> HasPrefix after '' ''
         then map_option (Pair (butlast run)) (last_mem (tl after)) else None)"
| "deviceLine _ = None"

definition read_device :: "string list \<times> string list \<Rightarrow> string \<Rightarrow> string list \<times> string list" where
  "read_device acc line =
     (let (gpus, cpus) = acc in
      case deviceLine line of
        None \<Rightarrow> (gpus, cpus)
      | Some (name, digits) \<Rightarrow>
          if Atoi_digits digits \<le> 0 then (gpus, cpus)
          else if HasPrefix name ''CPU'' then (gpus, cpus @ [name])
          else (gpus @ [name], cpus))"

text \<open>\<open>failed\<close> is whether \<^verbatim>\<open>rpc-server --device list\<close> ended with an error, \<open>out\<close> all it printed.\<close>

definition pickDevices :: "string \<Rightarrow> bool \<Rightarrow> string" where
  "pickDevices out failed =
     (if failed \<and> out = [] then []
      else
        (let (gpus, cpus) = foldl read_device ([], []) (Split out (CHR 0x0A))
         in if gpus \<noteq> [] then Join gpus '','' else Join cpus '',''))"

text \<open>A device and the line in which \<^verbatim>\<open>rpc-server\<close> describes it.\<close>

record device =
  dev_name :: string
  dev_desc :: string
  dev_total :: nat
  dev_free :: nat

definition device_text :: "device \<Rightarrow> string" where
  "device_text d = ''  '' @ dev_name d @ '': '' @ dev_desc d @ '' ('' @ dec_digits (dev_total d) @ '' MiB, '' @
     dec_digits (dev_free d) @ '' MiB free)''"

definition device_ok :: "device \<Rightarrow> bool" where
  "device_ok d \<longleftrightarrow> dev_name d \<noteq> [] \<and> (\<forall>c \<in> set (dev_name d). \<not> is_re_space c) \<and> CHR 0x0A \<notin> set (dev_desc d) \<and>
     dev_total d < 2 ^ 63"

lemma mem_at_text:
  "mem_at (''('' @ dec_digits t @ '' MiB, '' @ dec_digits f @ '' MiB free)'' @ r) = Some (dec_digits t)"
proof -
  have digits: "takeWhile is_digit (dec_digits n @ CHR '' '' # s) = dec_digits n"
    "dropWhile is_digit (dec_digits n @ CHR '' '' # s) = CHR '' '' # s" for n s
    using dec_digits_all [of n] by (simp_all add: takeWhile_append2 dropWhile_append2 is_digit_def)
  have "TrimPrefix (CHR '' '' # ''MiB, '' @ s) '' MiB, '' = s" "HasPrefix (CHR '' '' # ''MiB, '' @ s) '' MiB, ''" for s
    using TrimPrefix_append [of "'' MiB, ''" s] HasPrefix_append [of "'' MiB, ''" s] by simp_all
  then show ?thesis
    using digits by (simp add: mem_at_def HasPrefix_def Let_def)
qed

lemma last_mem_append: "last_mem t = Some m \<Longrightarrow> last_mem (s @ t) = Some m"
  by (induction s) simp_all

lemma mem_at_not_paren: "c \<noteq> CHR ''('' \<Longrightarrow> mem_at (c # s) = None"
  by (simp add: mem_at_def HasPrefix_def)

lemma last_mem_no_paren: "CHR ''('' \<notin> set s \<Longrightarrow> last_mem s = None"
  by (induction s) (auto simp: mem_at_not_paren)

lemma last_mem_text:
  "last_mem (desc @ '' ('' @ dec_digits t @ '' MiB, '' @ dec_digits f @ '' MiB free)'') = Some (dec_digits t)"
proof -
  have no: "CHR ''('' \<notin> set (dec_digits n)" for n
    using dec_digits_all [of n] by (auto simp: is_digit_def)
  then have "last_mem (dec_digits t @ '' MiB, '' @ dec_digits f @ '' MiB free)'') = None"
    by (intro last_mem_no_paren) auto
  then have "last_mem (''('' @ dec_digits t @ '' MiB, '' @ dec_digits f @ '' MiB free)'') = Some (dec_digits t)"
    using mem_at_text [of t f "[]"] by simp
  from last_mem_append [OF this, of "desc @ '' ''"] show ?thesis by simp
qed

lemma deviceLine_text:
  assumes "device_ok d"
  shows "deviceLine (device_text d) = Some (dev_name d, dec_digits (dev_total d))"
proof -
  let ?rest = "dev_desc d @ '' ('' @ dec_digits (dev_total d) @ '' MiB, '' @ dec_digits (dev_free d) @ '' MiB free)''"
  have sp: "is_re_space (CHR '' '')" "\<not> is_re_space (CHR '':'')" by (simp_all add: is_re_space_def)
  have "takeWhile (\<lambda>c. \<not> is_re_space c) (dev_name d @ CHR '':'' # CHR '' '' # ?rest) = dev_name d @ '':''"
    and "dropWhile (\<lambda>c. \<not> is_re_space c) (dev_name d @ CHR '':'' # CHR '' '' # ?rest) = CHR '' '' # ?rest"
    using assms sp by (simp_all add: device_ok_def takeWhile_append2 dropWhile_append2)
  then show ?thesis
    using assms sp last_mem_text [of "dev_desc d" "dev_total d" "dev_free d"]
    by (cases "dev_name d") (simp_all add: device_text_def device_ok_def HasPrefix_def Let_def)
qed

lemma read_device_text:
  assumes "device_ok d"
  shows "read_device (gpus, cpus) (device_text d) =
    (if dev_total d = 0 then (gpus, cpus)
     else if HasPrefix (dev_name d) ''CPU'' then (gpus, cpus @ [dev_name d])
     else (gpus @ [dev_name d], cpus))"
proof -
  have "Atoi_digits (dec_digits (dev_total d)) = int (dev_total d)"
    using assms by (simp add: Atoi_digits_def dec_value_dec_digits device_ok_def)
  then show ?thesis by (simp add: read_device_def deviceLine_text [OF assms])
qed

lemma foldl_read_device:
  "\<forall>d \<in> set ds. device_ok d \<Longrightarrow> foldl read_device (gpus, cpus) (map device_text ds) =
     (gpus @ map dev_name (filter (\<lambda>d. dev_total d \<noteq> 0 \<and> \<not> HasPrefix (dev_name d) ''CPU'') ds),
      cpus @ map dev_name (filter (\<lambda>d. dev_total d \<noteq> 0 \<and> HasPrefix (dev_name d) ''CPU'') ds))"
  by (induction ds arbitrary: gpus cpus) (auto simp: read_device_text)

lemma device_text_one_line:
  assumes "device_ok d"
  shows "CHR 0x0A \<notin> set (device_text d)"
proof -
  have "CHR 0x0A \<notin> set (dec_digits n)" for n
    using dec_digits_all [of n] by (auto simp: is_digit_def)
  moreover have "CHR 0x0A \<notin> set (dev_name d)"
    using assms by (auto simp: device_ok_def is_re_space_def)
  ultimately show ?thesis using assms by (auto simp: device_text_def device_ok_def)
qed

lemma read_device_other: "deviceLine line = None \<Longrightarrow> read_device acc line = acc"
  by (cases acc) (simp add: read_device_def)

lemma foldl_read_other:
  "\<forall>l \<in> set ls. deviceLine l = None \<Longrightarrow> foldl read_device acc ls = acc"
  by (induction ls) (simp_all add: read_device_other)

text \<open>
  C36.  From the listing that \<^verbatim>\<open>rpc-server\<close> prints, with any other lines before it, exactly the
  devices that have memory and are not a CPU are picked, in the order of the listing; only when there
  is none, the CPUs that have memory.  A device without memory is never picked.
\<close>

theorem pickDevices_exact:
  assumes "\<forall>d \<in> set ds. device_ok d" and "\<forall>l \<in> set ls. deviceLine l = None \<and> CHR 0x0A \<notin> set l" and "ls \<noteq> []"
  shows "pickDevices (Join (ls @ map device_text ds) [CHR 0x0A]) False =
    (let mem = filter (\<lambda>d. dev_total d \<noteq> 0) ds; gpus = filter (\<lambda>d. \<not> HasPrefix (dev_name d) ''CPU'') mem
     in Join (map dev_name (if gpus \<noteq> [] then gpus else mem)) '','')"
proof -
  let ?mem = "filter (\<lambda>d. dev_total d \<noteq> 0) ds"
  have "Split (Join (ls @ map device_text ds) [CHR 0x0A]) (CHR 0x0A) = ls @ map device_text ds"
    using assms by (intro Split_Join) (auto simp: device_text_one_line)
  then have *: "pickDevices (Join (ls @ map device_text ds) [CHR 0x0A]) False =
      (let (gpus, cpus) = foldl read_device ([], []) (map device_text ds)
       in if gpus \<noteq> [] then Join gpus '','' else Join cpus '','')"
    using assms(2) by (simp add: pickDevices_def foldl_read_other)
  let ?gpu = "\<lambda>d. dev_total d \<noteq> 0 \<and> \<not> HasPrefix (dev_name d) ''CPU''"
  have cpus: "filter (\<lambda>d. dev_total d \<noteq> 0 \<and> HasPrefix (dev_name d) ''CPU'') ds = ?mem"
    if "filter ?gpu ds = []"
    using that by (induction ds) (auto split: if_splits)
  have gpus: "filter (\<lambda>d. \<not> HasPrefix (dev_name d) ''CPU'') ?mem = filter ?gpu ds"
    by (simp add: conj_commute)
  show ?thesis
    unfolding * foldl_read_device [OF assms(1)] Let_def gpus using cpus by simp
qed

theorem pickDevices_exact_witness:
  "pickDevices (Join [''Available devices:'',
     device_text \<lparr>dev_name = ''MTL0'', dev_desc = ''Apple M4'', dev_total = 12124, dev_free = 12123\<rparr>,
     device_text \<lparr>dev_name = ''BLAS'', dev_desc = ''Accelerate'', dev_total = 0, dev_free = 0\<rparr>,
     device_text \<lparr>dev_name = ''CPU'', dev_desc = ''Apple M4'', dev_total = 16384, dev_free = 8192\<rparr>] [CHR 0x0A]) False
   = ''MTL0''"
  using pickDevices_exact [of "[\<lparr>dev_name = ''MTL0'', dev_desc = ''Apple M4'', dev_total = 12124, dev_free = 12123\<rparr>,
     \<lparr>dev_name = ''BLAS'', dev_desc = ''Accelerate'', dev_total = 0, dev_free = 0\<rparr>,
     \<lparr>dev_name = ''CPU'', dev_desc = ''Apple M4'', dev_total = 16384, dev_free = 8192\<rparr>]" "[''Available devices:'']"]
  by (simp add: device_ok_def is_re_space_def HasPrefix_def)

text \<open>
  If no device of the listing has memory, nothing is picked, so \<^verbatim>\<open>rpc-server\<close> is started
  without a device option and exposes its defaults, the devices without memory included.
\<close>

theorem pickDevices_all_empty:
  assumes "\<forall>d \<in> set ds. device_ok d \<and> dev_total d = 0"
  shows "pickDevices (Join (''Available devices:'' # map device_text ds) [CHR 0x0A]) False = []"
proof -
  have "Split (Join (''Available devices:'' # map device_text ds) [CHR 0x0A]) (CHR 0x0A)
      = ''Available devices:'' # map device_text ds"
    using assms by (intro Split_Join) (auto simp: device_text_one_line)
  moreover have "deviceLine ''Available devices:'' = None"
    by (simp add: is_re_space_def)
  moreover have "foldl read_device ([], []) (map device_text ds) = ([], [])"
    using assms foldl_read_device [of ds "[]" "[]"] by (simp add: filter_empty_conv)
  ultimately show ?thesis by (simp add: pickDevices_def read_device_other)
qed

theorem pickDevices_all_empty_witness:
  "pickDevices (Join [''Available devices:'',
     device_text \<lparr>dev_name = ''BLAS'', dev_desc = ''Accelerate'', dev_total = 0, dev_free = 0\<rparr>] [CHR 0x0A]) False = []"
  using pickDevices_all_empty [of "[\<lparr>dev_name = ''BLAS'', dev_desc = ''Accelerate'', dev_total = 0, dev_free = 0\<rparr>]"]
  by (simp add: device_ok_def is_re_space_def)

section \<open>The process\<close>

record Worker =
  wk_bin :: string
  wk_port :: int
  wk_cmd :: "nat option"

definition NewWorker :: "string \<Rightarrow> int \<Rightarrow> Worker" where
  "NewWorker bin port = \<lparr>wk_bin = bin, wk_port = port, wk_cmd = None\<rparr>"

definition worker_Available :: "Worker \<Rightarrow> bool" where
  "worker_Available w \<longleftrightarrow> wk_bin w \<noteq> []"

definition Running :: "Worker \<Rightarrow> bool" where
  "Running w \<longleftrightarrow> wk_cmd w \<noteq> None"

datatype worker_error = NoRPCServer | StartError string | NotListening string duration

text \<open>What the locked section of \<^verbatim>\<open>Ensure\<close> meets: the device listing, the start of the child, its process.\<close>

record worker_env =
  we_out :: string
  we_failed :: bool
  we_start :: "string \<Rightarrow> string list \<Rightarrow> string option"
  we_pid :: nat

definition worker_args :: "Worker \<Rightarrow> worker_env \<Rightarrow> string list" where
  "worker_args w env =
     [''--host'', ''0.0.0.0'', ''--port'', Itoa (wk_port w)] @
     (let devices = pickDevices (we_out env) (we_failed env)
      in if devices \<noteq> [] then [''--device'', devices] else [])"

datatype worker_out = WorkerReturned "worker_error option" | WorkerStarted

definition worker_section :: "worker_env \<Rightarrow> Worker \<Rightarrow> Worker \<times> worker_out" where
  "worker_section env w =
     (if wk_bin w = [] then (w, WorkerReturned (Some NoRPCServer))
      else if wk_cmd w \<noteq> None then (w, WorkerReturned None)
      else (case we_start env (wk_bin w) (worker_args w env) of
              Some err \<Rightarrow> (w, WorkerReturned (Some (StartError err)))
            | None \<Rightarrow> (w\<lparr>wk_cmd := Some (we_pid env)\<rparr>, WorkerStarted)))"

text \<open>The reaper; the process to kill that \<^verbatim>\<open>Stop\<close> reads under the lock.\<close>

definition worker_reap :: "nat \<Rightarrow> Worker \<Rightarrow> Worker" where
  "worker_reap cmd w = (if wk_cmd w = Some cmd then w\<lparr>wk_cmd := None\<rparr> else w)"

definition Stop :: "Worker \<Rightarrow> nat option" where
  "Stop w = wk_cmd w"

text \<open>\<open>dial i\<close> is the time of the turn and whether the port accepts a connection.\<close>

fun dial_loop :: "nat \<Rightarrow> instant \<Rightarrow> (nat \<Rightarrow> instant \<times> bool) \<Rightarrow> nat \<Rightarrow> bool option" where
  "dial_loop 0 deadline dial i = None"
| "dial_loop (Suc fuel) deadline dial i =
     (if \<not> fst (dial i) < deadline then Some False
      else if snd (dial i) then Some True
      else dial_loop fuel deadline dial (Suc i))"

definition waitForPort :: "nat \<Rightarrow> string \<Rightarrow> duration \<Rightarrow> instant \<Rightarrow> (nat \<Rightarrow> instant \<times> bool) \<Rightarrow> worker_error option option" where
  "waitForPort fuel addr timeout start dial =
     (case dial_loop fuel (start + timeout) dial 0 of
        None \<Rightarrow> None
      | Some True \<Rightarrow> Some None
      | Some False \<Rightarrow> Some (Some (NotListening addr timeout)))"

definition local_addr :: "int \<Rightarrow> string" where
  "local_addr port = ''127.0.0.1:'' @ Itoa port"

text \<open>\<^verbatim>\<open>Ensure\<close> as one caller runs it; \<open>wait\<close> is the outcome of \<^verbatim>\<open>waitForPort\<close>.\<close>

definition worker_Ensure :: "worker_env \<Rightarrow> (string \<Rightarrow> duration \<Rightarrow> worker_error option) \<Rightarrow> Worker
    \<Rightarrow> Worker \<times> worker_error option" where
  "worker_Ensure env wait w =
     (case worker_section env w of
        (w', WorkerReturned e) \<Rightarrow> (w', e)
      | (w', WorkerStarted) \<Rightarrow> (w', wait (local_addr (wk_port w')) (10 * second)))"

lemma dial_loop_returns:
  assumes "\<And>k. fst (dial k) \<ge> start + int k * 200000000" and "deadline \<le> start + int (i + fuel) * 200000000"
  shows "\<exists>r. dial_loop (Suc fuel) deadline dial i = Some r"
  using assms(2)
proof (induction fuel arbitrary: i)
  case 0
  with assms(1) [of i] show ?case by (auto intro: exI [of _ False])
next
  case (Suc fuel)
  from Suc.IH [of "Suc i"] Suc.prems show ?case by auto
qed

lemma dial_loop_True:
  "dial_loop fuel deadline dial i = Some True \<longleftrightarrow>
     (\<exists>n < fuel. (\<forall>k < n. fst (dial (i + k)) < deadline \<and> \<not> snd (dial (i + k))) \<and>
        fst (dial (i + n)) < deadline \<and> snd (dial (i + n)))"
proof (induction fuel arbitrary: i)
  case (Suc fuel)
  show ?case
    unfolding Ex_less_Suc2 All_less_Suc2
    using Suc.IH [of "Suc i"] by (cases "fst (dial i) < deadline"; cases "snd (dial i)") simp_all
qed simp

text \<open>
  Waiting for \<^verbatim>\<open>rpc-server\<close> ends: with 200 milliseconds between two attempts, 51 of them pass
  before the ten seconds are over; and it succeeds exactly when an attempt before the deadline
  connects, all earlier ones having failed.
\<close>

theorem waitForPort_terminates:
  assumes "\<And>k. fst (dial k) \<ge> start + int k * 200000000"
  shows "\<exists>r. waitForPort 51 addr (10 * second) start dial = Some r \<and>
    (r = None \<longleftrightarrow> (\<exists>n < 51. (\<forall>k < n. fst (dial k) < start + 10 * second \<and> \<not> snd (dial k)) \<and>
        fst (dial n) < start + 10 * second \<and> snd (dial n)))"
proof -
  from dial_loop_returns [of start dial "start + 10 * second" 0 50] assms
  obtain r where r: "dial_loop 51 (start + 10 * second) dial 0 = Some r" by auto
  have "waitForPort 51 addr (10 * second) start dial =
      Some (if r then None else Some (NotListening addr (10 * second)))"
    using r by (simp add: waitForPort_def split: bool.split)
  with r dial_loop_True [of 51 "start + 10 * second" dial 0] show ?thesis by simp
qed

theorem waitForPort_terminates_witness:
  "\<exists>r. waitForPort 51 ''127.0.0.1:50752'' (10 * second) 0 (\<lambda>k. (int k * 300000000, False)) = Some r"
  using waitForPort_terminates [of 0 "\<lambda>k. (int k * 300000000, False)" "''127.0.0.1:50752''"] by auto

section \<open>One server at a time\<close>

text \<open>
  Executions of any number of callers: the locked section of \<^verbatim>\<open>Ensure\<close>, \<^verbatim>\<open>Stop\<close> (its reading and
  its kill), exits of the child and the reapers.
\<close>

record worker_sys =
  ws_worker :: Worker
  ws_procs :: "nat set"
  ws_next :: nat
  ws_reapers :: "nat set"
  ws_kills :: "nat list"

definition init_worker :: "string \<Rightarrow> int \<Rightarrow> worker_sys" where
  "init_worker bin port = \<lparr>ws_worker = NewWorker bin port, ws_procs = {}, ws_next = 0, ws_reapers = {}, ws_kills = []\<rparr>"

inductive worker_reachable :: "string \<Rightarrow> int \<Rightarrow> worker_sys \<Rightarrow> bool" for bin port where
  worker_init: "worker_reachable bin port (init_worker bin port)"
| worker_refused: "worker_reachable bin port s \<Longrightarrow> worker_section env (ws_worker s) = (w, WorkerReturned e) \<Longrightarrow>
    worker_reachable bin port (s\<lparr>ws_worker := w\<rparr>)"
| worker_started: "worker_reachable bin port s \<Longrightarrow> we_pid env = ws_next s \<Longrightarrow>
    worker_section env (ws_worker s) = (w, WorkerStarted) \<Longrightarrow>
    worker_reachable bin port (s\<lparr>ws_worker := w, ws_procs := insert (ws_next s) (ws_procs s),
      ws_next := Suc (ws_next s), ws_reapers := insert (ws_next s) (ws_reapers s)\<rparr>)"
| worker_stop: "worker_reachable bin port s \<Longrightarrow> Stop (ws_worker s) = Some pid \<Longrightarrow>
    worker_reachable bin port (s\<lparr>ws_kills := pid # ws_kills s\<rparr>)"
| worker_kill: "worker_reachable bin port s \<Longrightarrow> ws_kills s = us @ pid # vs \<Longrightarrow>
    worker_reachable bin port (s\<lparr>ws_procs := ws_procs s - {pid}, ws_kills := us @ vs\<rparr>)"
| worker_exit: "worker_reachable bin port s \<Longrightarrow> pid \<in> ws_procs s \<Longrightarrow>
    worker_reachable bin port (s\<lparr>ws_procs := ws_procs s - {pid}\<rparr>)"
| worker_reaped: "worker_reachable bin port s \<Longrightarrow> pid \<in> ws_reapers s \<Longrightarrow> pid \<notin> ws_procs s \<Longrightarrow>
    worker_reachable bin port (s\<lparr>ws_worker := worker_reap pid (ws_worker s), ws_reapers := ws_reapers s - {pid}\<rparr>)"

lemma worker_section_started:
  "worker_section env w = (w', WorkerStarted) \<longleftrightarrow>
     wk_bin w \<noteq> [] \<and> wk_cmd w = None \<and> we_start env (wk_bin w) (worker_args w env) = None \<and>
     w' = w\<lparr>wk_cmd := Some (we_pid env)\<rparr>"
  by (auto simp: worker_section_def split: option.splits)

lemma worker_section_refused: "worker_section env w = (w', WorkerReturned e) \<Longrightarrow> w' = w"
  by (auto simp: worker_section_def split: option.splits if_splits)

text \<open>
  C35.  In every execution at most one \<^verbatim>\<open>rpc-server\<close> runs, and it is the one the worker holds; a
  process the worker holds still has its reaper, so that its exit is noticed; the binary and the
  port never change.
\<close>

theorem one_rpc_server:
  assumes "worker_reachable bin port s"
  shows "ws_procs s \<subseteq> set_option (wk_cmd (ws_worker s)) \<and> set_option (wk_cmd (ws_worker s)) \<subseteq> ws_reapers s \<and>
    wk_bin (ws_worker s) = bin \<and> wk_port (ws_worker s) = port"
  using assms
proof (induction rule: worker_reachable.induct)
  case (worker_started s env w)
  then show ?case by (auto simp: worker_section_started)
next
  case (worker_reaped s pid)
  then show ?case by (cases "wk_cmd (ws_worker s)") (auto simp: worker_reap_def)
qed (auto simp: init_worker_def NewWorker_def dest: worker_section_refused)

definition example_worker_env :: worker_env where
  "example_worker_env = \<lparr>we_out = [], we_failed = True, we_start = (\<lambda>bin args. None), we_pid = 0\<rparr>"

definition started_worker :: worker_sys where
  "started_worker = \<lparr>ws_worker = \<lparr>wk_bin = ''b'', wk_port = 50752, wk_cmd = Some 0\<rparr>, ws_procs = {0}, ws_next = 1,
     ws_reapers = {0}, ws_kills = []\<rparr>"

lemma started_worker_reachable: "worker_reachable ''b'' 50752 started_worker"
  using worker_reachable.worker_started [OF worker_init, of example_worker_env "''b''" 50752]
  by (simp add: worker_section_started init_worker_def NewWorker_def example_worker_env_def started_worker_def)

theorem one_rpc_server_witness:
  "ws_procs started_worker \<subseteq> set_option (wk_cmd (ws_worker started_worker)) \<and> ws_procs started_worker = {0}"
  using one_rpc_server [OF started_worker_reachable] by (simp add: started_worker_def)

text \<open>
  \<^verbatim>\<open>Ensure\<close> can report success when nothing listens: between the exit of the process (after a
  \<^verbatim>\<open>Stop\<close>, or a crash) and its reaper, and from the start of the process until its port is open,
  another caller is told at once that the server is there.
\<close>

theorem worker_Ensure_without_server:
  "\<exists>s. worker_reachable ''b'' 50752 s \<and> ws_procs s = {} \<and>
     (\<forall>env wait. worker_Ensure env wait (ws_worker s) = (ws_worker s, None))"
proof -
  have "worker_reachable ''b'' 50752 (started_worker\<lparr>ws_procs := ws_procs started_worker - {0}\<rparr>)" (is "worker_reachable _ _ ?s")
    by (rule worker_exit [OF started_worker_reachable]) (simp add: started_worker_def)
  moreover have "worker_Ensure env wait (ws_worker ?s) = (ws_worker ?s, None)" for env wait
    by (simp add: worker_Ensure_def worker_section_def started_worker_def)
  moreover have "ws_procs ?s = {}" by (simp add: started_worker_def)
  ultimately show ?thesis by blast
qed

end
