(* ===== verification/Scheduler.thy ===== *)
theory Scheduler
  imports Registry
begin

text \<open>
  \<^verbatim>\<open>internal/scheduler/scheduler.go\<close>: which node serves a request, and what the pool as a whole
  can serve.  One call reads the clock once; the code reads it once per node, a few nanoseconds
  apart.  The ranking of \<^verbatim>\<open>Pick\<close> is a linear order (\<open>rank\<close>), so the stable sort of the code is
  the library's \<open>sort_key\<close> and the chosen node is the first one of least rank.
\<close>

definition StaleAfter :: duration where
  "StaleAfter = 20 * second"

definition eligible :: "instant \<Rightarrow> NodeState \<Rightarrow> bool" where
  "eligible now n \<longleftrightarrow> ns_Sharing n \<and> ns_OllamaOK n \<and> now - ns_UpdatedAt n < StaleAfter"

section \<open>What the pool serves\<close>

text \<open>The nested loops that collect the names, over a Go map used as a set.\<close>

definition seen_models :: "instant \<Rightarrow> NodeState list \<Rightarrow> (string \<rightharpoonup> bool)" where
  "seen_models now ns =
     fold (\<lambda>n seen.
        if \<not> eligible now n then seen
        else fold (\<lambda>m seen. seen(model_Name m \<mapsto> True)) (ns_Models n) seen) ns Map.empty"

definition PoolModels :: "instant \<Rightarrow> string list \<Rightarrow> NodeState list \<Rightarrow> string list" where
  "PoolModels now order ns = sort (filter (\<lambda>name. seen_models now ns name \<noteq> None) order)"

record ErrNoNode =
  err_Model :: string
  err_Available :: "string list"

definition ErrNoNode_Error :: "ErrNoNode \<Rightarrow> string" where
  "ErrNoNode_Error e =
     (if err_Available e = [] then
        ''no node in the pool has model '' @ Quote (err_Model e) @
        '' and no models are available; pull one with `ollama pull` on any node''
      else
        ''no node in the pool has model '' @ Quote (err_Model e) @
        ''; available models: '' @ Join (err_Available e) '', '')"

text \<open>An offer is one listed model on one eligible node, in the order the loops meet them.\<close>

definition offers :: "instant \<Rightarrow> NodeState list \<Rightarrow> (NodeState \<times> Model) list" where
  "offers now ns = concat (map (\<lambda>n. map (Pair n) (ns_Models n)) (filter (eligible now) ns))"

definition served_names :: "instant \<Rightarrow> NodeState list \<Rightarrow> string set" where
  "served_names now ns = {model_Name m | n m. n \<in> set ns \<and> eligible now n \<and> m \<in> set (ns_Models n)}"

lemma set_offers: "set (offers now ns) = {(n, m). n \<in> set ns \<and> eligible now n \<and> m \<in> set (ns_Models n)}"
  by (auto simp: offers_def)

lemma dom_seen_models: "dom (seen_models now ns) = served_names now ns"
proof -
  have inner: "dom (fold (\<lambda>m seen. seen(model_Name m \<mapsto> True)) ms seen) = dom seen \<union> model_Name ` set ms"
    for ms :: "Model list" and seen
    by (induction ms arbitrary: seen) auto
  have "dom (fold (\<lambda>n seen. if \<not> eligible now n then seen
        else fold (\<lambda>m seen. seen(model_Name m \<mapsto> True)) (ns_Models n) seen) ns seen)
      = dom seen \<union> served_names now ns" for seen
    by (induction ns arbitrary: seen) (auto simp: inner served_names_def)
  from this [of Map.empty] show ?thesis by (simp add: seen_models_def)
qed

lemma served_names_offers: "served_names now ns = set (map (model_Name \<circ> snd) (offers now ns))"
  by (force simp: served_names_def set_offers)

lemma finite_served_names [simp]: "finite (served_names now ns)"
  by (simp add: served_names_offers)

lemma PoolModels_eq:
  assumes "iter_order (seen_models now ns) order"
  shows "PoolModels now order ns = sorted_list_of_set (served_names now ns)"
proof -
  have "filter (\<lambda>name. seen_models now ns name \<noteq> None) order = order"
    using assms by (auto simp: iter_order_def intro!: filter_True)
  then have "PoolModels now order ns = sort order" by (simp add: PoolModels_def)
  also have "\<dots> = sorted_list_of_set (set order)"
    using sorted_list_of_set_sort_remdups [of order] assms
    by (simp add: distinct_remdups_id iter_order_def)
  also have "set order = served_names now ns"
    using assms by (simp add: iter_order_def dom_seen_models)
  finally show ?thesis .
qed

text \<open>
  The list of models the pool serves has no duplicates, is sorted, and holds exactly the
  names listed by the nodes that share, whose Ollama answers and whose state is fresh; the order
  in which Go visits the map of names does not show in it.
\<close>

theorem PoolModels_exact:
  assumes "iter_order (seen_models now ns) order"
  shows "sorted (PoolModels now order ns) \<and> distinct (PoolModels now order ns) \<and>
    set (PoolModels now order ns) =
      {model_Name m | n m. n \<in> set ns \<and> ns_Sharing n \<and> ns_OllamaOK n \<and>
         now - ns_UpdatedAt n < 20 * second \<and> m \<in> set (ns_Models n)}"
proof -
  have "served_names now ns = {model_Name m | n m. n \<in> set ns \<and> ns_Sharing n \<and> ns_OllamaOK n \<and>
         now - ns_UpdatedAt n < 20 * second \<and> m \<in> set (ns_Models n)}"
    unfolding served_names_def eligible_def StaleAfter_def by blast
  then show ?thesis using PoolModels_eq [OF assms] by (metis distinct_sorted_list_of_set
      finite_served_names set_sorted_list_of_set sorted_sorted_list_of_set)
qed

section \<open>The ranking\<close>

datatype rank = Rank (rank_cold: bool) (rank_busy: int) (rank_free: u64)

instantiation rank :: linorder
begin

definition less_rank :: "rank \<Rightarrow> rank \<Rightarrow> bool" where
  "less_rank a b =
     (if rank_cold a \<noteq> rank_cold b then rank_cold b
      else if rank_busy a \<noteq> rank_busy b then rank_busy a < rank_busy b
      else rank_free b < rank_free a)"

definition less_eq_rank :: "rank \<Rightarrow> rank \<Rightarrow> bool" where
  "less_eq_rank a b = (a = b \<or> a < b)"

instance
proof
  fix a b c :: rank
  show "(a < b) = (a \<le> b \<and> \<not> b \<le> a)"
    by (auto simp: less_rank_def less_eq_rank_def split: if_splits)
  show "a \<le> a" by (simp add: less_eq_rank_def)
  show "a \<le> b \<Longrightarrow> b \<le> c \<Longrightarrow> a \<le> c"
    by (auto simp: less_rank_def less_eq_rank_def split: if_splits)
  show "a \<le> b \<Longrightarrow> b \<le> a \<Longrightarrow> a = b"
    by (auto simp: less_rank_def less_eq_rank_def split: if_splits)
  show "a \<le> b \<or> b \<le> a"
    by (cases a; cases b) (auto simp: less_rank_def less_eq_rank_def)
qed

end

definition rank_of :: "string \<Rightarrow> NodeState \<Rightarrow> rank" where
  "rank_of model n = Rank (\<not> HasLoaded n model) (ns_Active n) (mem_available n)"

section \<open>Choosing a node\<close>

definition pick_less :: "string \<Rightarrow> NodeState \<Rightarrow> NodeState \<Rightarrow> bool" where
  "pick_less model a b =
     (let al = HasLoaded a model; bl = HasLoaded b model in
      if al \<noteq> bl then al
      else if ns_Active a \<noteq> ns_Active b then ns_Active a < ns_Active b
      else mem_available a > mem_available b)"

definition candidates :: "instant \<Rightarrow> NodeState list \<Rightarrow> string \<Rightarrow> NodeState list" where
  "candidates now ns model = filter (\<lambda>n. eligible now n \<and> HasModel n model) ns"

definition Pick :: "instant \<Rightarrow> string list \<Rightarrow> NodeState list \<Rightarrow> string \<Rightarrow> ErrNoNode + NodeState" where
  "Pick now order ns model =
     (let cs = candidates now ns model in
      if cs = [] then Inl \<lparr>err_Model = model, err_Available = PoolModels now order ns\<rparr>
      else Inr (hd (SliceStable (pick_less model) cs)))"

lemma pick_less_rank: "pick_less model = (\<lambda>a b. rank_of model a < rank_of model b)"
  by (auto simp: pick_less_def rank_of_def less_rank_def Let_def fun_eq_iff)

lemma set_candidates [simp]:
  "set (candidates now ns model) = {n \<in> set ns. eligible now n \<and> HasModel n model}"
  by (simp add: candidates_def)

text \<open>The specification: the first candidate of least rank.\<close>

fun first_least :: "('a \<Rightarrow> 'k::linorder) \<Rightarrow> 'a list \<Rightarrow> 'a option" where
  "first_least f [] = None"
| "first_least f (x # xs) =
     (case first_least f xs of
        None \<Rightarrow> Some x
      | Some y \<Rightarrow> if f y < f x then Some y else Some x)"

lemma first_least_None [simp]: "first_least f xs = None \<longleftrightarrow> xs = []"
  by (cases xs) (auto split: option.splits)

lemma first_least_le: "first_least f xs = Some y \<Longrightarrow> y \<in> set xs \<and> (\<forall>x \<in> set xs. f y \<le> f x)"
  by (induction xs arbitrary: y) (auto split: option.splits if_splits)

lemma first_least_first:
  "first_least f xs = Some y \<Longrightarrow> \<exists>us vs. xs = us @ y # vs \<and> (\<forall>x \<in> set us. f y < f x)"
proof (induction xs arbitrary: y)
  case (Cons x xs)
  show ?case
  proof (cases "first_least f xs")
    case None
    with Cons.prems have "x # xs = [] @ y # [] \<and> (\<forall>x \<in> set []. f y < f x)" by simp
    then show ?thesis by blast
  next
    case (Some z)
    show ?thesis
    proof (cases "f z < f x")
      case True
      with Some Cons.prems have "z = y" by simp
      with Some Cons.IH obtain us vs where "xs = us @ y # vs" "\<forall>x \<in> set us. f y < f x" by blast
      with True \<open>z = y\<close> have "x # xs = (x # us) @ y # vs \<and> (\<forall>x \<in> set (x # us). f y < f x)" by simp
      then show ?thesis by blast
    next
      case False
      with Some Cons.prems have "x = y" by simp
      then have "x # xs = [] @ y # xs \<and> (\<forall>x \<in> set []. f y < f x)" by simp
      then show ?thesis by blast
    qed
  qed
qed simp

lemma hd_insort_key: "hd (insort_key f x xs) = (if xs = [] \<or> f x \<le> f (hd xs) then x else hd xs)"
  by (cases xs) auto

lemma hd_sort_key: "xs \<noteq> [] \<Longrightarrow> first_least f xs = Some (hd (sort_key f xs))"
proof (induction xs)
  case (Cons x xs)
  show ?case
  proof (cases "xs = []")
    case False
    moreover from False have "sort_key f xs \<noteq> []" by (metis length_0_conv length_sort)
    ultimately show ?thesis using Cons.IH by (auto simp: hd_insort_key)
  qed simp
qed simp

lemma Pick_least:
  "Pick now order ns model =
     (case first_least (rank_of model) (filter (\<lambda>n. eligible now n \<and> HasModel n model) ns) of
        None \<Rightarrow> Inl \<lparr>err_Model = model, err_Available = PoolModels now order ns\<rparr>
      | Some n \<Rightarrow> Inr n)"
proof (cases "candidates now ns model = []")
  case True
  then show ?thesis by (simp add: Pick_def candidates_def)
next
  case False
  then have "first_least (rank_of model) (candidates now ns model)
      = Some (hd (SliceStable (pick_less model) (candidates now ns model)))"
    unfolding pick_less_rank SliceStable_key by (rule hd_sort_key)
  with False show ?thesis by (simp add: Pick_def candidates_def)
qed

text \<open>
  \<^verbatim>\<open>Pick\<close> is the specification "the first candidate of least rank, or the error that lists
  what the pool serves", for every pool and model.
\<close>

theorem Pick_refines:
  "Pick now order ns model =
     (case first_least (rank_of model) (filter (\<lambda>n. eligible now n \<and> HasModel n model) ns) of
        None \<Rightarrow> Inl \<lparr>err_Model = model, err_Available = PoolModels now order ns\<rparr>
      | Some n \<Rightarrow> Inr n)"
  by (rule Pick_least)

lemma Pick_InrD:
  assumes "Pick now order ns model = Inr n"
  shows "first_least (rank_of model) (candidates now ns model) = Some n"
  using assms by (simp add: Pick_least candidates_def split: option.splits)

lemma Pick_eligible:
  assumes "Pick now order ns model = Inr n"
  shows "n \<in> set ns" "eligible now n" "HasModel n model"
  using first_least_le [OF Pick_InrD [OF assms]] by auto

lemma Pick_Inl: "Pick now order ns model = Inl e \<Longrightarrow> \<forall>n \<in> set ns. \<not> (eligible now n \<and> HasModel n model)"
  by (auto simp: Pick_def Let_def candidates_def filter_empty_conv split: if_splits)

text \<open>
  C1.  The chosen node shares its compute, answers, is fresh and has the model, and no other such
  node is better: one that has the model loaded beats all that have not; among equals the least
  busy wins, then the one with most free memory.
\<close>

theorem Pick_best:
  assumes "Pick now order ns model = Inr n"
  shows "n \<in> set ns \<and> eligible now n \<and> HasModel n model \<and>
    (\<forall>c \<in> set ns. eligible now c \<longrightarrow> HasModel c model \<longrightarrow>
       (HasLoaded c model \<longrightarrow> HasLoaded n model) \<and>
       (HasLoaded c model = HasLoaded n model \<longrightarrow>
          ns_Active n \<le> ns_Active c \<and>
          (ns_Active n = ns_Active c \<longrightarrow> mem_available c \<le> mem_available n)))"
proof -
  have "n \<in> set (candidates now ns model)"
    and le: "\<And>c. c \<in> set (candidates now ns model) \<Longrightarrow> rank_of model n \<le> rank_of model c"
    using first_least_le [OF Pick_InrD [OF assms]] by blast+
  moreover have "(HasLoaded c model \<longrightarrow> HasLoaded n model) \<and>
       (HasLoaded c model = HasLoaded n model \<longrightarrow>
          ns_Active n \<le> ns_Active c \<and>
          (ns_Active n = ns_Active c \<longrightarrow> mem_available c \<le> mem_available n))"
    if "c \<in> set (candidates now ns model)" for c
    using le [OF that] by (auto simp: rank_of_def less_eq_rank_def less_rank_def split: if_splits)
  ultimately show ?thesis unfolding set_candidates by blast
qed

text \<open>The pool of the examples: a cold, a busy warm and an idle warm node, and a stale one.\<close>

definition example_model :: "string \<Rightarrow> u64 \<Rightarrow> Model" where
  "example_model name sz = \<lparr>model_Name = name, model_Size = sz, model_Family = [],
     model_Parameters = [], model_Quant = []\<rparr>"

definition example_pool :: "NodeState list" where
  "example_pool =
     [example_node ''cold'' 100 \<lparr>ns_Models := [example_model ''m:latest'' 4]\<rparr>,
      example_node ''busy'' 100 \<lparr>ns_Models := [example_model ''m:latest'' 4], ns_Loaded := [''m:latest''],
        ns_Active := 3\<rparr>,
      example_node ''warm'' 100 \<lparr>ns_Models := [example_model ''m'' 4], ns_Loaded := [''m''], ns_Active := 1\<rparr>,
      example_node ''gone'' (100 - 20 * second) \<lparr>ns_Models := [example_model ''m'' 4, example_model ''x'' 1],
        ns_Loaded := [''m'']\<rparr>]"

lemmas pool_example_defs = example_pool_def example_model_def example_defs model_matches_def
  latest_tag_def eligible_def StaleAfter_def HasModel_def HasLoaded_def rank_of_def less_rank_def

lemma example_pick: "Pick 100 order example_pool ''m'' =
    Inr (example_node ''warm'' 100 \<lparr>ns_Models := [example_model ''m'' 4], ns_Loaded := [''m''], ns_Active := 1\<rparr>)"
  by (simp add: Pick_least pool_example_defs)

theorem Pick_best_witness:
  "ns_Name (projr (Pick 100 [] example_pool ''m'')) = ''warm'' \<and>
   eligible 100 (projr (Pick 100 [] example_pool ''m''))"
  using Pick_best [OF example_pick [of "[]"]] unfolding example_pick
  by (simp add: example_node_def)

lemma example_served: "served_names 100 example_pool = {''m'', ''m:latest''}"
  unfolding served_names_offers by (auto simp: offers_def pool_example_defs)

lemma example_order: "iter_order (seen_models 100 example_pool) [''m'', ''m:latest'']"
  by (simp add: iter_order_def dom_seen_models example_served)

theorem PoolModels_exact_witness:
  "distinct (PoolModels 100 [''m'', ''m:latest''] example_pool)"
  using PoolModels_exact [OF example_order] by blast

text \<open>
  Ties go to the node that comes first in the snapshot: every candidate listed before the
  chosen node is strictly worse.
\<close>

theorem Pick_first_among_equals:
  assumes "Pick now order ns model = Inr n"
  shows "\<exists>us vs. candidates now ns model = us @ n # vs \<and>
    (\<forall>c \<in> set us. pick_less model n c)"
  using first_least_first [OF Pick_InrD [OF assms]] by (simp add: pick_less_rank)

theorem Pick_first_among_equals_witness:
  "\<exists>us vs. candidates 100 example_pool ''m'' =
     us @ example_node ''warm'' 100 \<lparr>ns_Models := [example_model ''m'' 4], ns_Loaded := [''m''], ns_Active := 1\<rparr> # vs"
  using Pick_first_among_equals [OF example_pick [of "[]"]] by blast

text \<open>
  C30.  The error is returned exactly when no eligible node has the model, it names the model, and
  its message quotes every model the pool can serve instead.
\<close>

theorem Pick_error:
  assumes "iter_order (seen_models now ns) order"
  shows "((\<exists>e. Pick now order ns model = Inl e) \<longleftrightarrow>
      (\<forall>n \<in> set ns. \<not> (eligible now n \<and> HasModel n model))) \<and>
    (\<forall>e. Pick now order ns model = Inl e \<longrightarrow>
      err_Model e = model \<and> set (err_Available e) = served_names now ns \<and>
      (\<forall>m \<in> served_names now ns. sublist m (ErrNoNode_Error e)))"
proof (intro conjI allI impI)
  show "(\<exists>e. Pick now order ns model = Inl e) \<longleftrightarrow>
      (\<forall>n \<in> set ns. \<not> (eligible now n \<and> HasModel n model))"
    by (auto simp: Pick_def Let_def candidates_def filter_empty_conv)
next
  fix e
  assume "Pick now order ns model = Inl e"
  then have e: "e = \<lparr>err_Model = model, err_Available = PoolModels now order ns\<rparr>"
    by (simp add: Pick_def Let_def split: if_splits)
  then show "err_Model e = model" and av: "set (err_Available e) = served_names now ns"
    using PoolModels_eq [OF assms] by simp_all
  have listed: "sublist m (pre @ Join (err_Available e) sep)" if "m \<in> set (err_Available e)" for m pre sep
    using sublist_Join [OF that, of sep] by (simp add: sublist_append)
  show "\<forall>m \<in> served_names now ns. sublist m (ErrNoNode_Error e)"
  proof
    fix m
    assume m: "m \<in> served_names now ns"
    with av have "err_Available e \<noteq> []" by auto
    then have "ErrNoNode_Error e = (''no node in the pool has model '' @ Quote (err_Model e) @
        ''; available models: '') @ Join (err_Available e) '', ''"
      by (simp add: ErrNoNode_Error_def)
    with m av show "sublist m (ErrNoNode_Error e)" by (metis listed)
  qed
qed

theorem Pick_error_witness:
  "sublist ''m:latest'' (ErrNoNode_Error (projl (Pick 100 [''m'', ''m:latest''] example_pool ''nope'')))"
proof -
  have "\<forall>n \<in> set example_pool. \<not> (eligible 100 n \<and> HasModel n ''nope'')"
    by (simp add: pool_example_defs)
  with Pick_error [OF example_order, of "''nope''"] obtain e where
    e: "Pick 100 [''m'', ''m:latest''] example_pool ''nope'' = Inl e" by blast
  then show ?thesis using Pick_error [OF example_order, of "''nope''"] by (simp add: example_served)
qed

text \<open>
  C31.  The listing and the routing agree: every model the pool advertises can be requested by its
  name and is served, and every request that is served is for an advertised model, up to the
  default tag.
\<close>

theorem PoolModels_servable:
  assumes "iter_order (seen_models now ns) order"
  shows "(\<forall>m \<in> set (PoolModels now order ns). \<exists>n. Pick now order ns m = Inr n) \<and>
    (\<forall>model n. Pick now order ns model = Inr n \<longrightarrow>
       (\<exists>m \<in> set (PoolModels now order ns). model_matches m model))"
proof (intro conjI ballI allI impI)
  fix m
  assume "m \<in> set (PoolModels now order ns)"
  then obtain n m' where "n \<in> set ns" "eligible now n" "m' \<in> set (ns_Models n)" "m = model_Name m'"
    unfolding PoolModels_eq [OF assms] set_sorted_list_of_set [OF finite_served_names]
    by (auto simp: served_names_def)
  then have "n \<in> set (candidates now ns m)"
    by (auto simp: HasModel_iff intro: bexI [of _ m'])
  then have "candidates now ns m \<noteq> []" by force
  then show "\<exists>n. Pick now order ns m = Inr n"
    by (simp add: Pick_def Let_def)
next
  fix model n
  assume "Pick now order ns model = Inr n"
  from Pick_eligible [OF this] obtain m where "n \<in> set ns" "eligible now n" "m \<in> set (ns_Models n)"
      "model_matches (model_Name m) model"
    by (auto simp: HasModel_iff)
  then show "\<exists>m \<in> set (PoolModels now order ns). model_matches m model"
    unfolding PoolModels_eq [OF assms] set_sorted_list_of_set [OF finite_served_names]
    by (auto simp: served_names_def)
qed

theorem PoolModels_servable_witness:
  "\<exists>n. Pick 100 [''m'', ''m:latest''] example_pool ''m:latest'' = Inr n"
  using PoolModels_servable [OF example_order] PoolModels_eq [OF example_order]
  by (simp add: example_served)

section \<open>Model details\<close>

record ModelDetail =
  md_Model :: Model
  md_Nodes :: "string list"

text \<open>One turn of the inner loop: the first node that lists a model makes its entry.\<close>

definition add_detail ::
  "NodeState \<Rightarrow> Model \<Rightarrow> (string \<rightharpoonup> ModelDetail) \<Rightarrow> (string \<rightharpoonup> ModelDetail)" where
  "add_detail n m byName =
     (let d = (case byName (model_Name m) of Some d \<Rightarrow> d | None \<Rightarrow> \<lparr>md_Model = m, md_Nodes = []\<rparr>)
      in byName(model_Name m \<mapsto> d\<lparr>md_Nodes := md_Nodes d @ [ns_Name n]\<rparr>))"

definition details_by_name :: "instant \<Rightarrow> NodeState list \<Rightarrow> (string \<rightharpoonup> ModelDetail)" where
  "details_by_name now ns =
     fold (\<lambda>n byName.
        if \<not> eligible now n then byName else fold (add_detail n) (ns_Models n) byName) ns Map.empty"

definition PoolModelDetails ::
  "instant \<Rightarrow> ((ModelDetail \<Rightarrow> ModelDetail \<Rightarrow> bool) \<Rightarrow> ModelDetail list \<Rightarrow> ModelDetail list)
    \<Rightarrow> string list \<Rightarrow> NodeState list \<Rightarrow> ModelDetail list" where
  "PoolModelDetails now srt order ns =
     srt (\<lambda>a b. model_Name (md_Model a) < model_Name (md_Model b))
       (map (\<lambda>d. d\<lparr>md_Nodes := sort (md_Nodes d)\<rparr>) (map_values (details_by_name now ns) order))"

text \<open>What the entry of a name is to be: the first offer's model, with the names of all offers.\<close>

definition offers_of :: "instant \<Rightarrow> NodeState list \<Rightarrow> string \<Rightarrow> (NodeState \<times> Model) list" where
  "offers_of now ns name = filter (\<lambda>(n, m). model_Name m = name) (offers now ns)"

definition detail_of :: "(NodeState \<times> Model) list \<Rightarrow> ModelDetail" where
  "detail_of os = \<lparr>md_Model = snd (hd os), md_Nodes = map (ns_Name \<circ> fst) os\<rparr>"

lemma fold_add_detail:
  "fold (\<lambda>(n, m). add_detail n m) os Map.empty name =
     (let fs = filter (\<lambda>(n, m). model_Name m = name) os in if fs = [] then None else Some (detail_of fs))"
proof (induction os rule: rev_induct)
  case (snoc x os)
  obtain n m where "x = (n, m)" by fastforce
  with snoc show ?case by (auto simp: add_detail_def detail_of_def Let_def hd_append)
qed simp

lemma details_by_name_offers:
  "details_by_name now ns = fold (\<lambda>(n, m). add_detail n m) (offers now ns) Map.empty"
proof -
  have inner: "fold (\<lambda>(n, m). add_detail n m) (map (Pair n) ms) b = fold (add_detail n) ms b" for n ms b
    by (induction ms arbitrary: b) simp_all
  have "fold (\<lambda>n byName. if \<not> eligible now n then byName else fold (add_detail n) (ns_Models n) byName) ns b
      = fold (\<lambda>(n, m). add_detail n m) (offers now ns) b" for b
    by (induction ns arbitrary: b) (simp_all add: offers_def inner)
  then show ?thesis by (simp add: details_by_name_def)
qed

lemma details_by_name_Some:
  "details_by_name now ns name =
     (if offers_of now ns name = [] then None else Some (detail_of (offers_of now ns name)))"
  by (simp add: details_by_name_offers fold_add_detail offers_of_def Let_def)

lemma offers_of_empty: "offers_of now ns name = [] \<longleftrightarrow> name \<notin> served_names now ns"
  by (force simp: offers_of_def filter_empty_conv served_names_offers)

lemma dom_details: "dom (details_by_name now ns) = served_names now ns"
  by (auto simp: dom_def details_by_name_Some offers_of_empty)

lemma detail_of_name: "name \<in> served_names now ns \<Longrightarrow>
    model_Name (md_Model (detail_of (offers_of now ns name))) = name"
proof -
  assume "name \<in> served_names now ns"
  then have "hd (offers_of now ns name) \<in> set (offers_of now ns name)"
    by (metis offers_of_empty hd_in_set)
  then show ?thesis by (auto simp: detail_of_def offers_of_def)
qed

text \<open>
  C32.  The detailed listing has one entry per served name, in the order of the names (so it lists
  the same models as \<^verbatim>\<open>PoolModels\<close>), each with the data of the first node that lists the model and
  the sorted names of all that do; neither the order in which Go visits its map nor the choices of
  an unstable sort show in it.
\<close>

theorem PoolModelDetails_exact:
  assumes "slice_sort srt" and "iter_order (details_by_name now ns) order"
  shows "PoolModelDetails now srt order ns =
    map (\<lambda>name. \<lparr>md_Model = snd (hd (offers_of now ns name)),
                 md_Nodes = sort (map (ns_Name \<circ> fst) (offers_of now ns name))\<rparr>)
      (sorted_list_of_set (served_names now ns))"
proof -
  let ?d = "\<lambda>name. (detail_of (offers_of now ns name))
      \<lparr>md_Nodes := sort (md_Nodes (detail_of (offers_of now ns name)))\<rparr>"
  let ?key = "\<lambda>d. model_Name (md_Model d)"
  let ?r = "PoolModelDetails now srt order ns"
  have order: "set order = served_names now ns" "distinct order"
    using assms(2) by (simp_all add: iter_order_def dom_details)
  have vals: "map (\<lambda>d. d\<lparr>md_Nodes := sort (md_Nodes d)\<rparr>) (map_values (details_by_name now ns) order)
      = map ?d order"
    unfolding map_values_map [OF assms(2)] map_map
    using order by (auto simp: details_by_name_Some offers_of_empty)
  have key: "?key (?d name) = name" if "name \<in> served_names now ns" for name
    using detail_of_name [OF that] by simp
  have "map ?key ?r = sort (map ?key (map ?d order))"
    unfolding PoolModelDetails_def vals by (rule slice_sort.srt_keys [OF assms(1)])
  also have "map ?key (map ?d order) = order"
    unfolding map_map using order key by (intro map_idI) auto
  also have "sort order = sorted_list_of_set (served_names now ns)"
    using sorted_list_of_set_sort_remdups [of order] order by (simp add: distinct_remdups_id)
  finally have keys: "map ?key ?r = sorted_list_of_set (served_names now ns)" .
  have "set ?r = ?d ` served_names now ns"
    unfolding PoolModelDetails_def vals slice_sort.srt_set [OF assms(1) strict_weak_key]
    using order by simp
  then have "?r = map ?d (map ?key ?r)"
    unfolding map_map using key by (intro map_idI [symmetric]) auto
  then show ?thesis unfolding keys by (simp add: detail_of_def cong: map_cong)
qed

theorem PoolModelDetails_exact_witness:
  "length (PoolModelDetails 100 insertionSort [''m:latest'', ''m''] example_pool) = 2"
proof -
  have "iter_order (details_by_name 100 example_pool) [''m:latest'', ''m'']"
    by (auto simp: iter_order_def dom_details example_served)
  from PoolModelDetails_exact [OF slice_sort_insertionSort this] show ?thesis
    by (simp add: example_served)
qed

end
