(* ===== verification/SplitPlan.thy ===== *)
theory SplitPlan
  imports Scheduler
begin

text \<open>
  \<^verbatim>\<open>internal/scheduler/splitplan.go\<close>: the decision to run a model across devices.  The choices
  Go leaves to its implementation are a \<open>platform\<close>: how \<^verbatim>\<open>sort.Slice\<close> orders equal elements, and
  what the conversion of a too large \<^verbatim>\<open>float64\<close> yields.  Capacities are 64-bit words that wrap, as
  in the code; the theorems speak of the natural numbers they stand for and say where wrapping
  must be excluded.
\<close>

record platform =
  sort_nodes :: "(NodeState \<Rightarrow> NodeState \<Rightarrow> bool) \<Rightarrow> NodeState list \<Rightarrow> NodeState list"
  f64_oor :: "nat \<Rightarrow> u64"

definition platform_ok :: "platform \<Rightarrow> bool" where
  "platform_ok P \<longleftrightarrow> slice_sort (sort_nodes P)"

definition example_platform :: platform where
  "example_platform = \<lparr>sort_nodes = insertionSort, f64_oor = (\<lambda>_. 0)\<rparr>"

lemma example_platform_ok [simp]: "platform_ok example_platform"
  by (simp add: platform_ok_def example_platform_def)

record Plan =
  plan_Driver :: NodeState
  plan_Workers :: "NodeState list"
  plan_ModelSize :: u64
  plan_Need :: u64

datatype PlanError =
  NoDriver (pe_model: string) (pe_size_gib: u64)
| CannotFit (pe_model: string) (pe_need_gib: u64) (pe_capacity_gib: u64) (pe_driver: string)
    (pe_workers: nat)

text \<open>The largest size any holder lists for the model: the inner loop of the first pass.\<close>

definition listed_size :: "string \<Rightarrow> NodeState \<Rightarrow> u64 \<Rightarrow> u64" where
  "listed_size model n sz =
     fold (\<lambda>m sz. if model_matches (model_Name m) model \<and> model_Size m > sz then model_Size m else sz)
       (ns_Models n) sz"

definition usable_of :: "platform \<Rightarrow> NodeState \<Rightarrow> u64" where
  "usable_of P n = Usable (f64_oor P) (mem_available n)"

definition more_memory :: "NodeState \<Rightarrow> NodeState \<Rightarrow> bool" where
  "more_memory a b \<longleftrightarrow> mem_available a > mem_available b"

fun recruit :: "platform \<Rightarrow> u64 \<Rightarrow> u64 \<Rightarrow> NodeState list \<Rightarrow> NodeState list \<times> u64" where
  "recruit P need capacity [] = ([], capacity)"
| "recruit P need capacity (n # ns) =
     (if capacity \<ge> need then ([], capacity)
      else apfst (Cons n) (recruit P need (capacity + usable_of P n) ns))"

definition worker_candidates :: "platform \<Rightarrow> instant \<Rightarrow> NodeState \<Rightarrow> NodeState list \<Rightarrow> NodeState list" where
  "worker_candidates P now driver ns =
     sort_nodes P more_memory
       (filter (\<lambda>n. eligible now n \<and> ss_Worker (ns_Split n) \<and> ns_ID n \<noteq> ns_ID driver) ns)"

definition PlanSplit :: "platform \<Rightarrow> instant \<Rightarrow> NodeState list \<Rightarrow> string \<Rightarrow> PlanError + Plan option" where
  "PlanSplit P now ns model =
     (let holders = filter (\<lambda>n. eligible now n \<and> HasModel n model) ns;
          sz = fold (listed_size model) holders 0
      in if holders = [] \<or> sz = 0 then Inr None
      else
        let need = Need (f64_oor P) sz in
        if list_ex (\<lambda>n. usable_of P n \<ge> need) holders then Inr None
        else
          let drivers = filter (\<lambda>n. ss_Driver (ns_Split n)) holders in
          if drivers = [] then Inl (NoDriver model (drop_bit 30 sz))
          else
            let driver = hd (sort_nodes P more_memory drivers);
                (workers, capacity) = recruit P need (usable_of P driver) (worker_candidates P now driver ns)
            in if capacity < need
               then Inl (CannotFit model (drop_bit 30 need) (drop_bit 30 capacity) (ns_Name driver) (length workers))
               else Inr (Some \<lparr>plan_Driver = driver, plan_Workers = workers, plan_ModelSize = sz,
                               plan_Need = need\<rparr>))"

section \<open>Sorting by free memory\<close>

lemma strict_weak_more_memory [go_sort, simp]: "strict_weak more_memory"
  by (auto simp: strict_weak_def equiv_by_def more_memory_def)

lemma platform_sort: "platform_ok P \<Longrightarrow> mset (sort_nodes P more_memory ns) = mset ns"
  by (simp add: platform_ok_def slice_sort.srt_mset)

lemma platform_sort_set: "platform_ok P \<Longrightarrow> set (sort_nodes P more_memory ns) = set ns"
  by (metis platform_sort set_mset_mset)

lemma platform_sorted:
  "platform_ok P \<Longrightarrow> sorted_wrt (\<lambda>a b. mem_available b \<le> mem_available a) (sort_nodes P more_memory ns)"
  using slice_sort.srt_sorted [OF _ strict_weak_more_memory, of "sort_nodes P" ns]
  by (simp add: platform_ok_def sorted_by_def more_memory_def not_less)

lemma platform_hd:
  assumes "platform_ok P" and "ns \<noteq> []"
  shows "hd (sort_nodes P more_memory ns) \<in> set ns"
    and "n \<in> set ns \<Longrightarrow> mem_available n \<le> mem_available (hd (sort_nodes P more_memory ns))"
  using slice_sort.srt_hd_minimal [OF _ strict_weak_more_memory assms(2), of "sort_nodes P"] assms(1)
  by (auto simp: platform_ok_def more_memory_def not_less)

section \<open>Capacity as a natural number\<close>

definition capacity_of :: "platform \<Rightarrow> NodeState list \<Rightarrow> nat" where
  "capacity_of P ns = (\<Sum>n \<leftarrow> ns. unat (usable_of P n))"

lemma capacity_simps [simp]:
  "capacity_of P [] = 0"
  "capacity_of P (n # ns) = unat (usable_of P n) + capacity_of P ns"
  "capacity_of P (ns @ ms) = capacity_of P ns + capacity_of P ms"
  by (simp_all add: capacity_of_def)

lemma capacity_mset: "mset ns = mset ms \<Longrightarrow> capacity_of P ns = capacity_of P ms"
  unfolding capacity_of_def by (metis mset_map sum_mset_sum_list)

lemma capacity_mset_le: "mset ns \<subseteq># mset ms \<Longrightarrow> capacity_of P ns \<le> capacity_of P ms"
  unfolding capacity_of_def by (rule sum_list_mset_le) (simp add: image_mset_subseteq_mono)

lemma capacity_le_memory: "capacity_of P ns \<le> (\<Sum>n \<leftarrow> ns. unat (mem_available n))"
  unfolding capacity_of_def usable_of_def
  by (rule sum_list_mono) (simp add: Usable_unat usable_nat_le)

lemma usable_of_mono: "mem_available a \<le> mem_available b \<Longrightarrow> unat (usable_of P a) \<le> unat (usable_of P b)"
  unfolding usable_of_def by (simp add: Usable_mono flip: word_le_nat_alt)

section \<open>The recruiting loop\<close>

text \<open>The loop takes a prefix of the candidates, and its capacity never exceeds the true one.\<close>

lemma recruit_prefix: "\<exists>rest. ns = fst (recruit P need c ns) @ rest"
  by (induction P need c ns rule: recruit.induct) auto

lemma recruit_capacity_le: "unat (snd (recruit P need c ns)) \<le> unat c + capacity_of P (fst (recruit P need c ns))"
proof (induction P need c ns rule: recruit.induct)
  case (2 P need c n ns)
  then show ?case
    using unat_plus_le [of c "usable_of P n"] by (auto simp: not_le)
qed simp

lemma recruit_exact:
  assumes "unat c + capacity_of P ns < 2 ^ 64"
  shows "unat (snd (recruit P need c ns)) = unat c + capacity_of P (fst (recruit P need c ns))"
  using assms
proof (induction P need c ns rule: recruit.induct)
  case (2 P need c n ns)
  have "unat (c + usable_of P n) = unat c + unat (usable_of P n)"
    using 2 by (intro unat_plus_nowrap) simp
  with 2 show ?case by simp
qed simp

text \<open>It stops early: without its last worker the capacity would not do.\<close>

lemma recruit_minimal:
  assumes "unat c + capacity_of P ns < 2 ^ 64" and "fst (recruit P need c ns) \<noteq> []"
  shows "unat c + capacity_of P (butlast (fst (recruit P need c ns))) < unat need"
  using assms
proof (induction P need c ns rule: recruit.induct)
  case (2 P need c n ns)
  have u: "unat (c + usable_of P n) = unat c + unat (usable_of P n)"
    using 2 by (intro unat_plus_nowrap) simp
  have "\<not> need \<le> c" using 2 by auto
  then have "unat c < unat need" by (simp add: not_le word_less_nat_alt)
  with 2 u show ?case by (cases "fst (recruit P need (c + usable_of P n) ns) = []") auto
qed simp

lemma recruit_all:
  "snd (recruit P need c ns) < need \<Longrightarrow> fst (recruit P need c ns) = ns"
  by (induction P need c ns rule: recruit.induct) auto

section \<open>The plan\<close>

definition plan_size :: "instant \<Rightarrow> NodeState list \<Rightarrow> string \<Rightarrow> u64" where
  "plan_size now ns model = fold (listed_size model) (candidates now ns model) 0"

definition plan_drivers :: "instant \<Rightarrow> NodeState list \<Rightarrow> string \<Rightarrow> NodeState list" where
  "plan_drivers now ns model = filter (\<lambda>n. ss_Driver (ns_Split n)) (candidates now ns model)"

definition plan_driver :: "platform \<Rightarrow> instant \<Rightarrow> NodeState list \<Rightarrow> string \<Rightarrow> NodeState" where
  "plan_driver P now ns model = hd (sort_nodes P more_memory (plan_drivers now ns model))"

definition plan_need :: "platform \<Rightarrow> instant \<Rightarrow> NodeState list \<Rightarrow> string \<Rightarrow> u64" where
  "plan_need P now ns model = Need (f64_oor P) (plan_size now ns model)"

definition recruited :: "platform \<Rightarrow> instant \<Rightarrow> NodeState list \<Rightarrow> string \<Rightarrow> NodeState list \<times> u64" where
  "recruited P now ns model =
     (let d = plan_driver P now ns model
      in recruit P (plan_need P now ns model) (usable_of P d) (worker_candidates P now d ns))"

text \<open>The function once more, with its intermediate values named.\<close>

lemma PlanSplit_eq:
  "PlanSplit P now ns model =
     (if candidates now ns model = [] \<or> plan_size now ns model = 0 then Inr None
      else if list_ex (\<lambda>n. usable_of P n \<ge> plan_need P now ns model) (candidates now ns model) then Inr None
      else if plan_drivers now ns model = [] then Inl (NoDriver model (drop_bit 30 (plan_size now ns model)))
      else if snd (recruited P now ns model) < plan_need P now ns model
        then Inl (CannotFit model (drop_bit 30 (plan_need P now ns model))
          (drop_bit 30 (snd (recruited P now ns model))) (ns_Name (plan_driver P now ns model))
          (length (fst (recruited P now ns model))))
      else Inr (Some \<lparr>plan_Driver = plan_driver P now ns model, plan_Workers = fst (recruited P now ns model),
        plan_ModelSize = plan_size now ns model, plan_Need = plan_need P now ns model\<rparr>))"
  by (simp add: PlanSplit_def candidates_def plan_size_def plan_drivers_def plan_driver_def plan_need_def
      recruited_def Let_def case_prod_beta)

lemma set_worker_candidates:
  "platform_ok P \<Longrightarrow> set (worker_candidates P now d ns) =
     {n \<in> set ns. eligible now n \<and> ss_Worker (ns_Split n) \<and> ns_ID n \<noteq> ns_ID d}"
  by (simp add: worker_candidates_def platform_sort_set)

lemma mset_worker_candidates:
  "platform_ok P \<Longrightarrow> mset (worker_candidates P now d ns) =
     filter_mset (\<lambda>n. eligible now n \<and> ss_Worker (ns_Split n) \<and> ns_ID n \<noteq> ns_ID d) (mset ns)"
  by (simp add: worker_candidates_def platform_sort)

lemma plan_driver_mem:
  assumes "platform_ok P" and "plan_drivers now ns model \<noteq> []"
  shows "plan_driver P now ns model \<in> set ns" and "eligible now (plan_driver P now ns model)"
    and "HasModel (plan_driver P now ns model) model" and "ss_Driver (ns_Split (plan_driver P now ns model))"
  using platform_hd(1) [OF assms] by (simp_all add: plan_driver_def plan_drivers_def)

lemma driver_and_workers_mset:
  assumes "platform_ok P" and "d \<in> set ns"
  shows "mset (d # worker_candidates P now d ns) \<subseteq># mset ns"
proof -
  have "filter_mset (\<lambda>n. eligible now n \<and> ss_Worker (ns_Split n) \<and> ns_ID n \<noteq> ns_ID d) (mset ns)
      \<subseteq># filter_mset (\<lambda>n. n \<noteq> d) (mset ns)"
    by (rule filter_mset_mono_strong) auto
  moreover have "add_mset d (filter_mset (\<lambda>n. n \<noteq> d) (mset ns)) \<subseteq># mset ns"
    using assms(2) by (simp add: insert_subset_eq_iff subseteq_mset_def)
  ultimately show ?thesis
    unfolding mset.simps mset_worker_candidates [OF assms(1)]
    by (meson mset_subset_eq_add_mset_cancel subset_mset.order_trans)
qed

lemma recruited_workers:
  "set (fst (recruited P now ns model)) \<subseteq> set (worker_candidates P now (plan_driver P now ns model) ns)"
  unfolding recruited_def Let_def by (metis recruit_prefix Un_upper1 set_append)

lemma PlanSplit_SomeD:
  assumes "PlanSplit P now ns model = Inr (Some p)"
  shows "plan_Driver p = plan_driver P now ns model" and "plan_Workers p = fst (recruited P now ns model)"
    and "plan_Need p = plan_need P now ns model" and "plan_ModelSize p = plan_size now ns model"
    and "plan_drivers now ns model \<noteq> []" and "plan_need P now ns model \<le> snd (recruited P now ns model)"
    and "\<forall>n \<in> set (candidates now ns model). usable_of P n < plan_need P now ns model"
  using assms by (auto simp: PlanSplit_eq list_ex_iff not_le split: if_splits)

text \<open>
  C3.  A plan is feasible: its driver is an eligible holder of the model that has \<^verbatim>\<open>llama-server\<close>,
  its workers are eligible nodes other than the driver that have \<^verbatim>\<open>rpc-server\<close>, the memory a
  pipeline may claim on them covers the need of the largest listed copy, even where 64-bit sums
  wrap, and it was made only because no holder could run the model alone; so it has a worker.
\<close>

theorem PlanSplit_sound:
  assumes "platform_ok P" and "PlanSplit P now ns model = Inr (Some p)"
  shows "plan_Driver p \<in> set ns \<and> eligible now (plan_Driver p) \<and> HasModel (plan_Driver p) model \<and>
      ss_Driver (ns_Split (plan_Driver p)) \<and>
    (\<forall>w \<in> set (plan_Workers p). w \<in> set ns \<and> eligible now w \<and> ss_Worker (ns_Split w) \<and>
      ns_ID w \<noteq> ns_ID (plan_Driver p)) \<and>
    unat (plan_Need p) \<le> capacity_of P (plan_Driver p # plan_Workers p) \<and>
    (\<forall>n \<in> set ns. eligible now n \<and> HasModel n model \<longrightarrow> usable_of P n < plan_Need p) \<and>
    plan_Workers p \<noteq> []"
proof -
  note D = PlanSplit_SomeD [OF assms(2)]
  note dm = plan_driver_mem [OF assms(1) D(5)]
  let ?d = "plan_driver P now ns model"
  have "unat (plan_need P now ns model) \<le> unat (snd (recruited P now ns model))"
    using D(6) by (simp add: word_le_nat_alt)
  also have "\<dots> \<le> capacity_of P (?d # fst (recruited P now ns model))"
    using recruit_capacity_le [of P "plan_need P now ns model" "usable_of P ?d" "worker_candidates P now ?d ns"]
    by (simp add: recruited_def Let_def)
  finally have cap: "unat (plan_need P now ns model) \<le> capacity_of P (?d # fst (recruited P now ns model))" .
  have "usable_of P ?d < plan_need P now ns model" using D(7) dm by simp
  then have "capacity_of P [?d] < unat (plan_need P now ns model)" by (simp add: word_less_nat_alt)
  with cap have "fst (recruited P now ns model) \<noteq> []" by (metis linorder_not_le)
  moreover have "\<forall>w \<in> set (fst (recruited P now ns model)). w \<in> set ns \<and> eligible now w \<and>
      ss_Worker (ns_Split w) \<and> ns_ID w \<noteq> ns_ID ?d"
    using recruited_workers [of P now ns model] set_worker_candidates [OF assms(1)] by blast
  ultimately show ?thesis using D(1-3,7) dm cap by simp
qed

section \<open>The size of the model\<close>

lemma listed_size_ge: "sz \<le> listed_size model n sz"
  and listed_size_models:
    "m \<in> set (ns_Models n) \<Longrightarrow> model_matches (model_Name m) model \<Longrightarrow> model_Size m \<le> listed_size model n sz"
  and listed_size_attained: "listed_size model n sz = sz \<or>
    (\<exists>m \<in> set (ns_Models n). model_matches (model_Name m) model \<and> listed_size model n sz = model_Size m)"
proof -
  let ?f = "\<lambda>m sz. if model_matches (model_Name m) model \<and> model_Size m > sz then model_Size m else sz"
  have ge: "sz \<le> fold ?f ms sz" for ms sz
  proof (induction ms arbitrary: sz)
    case (Cons a ms)
    from Cons.IH [of "?f a sz"] show ?case by (auto split: if_splits)
  qed simp
  then show "sz \<le> listed_size model n sz" by (simp add: listed_size_def)
  have "model_Size m \<le> fold ?f ms sz" if "m \<in> set ms" "model_matches (model_Name m) model" for m ms sz
    using that
  proof (induction ms arbitrary: sz)
    case (Cons a ms)
    have "model_Size a \<le> ?f a sz" if "model_matches (model_Name a) model"
      using that by auto
    then show ?case
      using Cons ge [of "?f a sz" ms] by (auto intro: order_trans)
  qed simp
  then show "m \<in> set (ns_Models n) \<Longrightarrow> model_matches (model_Name m) model \<Longrightarrow>
      model_Size m \<le> listed_size model n sz" by (simp add: listed_size_def)
  have "fold ?f ms sz = sz \<or> (\<exists>m \<in> set ms. model_matches (model_Name m) model \<and> fold ?f ms sz = model_Size m)"
    for ms sz
    by (induction ms arbitrary: sz) fastforce+
  then show "listed_size model n sz = sz \<or>
    (\<exists>m \<in> set (ns_Models n). model_matches (model_Name m) model \<and> listed_size model n sz = model_Size m)"
    by (simp add: listed_size_def)
qed

definition listed_sizes :: "instant \<Rightarrow> NodeState list \<Rightarrow> string \<Rightarrow> u64 set" where
  "listed_sizes now ns model = {model_Size m | n m. n \<in> set ns \<and> eligible now n \<and>
     m \<in> set (ns_Models n) \<and> model_matches (model_Name m) model}"

lemma plan_size_max:
  "s \<in> listed_sizes now ns model \<Longrightarrow> s \<le> plan_size now ns model"
  "plan_size now ns model = 0 \<or> plan_size now ns model \<in> listed_sizes now ns model"
proof -
  have ge: "sz \<le> fold (listed_size model) hs sz" for hs sz
    by (induction hs arbitrary: sz) (auto intro: order_trans [OF listed_size_ge])
  have up: "model_Size m \<le> fold (listed_size model) hs sz"
    if "n \<in> set hs" "m \<in> set (ns_Models n)" "model_matches (model_Name m) model" for n m hs sz
    using that by (induction hs arbitrary: sz) (auto intro: order_trans [OF listed_size_models ge])
  have at: "fold (listed_size model) hs sz = sz \<or>
      (\<exists>n \<in> set hs. \<exists>m \<in> set (ns_Models n). model_matches (model_Name m) model \<and>
         fold (listed_size model) hs sz = model_Size m)" for hs sz
  proof (induction hs arbitrary: sz)
    case (Cons h hs)
    then show ?case using listed_size_attained [of model h sz] by force
  qed simp
  show "s \<in> listed_sizes now ns model \<Longrightarrow> s \<le> plan_size now ns model"
    unfolding plan_size_def listed_sizes_def by (fastforce simp: HasModel_iff intro!: up)
  show "plan_size now ns model = 0 \<or> plan_size now ns model \<in> listed_sizes now ns model"
    using at [of "candidates now ns model" 0] unfolding plan_size_def listed_sizes_def by auto
qed

section \<open>Optimality and completeness\<close>

lemma sum_list_drop_first_le:
  fixes f :: "'a \<Rightarrow> nat"
  assumes "sorted_wrt (\<lambda>a b. f b \<le> f a) (x # xs)"
  shows "sum_list (map f (take k xs)) \<le> sum_list (map f (take k (x # xs)))"
  using assms
proof (induction xs arbitrary: x k)
  case (Cons y ys)
  show ?case
  proof (cases k)
    case (Suc j)
    have "sum_list (map f (take j ys)) \<le> sum_list (map f (take j (y # ys)))"
      using Cons by simp
    with Suc Cons.prems show ?thesis by simp
  qed simp
qed simp

text \<open>No selection of \<open>k\<close> elements beats the first \<open>k\<close> of a list in descending order.\<close>

lemma top_sum:
  fixes f :: "'a \<Rightarrow> nat"
  assumes "sorted_wrt (\<lambda>a b. f b \<le> f a) xs" and "M \<subseteq># mset xs"
  shows "(\<Sum>x \<in># M. f x) \<le> sum_list (map f (take (size M) xs))"
  using assms
proof (induction xs arbitrary: M)
  case (Cons x xs)
  show ?case
  proof (cases "x \<in># M")
    case True
    then obtain N where M: "M = add_mset x N" by (metis mset_add)
    with Cons.prems have "N \<subseteq># mset xs" by simp
    with Cons M show ?thesis by simp
  next
    case False
    have "count M a \<le> count (mset xs) a" for a
      using mset_subset_eq_count [OF Cons.prems(2), of a] False by (cases "a = x") (auto simp: not_in_iff)
    then have "M \<subseteq># mset xs" by (rule mset_subset_eqI)
    with Cons have "(\<Sum>x \<in># M. f x) \<le> sum_list (map f (take (size M) xs))" by simp
    also have "\<dots> \<le> sum_list (map f (take (size M) (x # xs)))"
      by (rule sum_list_drop_first_le [OF Cons.prems(1)])
    finally show ?thesis .
  qed
qed simp

definition total_memory :: "NodeState list \<Rightarrow> nat" where
  "total_memory ns = (\<Sum>n \<leftarrow> ns. unat (mem_available n))"

lemma no_overflow:
  assumes "platform_ok P" and "d \<in> set ns" and "total_memory ns < 2 ^ 64"
  shows "unat (usable_of P d) + capacity_of P (worker_candidates P now d ns) < 2 ^ 64"
proof -
  have "capacity_of P (d # worker_candidates P now d ns) \<le> capacity_of P ns"
    by (rule capacity_mset_le [OF driver_and_workers_mset [OF assms(1,2)]])
  with capacity_le_memory [of P ns] assms(3) show ?thesis by (simp add: total_memory_def)
qed

lemma worker_candidates_sorted:
  assumes "platform_ok P"
  shows "sorted_wrt (\<lambda>a b. unat (usable_of P b) \<le> unat (usable_of P a)) (worker_candidates P now d ns)"
  using platform_sorted [OF assms] unfolding worker_candidates_def
  by (rule sorted_wrt_mono_rel [rotated]) (simp add: usable_of_mono)

text \<open>
  C24.  Recruiting is optimal: with the driver the plan uses, no selection of the available workers
  that covers the need is smaller than the plan's, whatever the sort does with equal nodes.
\<close>

theorem PlanSplit_fewest_workers:
  assumes "platform_ok P" and "total_memory ns < 2 ^ 64" and "PlanSplit P now ns model = Inr (Some p)"
    and "mset ws \<subseteq># filter_mset (\<lambda>n. eligible now n \<and> ss_Worker (ns_Split n) \<and>
          ns_ID n \<noteq> ns_ID (plan_Driver p)) (mset ns)"
    and "unat (plan_Need p) \<le> capacity_of P (plan_Driver p # ws)"
  shows "length (plan_Workers p) \<le> length ws"
proof (rule ccontr)
  assume less: "\<not> length (plan_Workers p) \<le> length ws"
  note D = PlanSplit_SomeD [OF assms(3)]
  let ?d = "plan_driver P now ns model" and ?need = "plan_need P now ns model"
  let ?wc = "worker_candidates P now ?d ns"
  let ?r = "recruit P ?need (usable_of P ?d) ?wc"
  have r: "plan_Workers p = fst ?r" using D(2) by (simp add: recruited_def Let_def)
  obtain rest where rest: "?wc = fst ?r @ rest" using recruit_prefix by blast
  have "mset ws \<subseteq># mset ?wc"
    using assms(4) D(1) by (simp add: mset_worker_candidates [OF assms(1)])
  from top_sum [OF worker_candidates_sorted [OF assms(1)] this]
  have "capacity_of P ws \<le> capacity_of P (take (length ws) ?wc)"
    by (simp add: capacity_of_def sum_mset_sum_list flip: mset_map)
  also have "take (length ws) ?wc = take (length ws) (butlast (fst ?r))"
    using less r by (subst rest) (simp add: take_butlast)
  also have "capacity_of P \<dots> \<le> capacity_of P (butlast (fst ?r))"
    unfolding capacity_of_def take_map [symmetric] by (rule sum_list_take_le)
  finally have "capacity_of P ws \<le> capacity_of P (butlast (fst ?r))" .
  moreover have "fst ?r \<noteq> []" using less r by auto
  then have "unat (usable_of P ?d) + capacity_of P (butlast (fst ?r)) < unat ?need"
    by (rule recruit_minimal [OF no_overflow [OF assms(1) plan_driver_mem(1) [OF assms(1) D(5)] assms(2)]])
  ultimately show False using assms(5) D(1,3) by simp
qed

text \<open>
  C25.  The planner gives up only for a reason: no holder fits the model alone, and either no
  holder has \<^verbatim>\<open>llama-server\<close>, or the holder with \<^verbatim>\<open>llama-server\<close> and most free memory cannot be
  helped enough by all the eligible workers together.
\<close>

theorem PlanSplit_error:
  assumes "platform_ok P" and "total_memory ns < 2 ^ 64" and "PlanSplit P now ns model = Inl e"
  shows "(\<forall>n \<in> set ns. eligible now n \<and> HasModel n model \<longrightarrow> usable_of P n < plan_need P now ns model) \<and>
    ((\<forall>n \<in> set ns. \<not> (eligible now n \<and> HasModel n model \<and> ss_Driver (ns_Split n))) \<or>
     (\<exists>d \<in> set ns. eligible now d \<and> HasModel d model \<and> ss_Driver (ns_Split d) \<and>
        (\<forall>n \<in> set ns. eligible now n \<and> HasModel n model \<and> ss_Driver (ns_Split n) \<longrightarrow>
           mem_available n \<le> mem_available d) \<and>
        (\<forall>ws. mset ws \<subseteq># filter_mset (\<lambda>n. eligible now n \<and> ss_Worker (ns_Split n) \<and>
             ns_ID n \<noteq> ns_ID d) (mset ns) \<longrightarrow>
           capacity_of P (d # ws) < unat (plan_need P now ns model))))"
proof -
  let ?d = "plan_driver P now ns model" and ?need = "plan_need P now ns model"
  let ?wc = "worker_candidates P now ?d ns"
  have nofit: "\<forall>n \<in> set ns. eligible now n \<and> HasModel n model \<longrightarrow> usable_of P n < ?need"
    using assms(3) by (auto simp: PlanSplit_eq list_ex_iff not_le split: if_splits)
  show ?thesis
  proof (cases "plan_drivers now ns model = []")
    case True
    with nofit show ?thesis by (auto simp: plan_drivers_def filter_empty_conv)
  next
    case False
    note dm = plan_driver_mem [OF assms(1) False]
    have small: "snd (recruited P now ns model) < ?need"
      using assms(3) False by (auto simp: PlanSplit_eq split: if_splits)
    let ?r = "recruit P ?need (usable_of P ?d) ?wc"
    have "fst ?r = ?wc" using small by (intro recruit_all) (simp add: recruited_def Let_def)
    then have "capacity_of P (?d # ?wc) = unat (snd ?r)"
      using recruit_exact [OF no_overflow [OF assms(1) dm(1) assms(2)], of ?need] by simp
    also have "\<dots> < unat ?need" using small by (simp add: recruited_def Let_def word_less_nat_alt)
    finally have all: "capacity_of P (?d # ?wc) < unat ?need" .
    have "capacity_of P (?d # ws) < unat ?need"
      if "mset ws \<subseteq># filter_mset (\<lambda>n. eligible now n \<and> ss_Worker (ns_Split n) \<and> ns_ID n \<noteq> ns_ID ?d) (mset ns)"
      for ws
      using capacity_mset_le [of ws ?wc P] that all by (simp add: mset_worker_candidates [OF assms(1)])
    moreover have "\<forall>n \<in> set ns. eligible now n \<and> HasModel n model \<and> ss_Driver (ns_Split n) \<longrightarrow>
        mem_available n \<le> mem_available ?d"
      using platform_hd(2) [OF assms(1) False] by (simp add: plan_driver_def plan_drivers_def)
    ultimately show ?thesis using nofit dm by blast
  qed
qed

text \<open>
  No plan is made and no error raised exactly when no eligible node lists the model with a
  positive size, or some eligible holder can run the largest listed copy alone.
\<close>

theorem PlanSplit_not_needed:
  "PlanSplit P now ns model = Inr None \<longleftrightarrow>
     (\<forall>s \<in> listed_sizes now ns model. s = 0) \<or>
     (\<exists>n \<in> set ns. eligible now n \<and> HasModel n model \<and> plan_need P now ns model \<le> usable_of P n)"
proof -
  have "plan_size now ns model = 0 \<longleftrightarrow> (\<forall>s \<in> listed_sizes now ns model. s = 0)"
    using plan_size_max(1) [of _ now ns model] plan_size_max(2) [of now ns model]
    by (metis word_le_0_iff)
  moreover have "plan_size now ns model = 0" if "candidates now ns model = []"
    using that by (simp add: plan_size_def)
  ultimately show ?thesis by (auto simp: PlanSplit_eq list_ex_iff)
qed

section \<open>Examples\<close>

abbreviation gib :: u64 where "gib \<equiv> 1073741824"

text \<open>A fresh, sharing node with some free memory and, if \<open>sz\<close> is not 0, a copy of \<^verbatim>\<open>big\<close>.\<close>

definition split_node :: "string \<Rightarrow> u64 \<Rightarrow> u64 \<Rightarrow> bool \<Rightarrow> bool \<Rightarrow> NodeState" where
  "split_node name free sz worker driver = (example_node name 100)\<lparr>
     ns_Resources := zero_Resources\<lparr>res_MemAvailable := free\<rparr>,
     ns_Models := (if sz = 0 then [] else [example_model ''big:latest'' sz]),
     ns_Split := zero_SplitState\<lparr>ss_Worker := worker, ss_Driver := driver\<rparr>\<rparr>"

lemma split_node_simps [simp]:
  "ns_ID (split_node name free sz w d) = name" "ns_Name (split_node name free sz w d) = name"
  "mem_available (split_node name free sz w d) = free"
  "ns_Models (split_node name free sz w d) = (if sz = 0 then [] else [example_model ''big:latest'' sz])"
  "ss_Worker (ns_Split (split_node name free sz w d)) = w"
  "ss_Driver (ns_Split (split_node name free sz w d)) = d"
  "eligible 100 (split_node name free sz w d)" "ns_Loaded (split_node name free sz w d) = []"
  "ns_Active (split_node name free sz w d) = 0"
  by (simp_all add: split_node_def example_node_def zero_NodeState_def eligible_def StaleAfter_def)

lemma split_node_updates [simp]:
  "eligible now (n\<lparr>ns_Loaded := l\<rparr>) = eligible now n" "eligible now (n\<lparr>ns_Active := a\<rparr>) = eligible now n"
  by (simp_all add: eligible_def)

lemma example_big [simp]:
  "model_matches (model_Name (example_model ''big:latest'' sz)) ''big''"
  "model_Size (example_model ''big:latest'' sz) = sz"
  by (simp_all add: example_model_def model_matches_def latest_tag_def)

lemmas plan_eval = PlanSplit_def Let_def HasModel_def listed_size_def usable_of_def Usable_word Need_word
  worker_candidates_def example_platform_def insertionSort_def more_memory_def

text \<open>The driver's 12.8 GiB and one worker's 25.6 GiB fall short of 50 GiB: both are recruited.\<close>

definition example_split_pool :: "NodeState list" where
  "example_split_pool =
     [split_node ''driver'' (16 * gib) (40 * gib) False True,
      split_node ''w1'' (32 * gib) 0 True False, split_node ''w2'' (32 * gib) 0 True False]"

definition example_plan :: Plan where
  "example_plan = \<lparr>plan_Driver = split_node ''driver'' (16 * gib) (40 * gib) False True,
     plan_Workers = [split_node ''w1'' (32 * gib) 0 True False, split_node ''w2'' (32 * gib) 0 True False],
     plan_ModelSize = 40 * gib, plan_Need = 50 * gib\<rparr>"

lemma example_PlanSplit:
  "PlanSplit example_platform 100 example_split_pool ''big'' = Inr (Some example_plan)"
  by (simp add: plan_eval example_split_pool_def example_plan_def)

lemma example_total: "total_memory example_split_pool < 2 ^ 64"
  by (simp add: total_memory_def example_split_pool_def)

theorem PlanSplit_sound_witness:
  "plan_Workers example_plan \<noteq> [] \<and>
   unat (plan_Need example_plan) \<le>
     capacity_of example_platform (plan_Driver example_plan # plan_Workers example_plan)"
  using PlanSplit_sound [OF example_platform_ok example_PlanSplit] by blast

theorem PlanSplit_fewest_workers_witness:
  "length (plan_Workers example_plan) \<le> length [split_node ''w2'' (32 * gib) 0 True False,
     split_node ''w1'' (32 * gib) 0 True False]"
  by (rule PlanSplit_fewest_workers [OF example_platform_ok example_total example_PlanSplit])
    (simp_all add: example_plan_def example_split_pool_def usable_of_def Usable_word example_platform_def)

theorem PlanSplit_error_witness:
  "usable_of example_platform (split_node ''holder'' (8 * gib) (40 * gib) True False)
     < plan_need example_platform 100 [split_node ''holder'' (8 * gib) (40 * gib) True False] ''big''"
proof -
  let ?ns = "[split_node ''holder'' (8 * gib) (40 * gib) True False]"
  have "PlanSplit example_platform 100 ?ns ''big'' = Inl (NoDriver ''big'' 40)"
    by (simp add: plan_eval)
  from PlanSplit_error [OF example_platform_ok _ this] show ?thesis
    by (simp add: total_memory_def HasModel_def)
qed

theorem PlanSplit_not_needed_witness:
  "PlanSplit example_platform 100 [split_node ''a'' (16 * gib) (4 * gib) True True] ''big'' = Inr None"
  unfolding PlanSplit_not_needed
  by (simp add: HasModel_def plan_need_def plan_size_def candidates_def plan_eval)

section \<open>Where the planner falls short\<close>

text \<open>
  C13. The planner looks at free memory only.  Once a model is loaded its memory is no longer free, so
  the next request for it is planned as a split, although the node that \<^verbatim>\<open>Pick\<close> would choose has it
  in memory: here 8 of 16 GiB are free because the 8 GiB model is loaded.
\<close>

theorem PlanSplit_splits_loaded_model:
  "\<exists>ns n p. Pick 100 [] ns ''big'' = Inr n \<and> HasLoaded n ''big'' \<and>
     PlanSplit example_platform 100 ns ''big'' = Inr (Some p) \<and> plan_Driver p = n \<and> length (plan_Workers p) = 1"
proof -
  let ?n = "split_node ''warm'' (8 * gib) (8 * gib) False True \<lparr>ns_Loaded := [''big:latest'']\<rparr>"
  let ?w = "split_node ''w'' (32 * gib) 0 True False"
  have "Pick 100 [] [?n, ?w] ''big'' = Inr ?n" and "HasLoaded ?n ''big''"
    by (simp_all add: Pick_least HasModel_def HasLoaded_def model_matches_def latest_tag_def
        example_model_def)
  moreover have "PlanSplit example_platform 100 [?n, ?w] ''big'' =
      Inr (Some \<lparr>plan_Driver = ?n, plan_Workers = [?w], plan_ModelSize = 8 * gib, plan_Need = 10 * gib\<rparr>)"
    by (simp add: plan_eval)
  ultimately show ?thesis
    by (intro exI [of _ "[?n, ?w]"] exI [of _ ?n] exI [of _
        "\<lparr>plan_Driver = ?n, plan_Workers = [?w], plan_ModelSize = 8 * gib, plan_Need = 10 * gib\<rparr>"]) simp
qed

text \<open>
  C17. The planner tries only the holder with most free memory as the driver.  Where that node could
  serve as a worker too and a smaller holder could not, it reports that the pool cannot fit the
  model although another driver makes it fit.
\<close>

theorem PlanSplit_misses_driver:
  "\<exists>ns d ws. (\<exists>e. PlanSplit example_platform 100 ns ''big'' = Inl e) \<and>
     d \<in> set ns \<and> eligible 100 d \<and> HasModel d ''big'' \<and> ss_Driver (ns_Split d) \<and>
     mset ws \<subseteq># filter_mset (\<lambda>n. eligible 100 n \<and> ss_Worker (ns_Split n) \<and> ns_ID n \<noteq> ns_ID d) (mset ns) \<and>
     unat (plan_need example_platform 100 ns ''big'') \<le> capacity_of example_platform (d # ws)"
proof -
  let ?a = "split_node ''a'' (16 * gib) (36 * gib) True True"
  let ?b = "split_node ''b'' (14 * gib) (36 * gib) False True"
  let ?w = "split_node ''w'' (32 * gib) 0 True False"
  have "PlanSplit example_platform 100 [?a, ?b, ?w] ''big'' = Inl (CannotFit ''big'' 45 38 ''a'' 1)"
    by (simp add: plan_eval)
  moreover have "plan_need example_platform 100 [?a, ?b, ?w] ''big'' = 45 * gib"
    by (simp add: plan_need_def plan_size_def candidates_def plan_eval)
  moreover have "HasModel ?b ''big''" by (simp add: HasModel_def)
  moreover have "unat (45 * gib) \<le> capacity_of example_platform (?b # [?w, ?a])"
    by (simp add: usable_of_def Usable_word example_platform_def)
  ultimately show ?thesis
    by (intro exI [of _ "[?a, ?b, ?w]"] exI [of _ ?b] exI [of _ "[?w, ?a]"]) simp
qed

text \<open>
  C18. "Fits whole somewhere" does not bind the routing that follows: \<^verbatim>\<open>Pick\<close> prefers an idle node the
  model does not fit over a busier one it fits.
\<close>

theorem Pick_ignores_fit:
  "\<exists>ns n. PlanSplit example_platform 100 ns ''big'' = Inr None \<and> Pick 100 [] ns ''big'' = Inr n \<and>
     usable_of example_platform n < plan_need example_platform 100 ns ''big'' \<and>
     (\<exists>f \<in> set ns. plan_need example_platform 100 ns ''big'' \<le> usable_of example_platform f)"
proof -
  let ?f = "split_node ''fits'' (64 * gib) (20 * gib) False False \<lparr>ns_Active := 1\<rparr>"
  let ?n = "split_node ''small'' (8 * gib) (20 * gib) False False"
  have "PlanSplit example_platform 100 [?f, ?n] ''big'' = Inr None" by (simp add: plan_eval)
  moreover have "plan_need example_platform 100 [?f, ?n] ''big'' = 25 * gib"
    by (simp add: plan_need_def plan_size_def candidates_def plan_eval)
  moreover have "Pick 100 [] [?f, ?n] ''big'' = Inr ?n"
    by (simp add: Pick_least HasModel_def HasLoaded_def rank_of_def less_rank_def)
  moreover have "usable_of example_platform ?n < 25 * gib" and "25 * gib \<le> usable_of example_platform ?f"
    by (simp_all add: plan_eval)
  ultimately show ?thesis
    by (intro exI [of _ "[?f, ?n]"] exI [of _ ?n]) simp
qed

end
