(* ===== verification/Gateway.thy ===== *)
theory Gateway
  imports SplitPlan GoJSONText
begin

text \<open>
  \<^verbatim>\<open>internal/gateway/gateway.go\<close>: routing inference requests.  A handler is a function from the
  gateway's state (and the state of the pipelines) and the request to the new states and the reply.
  The answers of other servers come from outside (\<open>ge_do\<close>, \<open>ge_proxy\<close>), as do the clock and
  the pool, which the agent provides.  Header names are in canonical form.  A duration is kept in
  microseconds; the code divides it by 1000 for the dashboard.
\<close>

section \<open>State\<close>

definition TokenHeader :: string where "TokenHeader = ''X-Potluck-Token''"

definition maxBodyBytes :: nat where "maxBodyBytes = 64 * 2 ^ 20"

record RequestRecord =
  rr_ID :: int
  rr_Time :: instant
  rr_Path :: string
  rr_Model :: string
  rr_Node :: string
  rr_Status :: int
  rr_Duration :: int

record URL =
  url_Scheme :: string
  url_Host :: string
  url_Path :: string

definition URL_String :: "URL \<Rightarrow> string" where
  "URL_String u = url_Scheme u @ ''://'' @ url_Host u @ url_Path u"

record Gateway =
  gw_ollama :: URL
  gw_token :: string
  gw_active :: int
  gw_totalServed :: u64
  gw_reqID :: int
  gw_history :: "RequestRecord list"

text \<open>\<open>parse\<close> is \<^verbatim>\<open>url.Parse\<close> on the URLs of Ollama, which have a scheme, a host and a path.\<close>

definition NewGateway :: "(string \<Rightarrow> URL option) \<Rightarrow> string \<Rightarrow> string \<Rightarrow> Gateway option" where
  "NewGateway parse ollamaBase token =
     map_option (\<lambda>u. \<lparr>gw_ollama = u, gw_token = token, gw_active = 0, gw_totalServed = 0, gw_reqID = 0,
       gw_history = []\<rparr>) (parse ollamaBase)"

definition Active :: "Gateway \<Rightarrow> int" where "Active g = gw_active g"

definition TotalServed :: "Gateway \<Rightarrow> u64" where "TotalServed g = gw_totalServed g"

definition History :: "Gateway \<Rightarrow> RequestRecord list" where "History g = gw_history g"

definition keep :: nat where "keep = 100"

definition record_request :: "RequestRecord \<Rightarrow> Gateway \<Rightarrow> Gateway" where
  "record_request r g =
     (let h = r # gw_history g in g\<lparr>gw_history := (if length h > keep then take keep h else h)\<rparr>)"

text \<open>A request starts to execute on this node's Ollama, and ends.\<close>

definition begin_job :: "Gateway \<Rightarrow> Gateway" where
  "begin_job g = g\<lparr>gw_active := gw_active g + 1\<rparr>"

definition end_job :: "Gateway \<Rightarrow> Gateway" where
  "end_job g = g\<lparr>gw_active := gw_active g - 1, gw_totalServed := gw_totalServed g + 1\<rparr>"

section \<open>Requests and replies\<close>

type_synonym headers = "(string \<times> string) list"

definition header_get :: "headers \<Rightarrow> string \<Rightarrow> string" where
  "header_get hs k = (case filter (\<lambda>h. fst h = k) hs of [] \<Rightarrow> [] | h # _ \<Rightarrow> snd h)"

text \<open>\<open>hr_Body\<close> is \<open>None\<close> when reading the body fails.\<close>

record http_request =
  hr_Method :: string
  hr_Path :: string
  hr_Headers :: headers
  hr_Body :: "string option"

record reply =
  rp_Status :: int
  rp_Headers :: headers
  rp_Body :: string

record upstream_request =
  ur_URL :: string
  ur_Headers :: headers
  ur_Body :: string

text \<open>
  The answer of a server: unreachable, or a status, headers and what the reads of the body return:
  the bytes, whether writing them to the client succeeds, and whether it is the last read.
\<close>

datatype upstream = Unreachable string | Answer int "(string \<times> string list) list" "(string \<times> bool \<times> bool) list"

definition copyHeaders :: "headers \<Rightarrow> (string \<times> string list) list \<Rightarrow> headers" where
  "copyHeaders dst src = dst @ concat (map (\<lambda>(k, vv). map (Pair k) vv) src)"

fun flushCopy :: "(string \<times> bool \<times> bool) list \<Rightarrow> string" where
  "flushCopy [] = []"
| "flushCopy ((buf, written, err) # reads) =
     (if buf \<noteq> [] \<and> \<not> written then []
      else buf @ (if err then [] else flushCopy reads))"

definition json_type :: "string \<times> string" where
  "json_type = (''Content-Type'', ''application/json'')"

definition httpError :: "int \<Rightarrow> string \<Rightarrow> reply" where
  "httpError code msg = \<lparr>rp_Status = code, rp_Headers = [json_type],
     rp_Body = ''{'' @ encode_string ''error'' @ '':{'' @ encode_string ''message'' @ '':'' @ encode_string msg @ '','' @
       encode_string ''type'' @ '':'' @ encode_string ''potluck_routing_error'' @ ''}}'' @ [CHR 0x0A]\<rparr>"

definition extractModel :: "string \<Rightarrow> string" where
  "extractModel body =
     (case Unmarshal body of
        Some (JObj ms) \<Rightarrow> (case string_field ''model'' ms of Some m \<Rightarrow> m | None \<Rightarrow> [])
      | _ \<Rightarrow> [])"

text \<open>
  What a handler meets: the clock when it reads the pool and when it finishes, the order in which
  the map of served models is visited, the sorting of the platform, the pool, this node's
  identifier, the URLs that cannot be parsed (with the error), and the answers of servers.
\<close>

record gw_env =
  ge_start :: instant
  ge_now :: instant
  ge_end :: instant
  ge_order :: "string list"
  ge_platform :: platform
  ge_nodes :: "NodeState list"
  ge_self :: string
  ge_bad_url :: "string \<Rightarrow> string option"
  ge_do :: "upstream_request \<Rightarrow> upstream"
  ge_proxy :: "string \<Rightarrow> http_request \<Rightarrow> reply"

definition token_headers :: "Gateway \<Rightarrow> headers" where
  "token_headers g = (if gw_token g \<noteq> [] then [(TokenHeader, gw_token g)] else [])"

definition finish :: "gw_env \<Rightarrow> string \<Rightarrow> string \<Rightarrow> string \<Rightarrow> int \<Rightarrow> Gateway \<Rightarrow> Gateway" where
  "finish env path model nodeName status g =
     (let k = gw_reqID g + 1
      in record_request \<lparr>rr_ID = k, rr_Time = ge_start env, rr_Path = path, rr_Model = model, rr_Node = nodeName,
           rr_Status = status, rr_Duration = (ge_end env - ge_start env) div 1000\<rparr> (g\<lparr>gw_reqID := k\<rparr>))"

section \<open>Forwarding to one node\<close>

definition forward_target :: "gw_env \<Rightarrow> Gateway \<Rightarrow> NodeState \<Rightarrow> string \<Rightarrow> string" where
  "forward_target env g node path =
     (if ns_ID node = ge_self env then URL_String (gw_ollama g) @ path
      else ''http://'' @ ns_Addr node @ ''/proxy/ollama'' @ path)"

definition stream_answer :: "int \<Rightarrow> (string \<times> string list) list \<Rightarrow> (string \<times> bool \<times> bool) list \<Rightarrow> reply" where
  "stream_answer status hdrs reads =
     \<lparr>rp_Status = status, rp_Headers = copyHeaders [] hdrs, rp_Body = flushCopy reads\<rparr>"

definition forward :: "gw_env \<Rightarrow> http_request \<Rightarrow> NodeState \<Rightarrow> string \<Rightarrow> Gateway \<Rightarrow> Gateway \<times> reply" where
  "forward env r node body g =
     (let target = forward_target env g node (hr_Path r); local = (ns_ID node = ge_self env)
      in if ge_bad_url env target \<noteq> None then (g, httpError 500 ''failed to build upstream request'')
         else
           let g1 = (if local then begin_job g else g);
               answer = ge_do env \<lparr>ur_URL = target, ur_Headers = json_type # token_headers g, ur_Body = body\<rparr>;
               reply = (case answer of
                   Unreachable err \<Rightarrow> httpError 502 (''node '' @ Quote (ns_Name node) @ '' unreachable: '' @ err)
                 | Answer status hdrs reads \<Rightarrow> stream_answer status hdrs reads)
           in (if local then end_job g1 else g1, reply))"

text \<open>
  \<^verbatim>\<open>httputil.NewSingleHostReverseProxy\<close> sends the request to the host of the URL, under its path
  joined with the request's.
\<close>

definition join_slash :: "string \<Rightarrow> string \<Rightarrow> string" where
  "join_slash a b =
     (if suffix ''/'' a \<and> HasPrefix b ''/'' then a @ tl b
      else if \<not> suffix ''/'' a \<and> \<not> HasPrefix b ''/'' then a @ ''/'' @ b
      else a @ b)"

definition reverse_proxy :: "gw_env \<Rightarrow> URL \<Rightarrow> http_request \<Rightarrow> reply" where
  "reverse_proxy env u r =
     ge_proxy env (url_Scheme u @ ''://'' @ url_Host u @ join_slash (url_Path u) (hr_Path r)) r"

definition token_ok :: "string \<Rightarrow> http_request \<Rightarrow> bool" where
  "token_ok token r \<longleftrightarrow> token = [] \<or> header_get (hr_Headers r) TokenHeader = token"

definition unauthorized :: reply where
  "unauthorized = httpError 401 ''missing or invalid pool token''"

definition handleProxy :: "gw_env \<Rightarrow> http_request \<Rightarrow> Gateway \<Rightarrow> Gateway \<times> reply" where
  "handleProxy env r g =
     (if \<not> token_ok (gw_token g) r then (g, unauthorized)
      else (end_job (begin_job g),
            reverse_proxy env (gw_ollama g) (r\<lparr>hr_Path := TrimPrefix (hr_Path r) ''/proxy/ollama''\<rparr>)))"

section \<open>Listings\<close>

definition json_reply :: "string \<Rightarrow> reply" where
  "json_reply text = \<lparr>rp_Status = 200, rp_Headers = [json_type], rp_Body = text @ [CHR 0x0A]\<rparr>"

definition json_field :: "string \<Rightarrow> string \<Rightarrow> string" where
  "json_field k v = encode_string k @ '':'' @ v"

definition json_object :: "string list \<Rightarrow> string" where
  "json_object ms = ''{'' @ Join ms '','' @ ''}''"

definition json_array :: "string list \<Rightarrow> string" where
  "json_array elems = ''['' @ Join elems '','' @ '']''"

definition handleOpenAIModels :: "gw_env \<Rightarrow> reply" where
  "handleOpenAIModels env =
     json_reply (json_object
       [json_field ''object'' (encode_string ''list''),
        json_field ''data'' (json_array (map (\<lambda>m. json_object
          [json_field ''id'' (encode_string m), json_field ''object'' (encode_string ''model''),
           json_field ''created'' (Itoa (ge_end env div second)),
           json_field ''owned_by'' (encode_string ''potluck'')])
          (PoolModels (ge_now env) (ge_order env) (ge_nodes env))))])"

text \<open>Fields marked \<^verbatim>\<open>omitempty\<close> are left out when empty.\<close>

definition omit_empty :: "string \<Rightarrow> string \<Rightarrow> string list" where
  "omit_empty k v = (if v = [] then [] else [json_field k (encode_string v)])"

definition tag_model :: "ModelDetail \<Rightarrow> string" where
  "tag_model d =
     (let m = md_Model d
      in json_object
       [json_field ''name'' (encode_string (model_Name m)), json_field ''model'' (encode_string (model_Name m)),
        json_field ''size'' (dec_digits (unat (model_Size m))),
        json_field ''details'' (json_object (omit_empty ''family'' (model_Family m) @
          omit_empty ''parameter_size'' (model_Parameters m) @ omit_empty ''quantization_level'' (model_Quant m)))])"

definition handleTags :: "gw_env \<Rightarrow> ((ModelDetail \<Rightarrow> ModelDetail \<Rightarrow> bool) \<Rightarrow> ModelDetail list \<Rightarrow> ModelDetail list) \<Rightarrow> reply" where
  "handleTags env srt =
     json_reply (json_object [json_field ''models''
       (json_array (map tag_model (PoolModelDetails (ge_now env) srt (ge_order env) (ge_nodes env))))])"

end
