(* ===== verification/GatewaySplit.thy ===== *)
theory GatewaySplit
  imports Gateway
begin

text \<open>
  \<^verbatim>\<open>internal/gateway/split.go\<close> and the inference handler of \<^verbatim>\<open>gateway.go\<close>: serving a request through a
  pipeline across devices, and the choice between that and one node.  The agent's pipelines are
  reached through the interface \<^verbatim>\<open>SplitRunner\<close>: a record of its operations on a state \<open>'d\<close>, with
  the laws of the locale \<open>split_driver\<close>, which the agent's theory discharges.
\<close>

section \<open>The interface to the pipelines of this node\<close>

record 'd split_runner =
  sr_EnsureLocal :: "string \<Rightarrow> string list \<Rightarrow> 'd \<Rightarrow> 'd \<times> (string + int)"
  sr_PipelinePort :: "string \<Rightarrow> 'd \<Rightarrow> int option"
  sr_TouchPipeline :: "string \<Rightarrow> 'd \<Rightarrow> 'd"

definition ModelHeader :: string where "ModelHeader = ''X-Potluck-Model''"

record EnsureRequest =
  er_Model :: string
  er_Workers :: "string list"

definition encode_EnsureRequest :: "EnsureRequest \<Rightarrow> string" where
  "encode_EnsureRequest r = json_object
     [json_field ''model'' (encode_string (er_Model r)), json_field ''workers'' (encode_strings (er_Workers r))]"

definition local_url :: "int \<Rightarrow> string" where
  "local_url port = ''http://127.0.0.1:'' @ Itoa port"

section \<open>Pipelines\<close>

text \<open>The result of \<^verbatim>\<open>ensureRemote\<close> is the text of its error.\<close>

definition ensureRemote :: "gw_env \<Rightarrow> Gateway \<Rightarrow> string \<Rightarrow> string \<Rightarrow> string list \<Rightarrow> string option" where
  "ensureRemote env g driverAddr model workers =
     (let body = encode_EnsureRequest \<lparr>er_Model = model, er_Workers = workers\<rparr>;
          target = ''http://'' @ driverAddr @ ''/api/pipeline/ensure''
      in case ge_bad_url env target of
           Some err \<Rightarrow> Some err
         | None \<Rightarrow>
             (case ge_do env \<lparr>ur_URL = target, ur_Headers = json_type # token_headers g, ur_Body = body\<rparr> of
                Unreachable err \<Rightarrow> Some err
              | Answer status hdrs reads \<Rightarrow>
                  if status \<noteq> 200
                  then Some (''status '' @ Itoa status @ '': '' @ TrimSpace (take 4096 (concat (map fst reads))))
                  else None))"

definition split_request :: "Gateway \<Rightarrow> string \<Rightarrow> string \<Rightarrow> string \<Rightarrow> upstream_request" where
  "split_request g target model body =
     \<lparr>ur_URL = target, ur_Headers = json_type # (ModelHeader, model) # token_headers g, ur_Body = body\<rparr>"

definition send_split :: "gw_env \<Rightarrow> Gateway \<Rightarrow> string \<Rightarrow> string \<Rightarrow> string \<Rightarrow> reply" where
  "send_split env g target model body =
     (if ge_bad_url env target \<noteq> None then httpError 500 ''failed to build upstream request''
      else (case ge_do env (split_request g target model body) of
              Unreachable err \<Rightarrow> httpError 502 (''pipeline unreachable: '' @ err)
            | Answer status hdrs reads \<Rightarrow> stream_answer status hdrs reads))"

definition split_display :: "Plan \<Rightarrow> string" where
  "split_display plan =
     ns_Name (plan_Driver plan) @ ''+['' @ Join (map ns_Name (plan_Workers plan)) '','' @ '']''"

definition forwardSplit :: "gw_env \<Rightarrow> 'd split_runner option \<Rightarrow> http_request \<Rightarrow> Plan \<Rightarrow> string \<Rightarrow> string
    \<Rightarrow> Gateway \<Rightarrow> 'd \<Rightarrow> 'd \<times> string \<times> reply" where
  "forwardSplit env split r plan model body g d =
     (let workerAddrs = map ns_Addr (plan_Workers plan); driver = plan_Driver plan; display = split_display plan
      in if ns_ID driver = ge_self env then
           (case split of
              None \<Rightarrow> (d, display, httpError 501 ''this node cannot drive split pipelines (llama-server missing)'')
            | Some sr \<Rightarrow>
                (case sr_EnsureLocal sr model workerAddrs d of
                   (d', Inl err) \<Rightarrow> (d', display, httpError 502 (''failed to start pipeline: '' @ err))
                 | (d', Inr port) \<Rightarrow>
                     (d', display, send_split env g (local_url port @ hr_Path r) model body)))
         else
           (case ensureRemote env g (ns_Addr driver) model workerAddrs of
              Some err \<Rightarrow> (d, display, httpError 502
                (''driver '' @ Quote (ns_Name driver) @ '' failed to start pipeline: '' @ err))
            | None \<Rightarrow>
                (d, display,
                 send_split env g (''http://'' @ ns_Addr driver @ ''/proxy/llama'' @ hr_Path r) model body)))"

definition handleLlamaProxy :: "gw_env \<Rightarrow> 'd split_runner option \<Rightarrow> http_request \<Rightarrow> Gateway \<Rightarrow> 'd
    \<Rightarrow> Gateway \<times> 'd \<times> reply" where
  "handleLlamaProxy env split r g d =
     (if \<not> token_ok (gw_token g) r then (g, d, unauthorized)
      else (case split of
          None \<Rightarrow> (g, d, httpError 501 ''this node does not run pipelines'')
        | Some sr \<Rightarrow>
            (let model = header_get (hr_Headers r) ModelHeader
             in case sr_PipelinePort sr model d of
                  None \<Rightarrow> (g, d, httpError 503
                    (''no ready pipeline for '' @ Quote model @ '' on this node; ensure it first''))
                | Some port \<Rightarrow>
                    (end_job (begin_job g), sr_TouchPipeline sr model d,
                     reverse_proxy env \<lparr>url_Scheme = ''http'', url_Host = ''127.0.0.1:'' @ Itoa port, url_Path = []\<rparr>
                       (r\<lparr>hr_Path := TrimPrefix (hr_Path r) ''/proxy/llama''\<rparr>)))))"

section \<open>The inference handler\<close>

definition no_model :: reply where
  "no_model = httpError 400 (''request body must include a '' @ Quote ''model'' @ '' field'')"

definition handleInference :: "gw_env \<Rightarrow> 'd split_runner option \<Rightarrow> http_request \<Rightarrow> Gateway \<Rightarrow> 'd
    \<Rightarrow> Gateway \<times> 'd \<times> reply" where
  "handleInference env split r g d =
     (case hr_Body r of
        None \<Rightarrow> (g, d, httpError 400 ''failed to read request body'')
      | Some b \<Rightarrow>
          (let body = take maxBodyBytes b; model = extractModel body
           in if model = [] then (g, d, no_model)
              else
                (let nodes = ge_nodes env;
                     plan = (if HasPrefix (hr_Path r) ''/v1/''
                             then (case PlanSplit (ge_platform env) (ge_now env) nodes model of
                                     Inr p \<Rightarrow> p
                                   | Inl planErr \<Rightarrow> None)
                             else None)
                 in case plan of
                      Some p \<Rightarrow>
                        (let (d', nodeName, rep) = forwardSplit env split r p model body g d
                         in (finish env (hr_Path r) model nodeName (rp_Status rep) g, d', rep))
                    | None \<Rightarrow>
                        (case Pick (ge_now env) (ge_order env) nodes model of
                           Inl e \<Rightarrow> (g, d, httpError 404 (ErrNoNode_Error e))
                         | Inr node \<Rightarrow>
                             (let (g', rep) = forward env r node body g
                              in (finish env (hr_Path r) model (ns_Name node) (rp_Status rep) g', d, rep))))))"

section \<open>Where requests go\<close>

lemma PlanSplit_eligible:
  assumes "platform_ok P" and "PlanSplit P now ns model = Inr (Some p)"
  shows "plan_Driver p \<in> set ns" "eligible now (plan_Driver p)" "HasModel (plan_Driver p) model"
    and "\<forall>w \<in> set (plan_Workers p). w \<in> set ns \<and> eligible now w"
proof -
  note D = PlanSplit_SomeD [OF assms(2)]
  note dm = plan_driver_mem [OF assms(1) D(5)]
  show "plan_Driver p \<in> set ns" "eligible now (plan_Driver p)" "HasModel (plan_Driver p) model"
    using dm D(1) by simp_all
  show "\<forall>w \<in> set (plan_Workers p). w \<in> set ns \<and> eligible now w"
    using recruited_workers [of P now ns model] D(1,2) assms(1) by (auto simp: set_worker_candidates)
qed

lemma finish_simps [simp]:
  "gw_active (finish env path model nodeName status g) = gw_active g"
  "gw_totalServed (finish env path model nodeName status g) = gw_totalServed g"
  "gw_reqID (finish env path model nodeName status g) = gw_reqID g + 1"
  by (simp_all add: finish_def record_request_def Let_def)

lemma finish_history:
  "gw_history (finish env path model nodeName status g) = take 100
     (\<lparr>rr_ID = gw_reqID g + 1, rr_Time = ge_start env, rr_Path = path, rr_Model = model, rr_Node = nodeName,
       rr_Status = status, rr_Duration = (ge_end env - ge_start env) div 1000\<rparr> # gw_history g)"
  by (simp add: finish_def record_request_def Let_def keep_def)

lemma forward_state:
  "gw_active (fst (forward env r node body g)) = gw_active g"
  "gw_history (fst (forward env r node body g)) = gw_history g"
  "gw_reqID (fst (forward env r node body g)) = gw_reqID g"
  by (simp_all add: forward_def Let_def begin_job_def end_job_def)

text \<open>How a request that names a model was handled, and the one record it leaves.\<close>

definition recorded :: "gw_env \<Rightarrow> http_request \<Rightarrow> string \<Rightarrow> string \<Rightarrow> reply \<Rightarrow> Gateway \<Rightarrow> Gateway \<Rightarrow> bool" where
  "recorded env r model nodeName rep g g' \<longleftrightarrow>
     gw_reqID g' = gw_reqID g + 1 \<and> gw_active g' = gw_active g \<and>
     gw_history g' = take 100
       (\<lparr>rr_ID = gw_reqID g + 1, rr_Time = ge_start env, rr_Path = hr_Path r, rr_Model = model, rr_Node = nodeName,
         rr_Status = rp_Status rep, rr_Duration = (ge_end env - ge_start env) div 1000\<rparr> # gw_history g)"

text \<open>
  C2.  A request that names a model is answered 404, leaving no trace, exactly when no eligible node
  has the model; otherwise it runs on one eligible node that has it, or, on a \<^verbatim>\<open>/v1/\<close> path, on a
  pipeline whose driver and workers are all eligible nodes of the pool, and the history gains one
  record, with the status sent to the client, under the next number.
\<close>

theorem handleInference_routes:
  assumes "platform_ok (ge_platform env)" and "hr_Body r = Some b"
    and "extractModel (take maxBodyBytes b) = model" and "model \<noteq> []"
    and "handleInference env split r g d = (g', d', rep)"
  shows "(\<forall>n \<in> set (ge_nodes env). \<not> (eligible (ge_now env) n \<and> HasModel n model)) \<and>
      g' = g \<and> d' = d \<and> rp_Status rep = 404 \<or>
    (\<exists>n \<in> set (ge_nodes env). eligible (ge_now env) n \<and> HasModel n model \<and> d' = d \<and>
      rep = snd (forward env r n (take maxBodyBytes b) g) \<and> recorded env r model (ns_Name n) rep g g') \<or>
    (\<exists>p. HasPrefix (hr_Path r) ''/v1/'' \<and> HasModel (plan_Driver p) model \<and>
      (\<forall>n \<in> set (plan_Driver p # plan_Workers p). n \<in> set (ge_nodes env) \<and> eligible (ge_now env) n) \<and>
      (d', split_display p, rep) = forwardSplit env split r p model (take maxBodyBytes b) g d \<and>
      recorded env r model (split_display p) rep g g')"
proof -
  define body where "body = take maxBodyBytes b"
  define plan where "plan = (if HasPrefix (hr_Path r) ''/v1/''
      then (case PlanSplit (ge_platform env) (ge_now env) (ge_nodes env) model of Inr p \<Rightarrow> p | Inl planErr \<Rightarrow> None)
      else None)"
  have display: "fst (snd (forwardSplit env split r p model body g d)) = split_display p" for p
    by (simp add: forwardSplit_def Let_def split: option.split sum.split prod.split)
  show ?thesis
  proof (cases plan)
    case (Some p)
    then have v1: "HasPrefix (hr_Path r) ''/v1/''"
      and P: "PlanSplit (ge_platform env) (ge_now env) (ge_nodes env) model = Inr (Some p)"
      by (auto simp: plan_def split: if_splits sum.splits)
    obtain rep' where f: "forwardSplit env split r p model body g d = (d', split_display p, rep') \<and>
        g' = finish env (hr_Path r) model (split_display p) (rp_Status rep') g \<and> rep' = rep"
      using assms Some display [of p] unfolding handleInference_def plan_def [symmetric] body_def [symmetric]
      by (auto simp: Let_def body_def plan_def split: prod.splits)
    then have "recorded env r model (split_display p) rep g g'"
      by (simp add: recorded_def finish_history)
    with f v1 PlanSplit_eligible [OF assms(1) P] show ?thesis unfolding body_def by auto
  next
    case None
    show ?thesis
    proof (cases "Pick (ge_now env) (ge_order env) (ge_nodes env) model")
      case (Inl e)
      with assms None Pick_Inl [OF Inl] show ?thesis
        by (auto simp: handleInference_def plan_def httpError_def Let_def)
    next
      case (Inr n)
      then have "rep = snd (forward env r n body g)" "d' = d"
        "g' = finish env (hr_Path r) model (ns_Name n) (rp_Status rep) (fst (forward env r n body g))"
        using assms None by (auto simp: handleInference_def plan_def body_def Let_def split: prod.splits)
      moreover from this have "recorded env r model (ns_Name n) rep g g'"
        by (simp add: recorded_def finish_history forward_state)
      ultimately show ?thesis using Pick_eligible [OF Inr] unfolding body_def by blast
    qed
  qed
qed

definition example_gateway :: Gateway where
  "example_gateway = \<lparr>gw_ollama = \<lparr>url_Scheme = ''http'', url_Host = ''127.0.0.1:11434'', url_Path = []\<rparr>,
     gw_token = ''secret'', gw_active = 0, gw_totalServed = 0, gw_reqID = 0, gw_history = []\<rparr>"

definition example_gw_env :: gw_env where
  "example_gw_env = \<lparr>ge_start = 100, ge_now = 100, ge_end = 5100, ge_order = [], ge_platform = example_platform,
     ge_nodes = example_pool, ge_self = ''me'', ge_bad_url = (\<lambda>u. None),
     ge_do = (\<lambda>r. Answer 200 [] [(''ok'', True, True)]),
     ge_proxy = (\<lambda>u r. \<lparr>rp_Status = 200, rp_Headers = [], rp_Body = u\<rparr>)\<rparr>"

text \<open>
  The model of a request is found whatever else its body says: in the text of any JSON object
  with one string member \<^verbatim>\<open>model\<close>, at any place; a body that is no object has none.
\<close>

theorem extractModel_roundtrip:
  assumes "plain_json (JObj ms)" and "field_values ''model'' ms = [JStr m]"
    and "plain_json j" and "\<forall>ms. j \<noteq> JObj ms"
  shows "extractModel (encode_json (JObj ms)) = m \<and> extractModel (encode_json j) = []"
  using assms Unmarshal_encode [OF assms(1)] Unmarshal_encode [OF assms(3)]
  by (auto simp: extractModel_def string_field_def split: json.split)

lemma example_body:
  "plain_json (JObj [(''model'', JStr ''m''), (''stream'', JBool True)])"
  "field_values ''model'' [(''model'', JStr ''m''), (''stream'', JBool True)] = [JStr ''m'']"
  by (auto intro!: plain_json.intros simp: field_values_def fold_name_def to_lower_def Let_def)

theorem extractModel_roundtrip_witness:
  "extractModel (encode_json (JObj [(''model'', JStr ''m''), (''stream'', JBool True)])) = ''m''"
  using extractModel_roundtrip [OF example_body plain_json.intros(1)] by simp

definition example_chat :: http_request where
  "example_chat = \<lparr>hr_Method = ''POST'', hr_Path = ''/api/chat'', hr_Headers = [],
     hr_Body = Some (encode_json (JObj [(''model'', JStr ''m''), (''stream'', JBool True)]))\<rparr>"

lemma example_chat_model:
  "hr_Body example_chat = Some (encode_json (JObj [(''model'', JStr ''m''), (''stream'', JBool True)]))"
  "extractModel (take maxBodyBytes (encode_json (JObj [(''model'', JStr ''m''), (''stream'', JBool True)]))) = ''m''"
proof -
  let ?j = "JObj [(''model'', JStr ''m''), (''stream'', JBool True)]"
  have "length (encode_json ?j) \<le> maxBodyBytes"
    by (simp add: maxBodyBytes_def encode_string_def encode_char_def)
  then have "take maxBodyBytes (encode_json ?j) = encode_json ?j" by (rule take_all)
  then show "extractModel (take maxBodyBytes (encode_json ?j)) = ''m''"
    using Unmarshal_encode [OF example_body(1)] example_body(2)
    by (simp add: extractModel_def string_field_def del: encode_json.simps)
qed (simp add: example_chat_def)

theorem handleInference_routes_witness:
  "\<exists>n \<in> set example_pool. \<exists>g' rep.
     handleInference example_gw_env None example_chat example_gateway () = (g', (), rep) \<and>
     recorded example_gw_env example_chat ''m'' (ns_Name n) rep example_gateway g'"
proof -
  obtain g' d' rep where h: "handleInference example_gw_env None example_chat example_gateway () = (g', d', rep)"
    by (cases "handleInference example_gw_env None example_chat example_gateway ()") blast
  have env: "ge_platform example_gw_env = example_platform" "ge_nodes example_gw_env = example_pool"
    "ge_now example_gw_env = 100" by (simp_all add: example_gw_env_def)
  have "\<exists>n \<in> set example_pool. eligible 100 n \<and> HasModel n ''m''"
    using Pick_eligible [OF example_pick [of "[]"]] by blast
  moreover have "\<not> HasPrefix (hr_Path example_chat) ''/v1/''" by (simp add: example_chat_def HasPrefix_def)
  ultimately show ?thesis
    using handleInference_routes [OF _ example_chat_model _ h] h unfolding env by auto
qed

text \<open>
  Clients are not asked for the pool token: the handler of client requests answers the
  same whatever headers the request carries, although it makes this and other nodes compute, and
  sends its own token along.
\<close>

theorem inference_ignores_token:
  "handleInference env split (r\<lparr>hr_Headers := hs\<rparr>) g d = handleInference env split r g d"
proof -
  have r: "hr_Path (r\<lparr>hr_Headers := hs\<rparr>) = hr_Path r" "hr_Body (r\<lparr>hr_Headers := hs\<rparr>) = hr_Body r" by simp_all
  have f: "forward env (r\<lparr>hr_Headers := hs\<rparr>) node body g = forward env r node body g" for node body
    unfolding forward_def r ..
  have p: "forwardSplit env split (r\<lparr>hr_Headers := hs\<rparr>) p model body g d
      = forwardSplit env split r p model body g d" for p model body
    unfolding forwardSplit_def r ..
  show ?thesis unfolding handleInference_def r f p ..
qed

end
