(* ===== verification/GatewayPeer.thy ===== *)
theory GatewayPeer
  imports GatewaySplit
begin

text \<open>
  What two gateways do together: the request one node forwards and the peer executes; the contract of
  the pipelines a driver runs (the locale \<open>split_driver\<close>) and what the handlers that use it gain from it.
\<close>

section \<open>A forwarded request\<close>

lemma header_get_token [simp]:
  "header_get (json_type # token_headers g) TokenHeader = gw_token g"
  by (simp add: header_get_def json_type_def token_headers_def TokenHeader_def)

lemma header_get_model [simp]:
  "header_get (json_type # (ModelHeader, model) # token_headers g) ModelHeader = model"
  "header_get (json_type # (ModelHeader, model) # token_headers g) TokenHeader = gw_token g"
  by (simp_all add: header_get_def json_type_def token_headers_def TokenHeader_def ModelHeader_def)

lemma reverse_proxy_root:
  assumes "HasPrefix (hr_Path r) ''/''" and "url_Path u = []"
  shows "reverse_proxy env u r = ge_proxy env (URL_String u @ hr_Path r) r"
  using assms by (simp add: reverse_proxy_def join_slash_def URL_String_def)

text \<open>
  What one node forwards its peer executes: the path under \<^verbatim>\<open>/proxy/ollama\<close> that the sender
  builds is accepted by a peer with the same token, which passes it to its own Ollama under
  exactly the URL it uses for its own clients' requests, and counts it once as served.
\<close>

theorem forwarded_request_executes:
  assumes "ns_ID node \<noteq> ge_self env" and "gw_token g' = gw_token g" and "HasPrefix path ''/''"
    and "url_Path (gw_ollama g') = []" and "ns_ID self = ge_self env'"
  shows "\<exists>p. forward_target env g node path = ''http://'' @ ns_Addr node @ p \<and>
    (let r = \<lparr>hr_Method = ''POST'', hr_Path = p, hr_Headers = json_type # token_headers g, hr_Body = body\<rparr>;
         (g'', rep) = handleProxy env' r g'
     in rep = ge_proxy env' (forward_target env' g' self path) (r\<lparr>hr_Path := path\<rparr>) \<and>
        Active g'' = Active g' \<and> TotalServed g'' = TotalServed g' + 1)"
proof -
  let ?r = "\<lparr>hr_Method = ''POST'', hr_Path = ''/proxy/ollama'' @ path, hr_Headers = json_type # token_headers g, hr_Body = body\<rparr>"
  have "handleProxy env' ?r g' = (end_job (begin_job g'), ge_proxy env' (forward_target env' g' self path) (?r\<lparr>hr_Path := path\<rparr>))"
    using assms reverse_proxy_root [of "?r\<lparr>hr_Path := path\<rparr>" "gw_ollama g'" env']
      TrimPrefix_append [of "''/proxy/ollama''" path]
    by (simp add: handleProxy_def token_ok_def forward_target_def)
  moreover have "forward_target env g node path = ''http://'' @ ns_Addr node @ ''/proxy/ollama'' @ path"
    using assms(1) by (simp add: forward_target_def)
  ultimately show ?thesis
    by (intro exI [of _ "''/proxy/ollama'' @ path"]) (simp add: Active_def TotalServed_def begin_job_def end_job_def)
qed

theorem forwarded_request_executes_witness:
  "\<exists>p. forward_target example_gw_env example_gateway (example_node ''peer'' 0) ''/api/chat''
       = ''http://'' @ ns_Addr (example_node ''peer'' 0) @ p \<and>
     (let r = \<lparr>hr_Method = ''POST'', hr_Path = p, hr_Headers = json_type # token_headers example_gateway, hr_Body = Some ''{}''\<rparr>;
          (g'', rep) = handleProxy example_gw_env r example_gateway
      in rep = ge_proxy example_gw_env (forward_target example_gw_env example_gateway (example_node ''me'' 0) ''/api/chat'')
           (r\<lparr>hr_Path := ''/api/chat''\<rparr>) \<and>
         Active g'' = Active example_gateway \<and> TotalServed g'' = TotalServed example_gateway + 1)"
  by (rule forwarded_request_executes)
    (simp_all add: example_node_def example_gw_env_def example_gateway_def HasPrefix_def)

section \<open>The contract of a driver\<close>

text \<open>
  What the handlers may rely on: a success names the port on which the pipeline is then ready,
  unless another caller is loading the model; a use does not change the ports.
\<close>

locale split_driver =
  fixes ensure :: "string \<Rightarrow> string list \<Rightarrow> 'd \<Rightarrow> 'd \<times> (string + int)"
    and port :: "string \<Rightarrow> 'd \<Rightarrow> int option"
    and touch :: "string \<Rightarrow> 'd \<Rightarrow> 'd"
    and loads :: "'d \<Rightarrow> string \<Rightarrow> bool"
  assumes ensure_ready: "ensure model ws d = (d', Inr p) \<Longrightarrow> \<not> loads d model \<Longrightarrow> port model d' = Some p"
    and ensure_other: "ensure model ws d = (d', res) \<Longrightarrow> model' \<noteq> model \<Longrightarrow> port model' d' = port model' d"
    and touch_port: "port model' (touch model d) = port model' d"
begin

definition runner :: "'d split_runner" where
  "runner = \<lparr>sr_EnsureLocal = ensure, sr_PipelinePort = port, sr_TouchPipeline = touch\<rparr>"

text \<open>After a successful ensure, the peer that asked for it is let through, to that very port.\<close>

lemma ensured_is_proxied:
  assumes "ensure model ws d = (d', Inr p)" and "\<not> loads d model"
    and "token_ok (gw_token g) r" and "header_get (hr_Headers r) ModelHeader = model"
    and "hr_Path r = ''/proxy/llama'' @ path" and "HasPrefix path ''/''"
  shows "handleLlamaProxy env (Some runner) r g d' =
    (end_job (begin_job g), touch model d', ge_proxy env (local_url p @ path) (r\<lparr>hr_Path := path\<rparr>))"
proof -
  let ?u = "\<lparr>url_Scheme = ''http'', url_Host = ''127.0.0.1:'' @ Itoa p, url_Path = []\<rparr>"
  have "TrimPrefix (hr_Path r) ''/proxy/llama'' = path"
    using assms(5) TrimPrefix_append [of "''/proxy/llama''" path] by simp
  moreover have "reverse_proxy env ?u (r\<lparr>hr_Path := path\<rparr>) = ge_proxy env (local_url p @ path) (r\<lparr>hr_Path := path\<rparr>)"
    using reverse_proxy_root [of "r\<lparr>hr_Path := path\<rparr>" ?u env] assms(6) by (simp add: URL_String_def local_url_def)
  ultimately show ?thesis
    using assms ensure_ready [OF assms(1,2)] by (simp add: handleLlamaProxy_def runner_def)
qed

text \<open>Serving through a pipeline leaves the ports of other models alone.\<close>

lemma forwardSplit_other:
  assumes "forwardSplit env (Some runner) r plan model body g d = (d', display, rep)" and "model' \<noteq> model"
  shows "port model' d' = port model' d"
  using assms ensure_other [OF _ assms(2)]
  by (auto simp: forwardSplit_def runner_def Let_def split: if_splits prod.splits sum.splits option.splits)

text \<open>A request served through a local pipeline goes to the port on which it is then ready.\<close>

lemma forwardSplit_local_ready:
  assumes "forwardSplit env (Some runner) r plan model body g d = (d', display, rep)"
    and "ns_ID (plan_Driver plan) = ge_self env" and "\<not> loads d model" and "rp_Status rep \<noteq> 502"
  shows "\<exists>p. port model d' = Some p \<and> rep = send_split env g (local_url p @ hr_Path r) model body"
  using assms ensure_ready [OF _ assms(3)]
  by (auto simp: forwardSplit_def runner_def Let_def httpError_def split: prod.splits sum.splits)

end

end
