(* ===== verification/Agent.thy ===== *)
theory Agent
  imports Discovery OllamaFS StateJSON Worker GatewayPeer
begin

text \<open>
  \<^verbatim>\<open>internal/agent/agent.go\<close>: the agent that ties the parts together.  Its identity, the loops that
  keep the registry up to date, and the state it serves to peers and to the dashboard.  The loops
  run forever on timers; one turn of each is a definition.  Executions of the agent are the subject
  of \<open>AgentRun\<close>.
\<close>

section \<open>Configuration and identity\<close>

record Config =
  cfg_Name :: string
  cfg_Port :: int
  cfg_OllamaURL :: string
  cfg_Pool :: string
  cfg_Token :: string
  cfg_Share :: bool
  cfg_Version :: string
  cfg_RPCServerBin :: string
  cfg_LlamaServerBin :: string
  cfg_RPCPort :: int
  cfg_CtxSize :: int
  cfg_ModelsDir :: string

record Agent =
  ag_cfg :: Config
  ag_id :: string
  ag_reg :: Registry
  ag_gw :: Gateway
  ag_addrs :: "string \<rightharpoonup> string"
  ag_bins :: Binaries
  ag_worker :: Worker
  ag_pipelines :: Manager

text \<open>The default name is the first label of the host name.\<close>

definition default_name :: "string option \<Rightarrow> Config \<Rightarrow> Config" where
  "default_name hostname cfg =
     (if cfg_Name cfg = [] then
        (case hostname of
           Some h \<Rightarrow> cfg\<lparr>cfg_Name := hd (Split h (CHR ''.''))\<rparr>
         | None \<Rightarrow> cfg\<lparr>cfg_Name := ''node''\<rparr>)
      else cfg)"

definition hex_EncodeToString :: "nat list \<Rightarrow> string" where
  "hex_EncodeToString buf = concat (map hex2 buf)"

text \<open>
  The files this touches, and what the system says: the home directory, eight random bytes, and
  whether the directory and the file can be written.
\<close>

record id_env =
  ie_home :: "string option"
  ie_rand :: "nat list option"
  ie_mkdir :: bool
  ie_write :: bool

definition id_path :: "string \<Rightarrow> string" where
  "id_path home = FilepathJoin [FilepathJoin [home, ''.potluck''], ''id'']"

definition stored_id :: "(string \<rightharpoonup> string) \<Rightarrow> string \<Rightarrow> string option" where
  "stored_id files path =
     (case files path of
        Some b \<Rightarrow> (let k = TrimSpace b in if length k \<ge> 8 then Some k else None)
      | None \<Rightarrow> None)"

definition loadOrCreateID :: "id_env \<Rightarrow> (string \<rightharpoonup> string) \<Rightarrow> (string \<rightharpoonup> string) \<times> string option" where
  "loadOrCreateID env files =
     (case ie_home env of
        None \<Rightarrow> (files, None)
      | Some home \<Rightarrow>
          (let path = id_path home
           in case stored_id files path of
                Some k \<Rightarrow> (files, Some k)
              | None \<Rightarrow>
                  (case ie_rand env of
                     None \<Rightarrow> (files, None)
                   | Some buf \<Rightarrow>
                       (let k = hex_EncodeToString buf
                        in if \<not> ie_mkdir env then (files, None)
                           else if \<not> ie_write env then (files, None)
                           else (files(path \<mapsto> k @ [CHR 0x0A]), Some k)))))"

lemma space_low: "is_space c \<Longrightarrow> of_char c \<le> (32 :: nat)"
  by (auto simp: is_space_def)

lemma hex_digit_high: "n < 16 \<Longrightarrow> 48 \<le> (of_char (hex_digit n) :: nat)"
  by (simp add: hex_digit_def)

lemma hex_no_space: "\<forall>b \<in> set buf. b < 256 \<Longrightarrow> \<forall>c \<in> set (hex_EncodeToString buf). \<not> is_space c"
proof
  fix c
  assume "\<forall>b \<in> set buf. b < 256" and "c \<in> set (hex_EncodeToString buf)"
  then obtain b where "b < 256" "c = hex_digit (b div 16) \<or> c = hex_digit (b mod 16)"
    by (auto simp: hex_EncodeToString_def hex2_def)
  then have "48 \<le> (of_char c :: nat)" using hex_digit_high [of "b div 16"] hex_digit_high [of "b mod 16"] by auto
  then show "\<not> is_space c" using space_low [of c] by auto
qed

lemma hex_length: "length (hex_EncodeToString buf) = 2 * length buf"
  by (simp add: hex_EncodeToString_def length_concat hex2_def comp_def sum_list_triv)

lemma stored_id_hex:
  assumes "\<forall>b \<in> set buf. b < 256" and "length buf = 8"
  shows "stored_id (files(path \<mapsto> hex_EncodeToString buf @ [CHR 0x0A])) path = Some (hex_EncodeToString buf)"
proof -
  have "hex_EncodeToString buf \<noteq> []" using hex_length [of buf] assms(2) by auto
  with hex_no_space [OF assms(1)] have "TrimSpace (hex_EncodeToString buf @ [CHR 0x0A]) = hex_EncodeToString buf"
    by (intro TrimSpace_newline)
  then show ?thesis using hex_length [of buf] assms(2) by (simp add: stored_id_def)
qed

text \<open>
  A node keeps its identity: once an identifier has been returned, every later start finds the
  same one and leaves the files alone, whatever random bytes there are then and whether or not the
  files can be written; and it is at least eight characters long.
\<close>

theorem identity_is_stable:
  assumes "loadOrCreateID env files = (files', Some k)" and "ie_home env' = ie_home env"
    and "\<And>buf. ie_rand env = Some buf \<Longrightarrow> length buf = 8 \<and> (\<forall>b \<in> set buf. b < 256)"
  shows "loadOrCreateID env' files' = (files', Some k) \<and> length k \<ge> 8"
proof -
  from assms(1) obtain home where home: "ie_home env = Some home"
    by (auto simp: loadOrCreateID_def split: option.splits)
  with assms(2) have home': "ie_home env' = Some home" by simp
  show ?thesis
  proof (cases "stored_id files (id_path home)")
    case (Some j)
    then have "length j \<ge> 8" by (auto simp: stored_id_def Let_def split: option.splits if_splits)
    moreover have "loadOrCreateID env files = (files, Some j)"
      by (simp add: loadOrCreateID_def home Some)
    with assms(1) have "files' = files" "k = j" by simp_all
    ultimately show ?thesis using Some by (simp add: loadOrCreateID_def home')
  next
    case None
    note created = assms(1) [unfolded loadOrCreateID_def home option.case Let_def None]
    then obtain buf where buf: "ie_rand env = Some buf" by (cases "ie_rand env") simp_all
    with created have "ie_mkdir env" "ie_write env" by (simp_all split: if_splits)
    with created buf have "(files(id_path home \<mapsto> hex_EncodeToString buf @ [CHR 0x0A]), Some (hex_EncodeToString buf))
        = (files', Some k)" by (simp only: option.case if_True not_not if_False refl simp_thms)
    then have f: "files' = files(id_path home \<mapsto> hex_EncodeToString buf @ [CHR 0x0A])"
      and k: "k = hex_EncodeToString buf" by auto
    have "stored_id files' (id_path home) = Some k"
      unfolding f k by (rule stored_id_hex) (use assms(3) [OF buf] in simp_all)
    moreover have "length k \<ge> 8" using assms(3) [OF buf] by (simp add: k hex_length)
    ultimately show ?thesis by (simp add: loadOrCreateID_def home')
  qed
qed

definition example_id_env :: "nat list \<Rightarrow> id_env" where
  "example_id_env buf = \<lparr>ie_home = Some ''/root'', ie_rand = Some buf, ie_mkdir = True, ie_write = True\<rparr>"

theorem identity_is_stable_witness:
  "\<exists>files' k. loadOrCreateID (example_id_env [1, 2, 3, 4, 5, 6, 7, 8]) Map.empty = (files', Some k) \<and>
     loadOrCreateID (example_id_env [8, 7, 6, 5, 4, 3, 2, 1]) files' = (files', Some k)"
proof -
  have "\<exists>files' k. loadOrCreateID (example_id_env [1, 2, 3, 4, 5, 6, 7, 8]) Map.empty = (files', Some k)"
    by (simp add: loadOrCreateID_def example_id_env_def stored_id_def Let_def)
  then obtain files' k where l: "loadOrCreateID (example_id_env [1, 2, 3, 4, 5, 6, 7, 8]) Map.empty = (files', Some k)"
    by blast
  from identity_is_stable [OF l, of "example_id_env [8, 7, 6, 5, 4, 3, 2, 1]"] l show ?thesis
    by (auto simp: example_id_env_def)
qed

section \<open>Starting the agent\<close>

text \<open>
  The attachment of the agent's pipelines to the gateway (\<^verbatim>\<open>SetSplitRunner\<close>) is the argument
  the gateway's handlers get in \<open>AgentSplit\<close>.
\<close>

definition NewAgent :: "string option \<Rightarrow> id_env \<Rightarrow> (string \<rightharpoonup> string) \<Rightarrow> (string \<Rightarrow> URL option) \<Rightarrow>
    (string \<Rightarrow> string option) \<Rightarrow> Config \<Rightarrow> (string \<rightharpoonup> string) \<times> Agent option" where
  "NewAgent hostname env files parse lookPath config =
     (let cfg = default_name hostname config
      in case loadOrCreateID env files of
           (files', None) \<Rightarrow> (files', None)
         | (files', Some k) \<Rightarrow>
             (case NewGateway parse (cfg_OllamaURL cfg) (cfg_Token cfg) of
                None \<Rightarrow> (files', None)
              | Some gw \<Rightarrow>
                  (let bins = Detect lookPath (cfg_RPCServerBin cfg) (cfg_LlamaServerBin cfg)
                   in (files', Some
                     \<lparr>ag_cfg = cfg, ag_id = k, ag_reg = New, ag_gw = gw, ag_addrs = Map.empty, ag_bins = bins,
                      ag_worker = NewWorker (RPCServer bins) (cfg_RPCPort cfg),
                      ag_pipelines = NewManager (LlamaServer bins) 11500\<rparr>))))"

definition Nodes :: "((NodeState \<Rightarrow> NodeState \<Rightarrow> bool) \<Rightarrow> NodeState list \<Rightarrow> NodeState list) \<Rightarrow> string list \<Rightarrow> Agent
    \<Rightarrow> NodeState list" where
  "Nodes srt order a = Snapshot srt order (ag_reg a)"

definition SelfID :: "Agent \<Rightarrow> string" where "SelfID a = ag_id a"

section \<open>The loops\<close>

text \<open>
  A turn of \<^verbatim>\<open>refreshSelf\<close>: \<open>mc\<close> is what the machine says, \<open>get\<close> what Ollama answers, \<open>order\<close> the
  order in which the pipelines are listed.
\<close>

definition self_state :: "machine \<Rightarrow> (string \<Rightarrow> http_get) \<Rightarrow> string list \<Rightarrow> Agent \<Rightarrow> NodeState" where
  "self_state mc get order a =
     (let cfg = ag_cfg a; res = Collect mc; oll = ProbeOllama get (cfg_OllamaURL cfg)
      in \<lparr>ns_ID = ag_id a, ns_Name = cfg_Name cfg, ns_Version = cfg_Version cfg, ns_Pool = cfg_Pool cfg,
          ns_Addr = res_Hostname res @ '':'' @ Itoa (cfg_Port cfg), ns_Sharing = cfg_Share cfg, ns_Resources = res,
          ns_OllamaOK = os_OK oll, ns_OllamaVersion = os_Version oll, ns_Models = os_Models oll,
          ns_Loaded = os_Loaded oll, ns_Active = Active (ag_gw a), ns_TotalServed = TotalServed (ag_gw a),
          ns_Split = \<lparr>ss_Worker = worker_Available (ag_worker a), ss_Driver = Available (ag_pipelines a),
            ss_RPCPort = cfg_RPCPort cfg, ss_RPCRunning = Running (ag_worker a),
            ss_Pipelines = Infos (ag_pipelines a) order\<rparr>,
          ns_UpdatedAt = zero_time, ns_Self = True\<rparr>)"

definition refreshSelf :: "instant \<Rightarrow> machine \<Rightarrow> (string \<Rightarrow> http_get) \<Rightarrow> string list \<Rightarrow> Agent \<Rightarrow> Agent" where
  "refreshSelf now mc get order a = a\<lparr>ag_reg := Upsert now (self_state mc get order a) (ag_reg a)\<rparr>"

text \<open>A turn of \<^verbatim>\<open>collectHints\<close>; the hints arrive in the order of the channel.\<close>

definition collectHint :: "PeerHint \<Rightarrow> Agent \<Rightarrow> Agent" where
  "collectHint h a = a\<lparr>ag_addrs := (ag_addrs a)(hint_ID h \<mapsto> hint_Addr h)\<rparr>"

text \<open>\<open>pt\<close> reads the instants of the encoded state.\<close>

definition fetchState :: "(string \<Rightarrow> instant option) \<Rightarrow> (string \<Rightarrow> http_get) \<Rightarrow> string \<Rightarrow> NodeState option" where
  "fetchState pt get addr =
     (case get (''http://'' @ addr @ ''/api/state'') of
        GetFailed \<Rightarrow> None
      | GetStatus status body \<Rightarrow> if status \<noteq> 200 then None else decode_node pt body)"

text \<open>
  \<^verbatim>\<open>pollPeers\<close> copies the addresses under the lock and then asks one peer after the other.  A target
  is visited at its own time and gets its own answers.
\<close>

record poll_env =
  pe_now :: "string \<Rightarrow> instant"
  pe_get :: "string \<Rightarrow> string \<Rightarrow> http_get"
  pe_pt :: "string \<Rightarrow> instant option"

definition poll_targets :: "string list \<Rightarrow> Agent \<Rightarrow> (string \<times> string) list" where
  "poll_targets order a = List.map_filter (\<lambda>k. map_option (Pair k) (ag_addrs a k)) order"

definition polled_state :: "poll_env \<Rightarrow> string \<times> string \<Rightarrow> NodeState option" where
  "polled_state env t =
     map_option (\<lambda>st. st\<lparr>ns_Self := False, ns_Addr := snd t\<rparr>) (fetchState (pe_pt env) (pe_get env (fst t)) (snd t))"

definition poll_peer :: "poll_env \<Rightarrow> string \<times> string \<Rightarrow> Agent \<Rightarrow> Agent" where
  "poll_peer env t a =
     (if fst t = ag_id a then a
      else (case polled_state env t of
              None \<Rightarrow> a
            | Some st \<Rightarrow> a\<lparr>ag_reg := Upsert (pe_now env (fst t)) st (ag_reg a)\<rparr>))"

definition pollPeers :: "poll_env \<Rightarrow> string list \<Rightarrow> Agent \<Rightarrow> Agent" where
  "pollPeers env order a = fold (poll_peer env) (poll_targets order a) a"

definition prune_turn :: "instant \<Rightarrow> string list \<Rightarrow> Agent \<Rightarrow> Agent" where
  "prune_turn now order a = a\<lparr>ag_reg := fst (Prune now (StaleAfter * 2) order (ag_reg a))\<rparr>"

text \<open>\<^verbatim>\<open>Run\<close>: the end of the context stops the pipelines and the worker; the result is what is killed.\<close>

definition shutdown :: "string list \<Rightarrow> Agent \<Rightarrow> Agent \<times> nat set" where
  "shutdown order a =
     (let (m, victims) = StopAll order (ag_pipelines a)
      in (a\<lparr>ag_pipelines := m\<rparr>, set victims \<union> set_option (Stop (ag_worker a))))"

section \<open>What the agent serves of itself\<close>

text \<open>\<^verbatim>\<open>http.Error\<close>.\<close>

definition text_error :: "int \<Rightarrow> string \<Rightarrow> reply" where
  "text_error code msg =
     \<lparr>rp_Status = code, rp_Headers = [(''Content-Type'', ''text/plain; charset=utf-8''),
        (''X-Content-Type-Options'', ''nosniff'')], rp_Body = msg @ [CHR 0x0A]\<rparr>"

definition handleState :: "(instant \<Rightarrow> string) \<Rightarrow> Agent \<Rightarrow> reply" where
  "handleState tt a =
     (case Get (ag_reg a) (ag_id a) of
        None \<Rightarrow> text_error 503 ''state not ready''
      | Some st \<Rightarrow> json_reply (encode_json (node_json tt st)))"

record PoolView =
  pv_Pool :: string
  pv_Self :: string
  pv_Nodes :: "NodeState list"
  pv_Models :: "ModelDetail list"
  pv_Requests :: "RequestRecord list"
  pv_TotalMem :: u64
  pv_AvailableMem :: u64
  pv_OnlineNodes :: int

definition count_node :: "instant \<Rightarrow> NodeState \<Rightarrow> PoolView \<Rightarrow> PoolView" where
  "count_node now n view =
     (if now - ns_UpdatedAt n < StaleAfter then
        view\<lparr>pv_OnlineNodes := pv_OnlineNodes view + 1,
          pv_TotalMem := pv_TotalMem view + res_MemTotal (ns_Resources n),
          pv_AvailableMem := pv_AvailableMem view + res_MemAvailable (ns_Resources n)\<rparr>
      else view)"

definition pool_view :: "instant \<Rightarrow> ((ModelDetail \<Rightarrow> ModelDetail \<Rightarrow> bool) \<Rightarrow> ModelDetail list \<Rightarrow> ModelDetail list)
    \<Rightarrow> string list \<Rightarrow> NodeState list \<Rightarrow> Agent \<Rightarrow> PoolView" where
  "pool_view now srt order ns a =
     fold (count_node now) ns
       \<lparr>pv_Pool = cfg_Pool (ag_cfg a), pv_Self = ag_id a, pv_Nodes = ns,
        pv_Models = PoolModelDetails now srt order ns, pv_Requests = History (ag_gw a),
        pv_TotalMem = 0, pv_AvailableMem = 0, pv_OnlineNodes = 0\<rparr>"

end
