(* ===== verification/AgentRun.thy ===== *)
theory AgentRun
  imports Agent
begin

text \<open>
  Executions of the agent: the turns of its loops in any interleaving (\<open>agent_step\<close>), what
  always holds of its registry (\<open>agent_inv\<close>), that a peer that answers is served from, and that a
  peer that no longer does goes.  The lemmas on single turns rest on the store interface \<open>node_store\<close>,
  through its interpretation \<open>reg\<close>.
\<close>

section \<open>A state on the wire\<close>

lemma handleState_Some:
  "Get (ag_reg a) (ag_id a) = Some st \<Longrightarrow>
     handleState tt a = json_reply (encode_json (node_json tt st))"
  by (simp add: handleState_def)

lemma fetchState_json:
  assumes "node_ok st" and "\<And>t. pt (tt t) = Some t"
    and "get (''http://'' @ addr @ ''/api/state'') = GetStatus 200 (encode_json (node_json tt st) @ [CHR 0x0A])"
  shows "fetchState pt get addr = Some st"
  using assms decode_node_encode [OF assms(1,2)] by (simp add: fetchState_def)

text \<open>The sizes and numbers of a state a node writes about itself fit the types they are read into.\<close>

lemma Collect_CPU: "res_NumCPU (Collect mc) = mc_NumCPU mc"
  by (simp add: Collect_def Let_def split: option.split prod.split list.split)

definition states_named :: "Manager \<Rightarrow> bool" where
  "states_named m \<longleftrightarrow> (\<forall>p \<in> ran (mg_pipelines m). pi_State (pl_info p) \<in> {StateLoading, StateReady, StateError})"

lemma self_state_ok:
  assumes "0 \<le> mc_NumCPU mc" "mc_NumCPU mc < 2 ^ 63" "0 \<le> cfg_RPCPort (ag_cfg a)" "cfg_RPCPort (ag_cfg a) < 2 ^ 63"
    and "0 \<le> gw_active (ag_gw a)" "gw_active (ag_gw a) < 2 ^ 63"
    and "iter_order (mg_pipelines (ag_pipelines a)) order" and "states_named (ag_pipelines a)"
  shows "node_ok (self_state mc get order a)"
proof -
  have "pipeline_ok i" if "i \<in> set (Infos (ag_pipelines a) order)" for i
    using that assms(7,8) by (auto simp: Infos_def states_named_def intro!: pipeline_ok_named)
  with assms show ?thesis
    by (simp add: self_state_def node_ok_def resources_ok_def split_ok_def Collect_CPU Active_def Let_def)
qed

text \<open>
  C28.  A peer reads exactly the state a node has filed about itself: between its fields
  there is no loss, and before the first refresh the answer is an error that is not taken for a state.
\<close>

theorem state_wire_roundtrip:
  assumes "\<And>t. pt (tt t) = Some t" and "\<And>n. Get (ag_reg a) (ag_id a) = Some n \<Longrightarrow> node_ok n"
    and "get (''http://'' @ addr @ ''/api/state'') = GetStatus (rp_Status (handleState tt a)) (rp_Body (handleState tt a))"
  shows "fetchState pt get addr = Get (ag_reg a) (ag_id a)"
proof (cases "Get (ag_reg a) (ag_id a)")
  case None
  with assms(3) show ?thesis by (simp add: handleState_def text_error_def fetchState_def)
next
  case (Some n)
  then have "fetchState pt get addr = Some n"
    using assms(3) by (intro fetchState_json [where tt = tt] assms(1,2)) (simp_all add: handleState_Some json_reply_def)
  with Some show ?thesis by simp
qed

section \<open>Steps\<close>

text \<open>
  The agent, what is left of the running round of \<^verbatim>\<open>pollPeers\<close>, and the clock.  The handlers of
  requests and the goroutines of the pipelines change the gateway, the worker and the pipelines
  only (\<open>EvServe\<close>).
\<close>

record agent_sys =
  sy_agent :: Agent
  sy_targets :: "(string \<times> string) list"
  sy_clock :: instant

datatype agent_event =
  EvRefresh machine "string \<Rightarrow> http_get" "string list"
| EvHint PeerHint
| EvPollStart "string list"
| EvPollTurn "string \<times> string" poll_env
| EvPrune "string list"
| EvServe Gateway Worker Manager

inductive agent_step :: "agent_sys \<Rightarrow> instant \<times> agent_event \<Rightarrow> agent_sys \<Rightarrow> bool" where
  refresh: "sy_clock s \<le> t \<Longrightarrow>
    agent_step s (t, EvRefresh mc get order) (s\<lparr>sy_agent := refreshSelf t mc get order (sy_agent s), sy_clock := t\<rparr>)"
| hint: "sy_clock s \<le> t \<Longrightarrow>
    agent_step s (t, EvHint h) (s\<lparr>sy_agent := collectHint h (sy_agent s), sy_clock := t\<rparr>)"
| poll_start: "sy_clock s \<le> t \<Longrightarrow> sy_targets s = [] \<Longrightarrow> iter_order (ag_addrs (sy_agent s)) order \<Longrightarrow>
    agent_step s (t, EvPollStart order) (s\<lparr>sy_targets := poll_targets order (sy_agent s), sy_clock := t\<rparr>)"
| poll_turn: "sy_clock s \<le> t \<Longrightarrow> sy_targets s = tgt # ts \<Longrightarrow> pe_now env (fst tgt) = t \<Longrightarrow>
    agent_step s (t, EvPollTurn tgt env) (s\<lparr>sy_agent := poll_peer env tgt (sy_agent s), sy_targets := ts, sy_clock := t\<rparr>)"
| prune: "sy_clock s \<le> t \<Longrightarrow> iter_order (nodes (ag_reg (sy_agent s))) order \<Longrightarrow>
    agent_step s (t, EvPrune order) (s\<lparr>sy_agent := prune_turn t order (sy_agent s), sy_clock := t\<rparr>)"
| serve: "sy_clock s \<le> t \<Longrightarrow>
    agent_step s (t, EvServe g w m)
      (s\<lparr>sy_agent := (sy_agent s)\<lparr>ag_gw := g, ag_worker := w, ag_pipelines := m\<rparr>, sy_clock := t\<rparr>)"

inductive agent_run :: "agent_sys \<Rightarrow> (instant \<times> agent_event) list \<Rightarrow> agent_sys \<Rightarrow> bool" for s0 where
  run_Nil: "agent_run s0 [] s0"
| run_snoc: "agent_run s0 evs s \<Longrightarrow> agent_step s ev s' \<Longrightarrow> agent_run s0 (evs @ [ev]) s'"

inductive_cases agent_stepE: "agent_step s ev s'"

definition start_sys :: "Agent \<Rightarrow> instant \<Rightarrow> agent_sys" where
  "start_sys a t = \<lparr>sy_agent = a, sy_targets = [], sy_clock = t\<rparr>"

lemma agent_step_clock: "agent_step s (t, e) s' \<Longrightarrow> sy_clock s \<le> t \<and> sy_clock s' = t"
  by (erule agent_stepE) simp_all

text \<open>What one turn does to the registry, in terms of the store's operations.\<close>

definition turn_state :: "agent_sys \<Rightarrow> agent_event \<Rightarrow> NodeState option" where
  "turn_state s e =
     (case e of
        EvRefresh mc get order \<Rightarrow> Some (self_state mc get order (sy_agent s))
      | EvPollTurn tgt env \<Rightarrow> if fst tgt = ag_id (sy_agent s) then None else polled_state env tgt
      | _ \<Rightarrow> None)"

lemma agent_step_registry:
  assumes "agent_step s (t, e) s'"
  shows "ag_reg (sy_agent s') =
    (case e of
       EvPrune order \<Rightarrow> pruned t (StaleAfter * 2) (ag_reg (sy_agent s))
     | _ \<Rightarrow> (case turn_state s e of
               Some n \<Rightarrow> Upsert t n (ag_reg (sy_agent s))
             | None \<Rightarrow> ag_reg (sy_agent s)))"
  using assms
  by (cases rule: agent_step.cases)
    (auto simp: turn_state_def refreshSelf_def collectHint_def poll_peer_def prune_turn_def Prune_state split: option.split)

lemma agent_step_identity:
  "agent_step s ev s' \<Longrightarrow> ag_id (sy_agent s') = ag_id (sy_agent s) \<and> ag_cfg (sy_agent s') = ag_cfg (sy_agent s)"
  by (erule agent_stepE) (simp_all add: refreshSelf_def collectHint_def poll_peer_def prune_turn_def split: option.split)

section \<open>What always holds\<close>

text \<open>
  \<open>heard\<close> are the hints of the trace.  The clock is at no entry's future; the entry of this node
  is the only one that may be marked as its own, and every other entry has an announced address.
\<close>

definition heard :: "(instant \<times> agent_event) list \<Rightarrow> PeerHint set" where
  "heard evs = {h. \<exists>t. (t, EvHint h) \<in> set evs}"

definition known_addr :: "(instant \<times> agent_event) list \<Rightarrow> string \<Rightarrow> string \<Rightarrow> bool" where
  "known_addr evs k addr \<longleftrightarrow> (\<exists>h \<in> heard evs. hint_ID h = k \<and> hint_Addr h = addr)"

definition filed_ok :: "Agent \<Rightarrow> (instant \<times> agent_event) list \<Rightarrow> NodeState \<Rightarrow> bool" where
  "filed_ok a evs n \<longleftrightarrow>
     (if ns_Self n then ns_ID n = ag_id a \<and> ns_Pool n = cfg_Pool (ag_cfg a)
      else \<exists>k. k \<noteq> ag_id a \<and> known_addr evs k (ns_Addr n))"

definition agent_inv :: "Agent \<Rightarrow> (instant \<times> agent_event) list \<Rightarrow> agent_sys \<Rightarrow> bool" where
  "agent_inv a evs s \<longleftrightarrow>
     ag_id (sy_agent s) = ag_id a \<and> ag_cfg (sy_agent s) = ag_cfg a \<and>
     reg_inv (ag_reg (sy_agent s)) \<and> seen_by (sy_clock s) (ag_reg (sy_agent s)) \<and>
     (\<forall>n \<in> ran (nodes (ag_reg (sy_agent s))). filed_ok a evs n) \<and>
     (\<forall>k addr. ag_addrs (sy_agent s) k = Some addr \<longrightarrow> known_addr evs k addr) \<and>
     (\<forall>(k, addr) \<in> set (sy_targets s). known_addr evs k addr)"

lemma known_addr_snoc: "known_addr evs k addr \<Longrightarrow> known_addr (evs @ [ev]) k addr"
  by (auto simp: known_addr_def heard_def)

lemma filed_ok_snoc: "filed_ok a evs n \<Longrightarrow> filed_ok a (evs @ [ev]) n"
  by (auto simp: filed_ok_def intro: known_addr_snoc split: if_splits)

lemma set_poll_targets: "(k, addr) \<in> set (poll_targets order a) \<Longrightarrow> ag_addrs a k = Some addr"
  by (auto simp: poll_targets_def set_map_filter)

lemma ran_Upsert: "n \<in> ran (nodes (Upsert t st r)) \<Longrightarrow> n = st\<lparr>ns_UpdatedAt := t\<rparr> \<or> n \<in> ran (nodes r)"
  by (auto simp: Upsert_def ran_def split: if_splits)

lemma ran_pruned: "n \<in> ran (nodes (pruned t ttl r)) \<Longrightarrow> n \<in> ran (nodes r)"
  by (auto simp: ran_def pruned_nodes split: option.splits if_splits)

lemma filed_ok_update [simp]: "filed_ok a evs (n\<lparr>ns_UpdatedAt := t\<rparr>) = filed_ok a evs n"
  by (simp add: filed_ok_def)

lemma polled_entry_ok:
  "polled_state env (k, addr) = Some st \<Longrightarrow> k \<noteq> ag_id a \<Longrightarrow> known_addr evs k addr \<Longrightarrow> filed_ok a evs st"
  by (auto simp: polled_state_def filed_ok_def)

lemma self_entry_ok: "ag_id b = ag_id a \<Longrightarrow> ag_cfg b = ag_cfg a \<Longrightarrow> filed_ok a evs (self_state mc get order b)"
  by (simp add: self_state_def filed_ok_def Let_def)

lemma turn_entry_ok:
  assumes "agent_step s (t, e) s'" and "agent_inv a evs s" and "turn_state s e = Some n"
  shows "filed_ok a evs n"
  using assms
  by (cases rule: agent_step.cases)
    (auto simp: turn_state_def agent_inv_def split: if_splits intro: polled_entry_ok self_entry_ok)

lemma step_registry_inv:
  assumes "agent_step s (t, e) s'" and "agent_inv a evs s"
  shows "reg_inv (ag_reg (sy_agent s'))" and "seen_by t (ag_reg (sy_agent s'))"
    and "\<forall>n \<in> ran (nodes (ag_reg (sy_agent s'))). filed_ok a evs n"
proof -
  let ?r = "ag_reg (sy_agent s)"
  have I: "reg_inv ?r" "seen_by t ?r" "\<forall>n \<in> ran (nodes ?r). filed_ok a evs n"
    using assms(2) agent_step_clock [OF assms(1)] by (auto simp: agent_inv_def seen_by_def)
  consider (up) n where "turn_state s e = Some n" "ag_reg (sy_agent s') = Upsert t n ?r"
    | (prune) "ag_reg (sy_agent s') = pruned t (StaleAfter * 2) ?r" | (same) "ag_reg (sy_agent s') = ?r"
    using agent_step_registry [OF assms(1)] by (auto simp: turn_state_def split: agent_event.splits option.splits)
  then have "reg_inv (ag_reg (sy_agent s')) \<and> seen_by t (ag_reg (sy_agent s')) \<and>
      (\<forall>n \<in> ran (nodes (ag_reg (sy_agent s'))). filed_ok a evs n)"
  proof cases
    case up
    with turn_entry_ok [OF assms up(1)] I show ?thesis
      by (auto simp: step_inv seen_by_def dest: ran_Upsert)
  next
    case prune
    with I show ?thesis by (auto simp: step_inv seen_by_def dest: ran_pruned)
  next
    case same
    with I show ?thesis by simp
  qed
  then show "reg_inv (ag_reg (sy_agent s'))" "seen_by t (ag_reg (sy_agent s'))"
    "\<forall>n \<in> ran (nodes (ag_reg (sy_agent s'))). filed_ok a evs n" by simp_all
qed

lemma step_addrs_inv:
  assumes "agent_step s ev s'" and "agent_inv a evs s"
  shows "\<forall>k addr. ag_addrs (sy_agent s') k = Some addr \<longrightarrow> known_addr (evs @ [ev]) k addr"
    and "\<forall>(k, addr) \<in> set (sy_targets s'). known_addr (evs @ [ev]) k addr"
proof -
  have I: "\<forall>k addr. ag_addrs (sy_agent s) k = Some addr \<longrightarrow> known_addr (evs @ [ev]) k addr"
    "\<forall>(k, addr) \<in> set (sy_targets s). known_addr (evs @ [ev]) k addr"
    using assms(2) by (auto simp: agent_inv_def intro: known_addr_snoc)
  have "known_addr (evs @ [(t, EvHint h)]) (hint_ID h) (hint_Addr h)" for t h
    by (auto simp: known_addr_def heard_def)
  with assms(1) I show "\<forall>k addr. ag_addrs (sy_agent s') k = Some addr \<longrightarrow> known_addr (evs @ [ev]) k addr"
    by (cases rule: agent_step.cases)
      (auto simp: refreshSelf_def collectHint_def poll_peer_def prune_turn_def split: option.splits if_splits)
  show "\<forall>(k, addr) \<in> set (sy_targets s'). known_addr (evs @ [ev]) k addr"
    using assms(1) I by (cases rule: agent_step.cases) (auto dest: set_poll_targets)
qed

lemma agent_inv_step: "agent_step s ev s' \<Longrightarrow> agent_inv a evs s \<Longrightarrow> agent_inv a (evs @ [ev]) s'"
proof -
  assume step: "agent_step s ev s'" and inv: "agent_inv a evs s"
  obtain t e where ev: "ev = (t, e)" by (cases ev)
  note R = step_registry_inv [OF step [unfolded ev] inv]
  note A = step_addrs_inv [OF step inv]
  have "sy_clock s' = t" using agent_step_clock [OF step [unfolded ev]] by simp
  with R A agent_step_identity [OF step] inv show ?thesis
    by (auto simp: agent_inv_def intro: filed_ok_snoc)
qed

lemma agent_inv_run:
  assumes "agent_run (start_sys a t0) evs s" and "ag_reg a = New" and "ag_addrs a = Map.empty"
  shows "agent_inv a evs s"
  using assms(1)
proof (induction rule: agent_run.induct)
  case run_Nil
  show ?case
    using assms(2,3) New_inv by (simp add: agent_inv_def start_sys_def seen_by_def) (simp add: New_def)
next
  case (run_snoc evs s ev s')
  then show ?case by (blast intro: agent_inv_step)
qed

lemma NewAgent_fresh:
  "NewAgent hostname env files parse lookPath config = (files', Some a) \<Longrightarrow> ag_reg a = New \<and> ag_addrs a = Map.empty"
  by (auto simp: NewAgent_def Let_def split: prod.splits option.splits)

text \<open>An agent, a peer, and a run in which the agent hears of the peer and polls it.\<close>

definition example_config :: Config where
  "example_config = \<lparr>cfg_Name = ''box'', cfg_Port = 11444, cfg_OllamaURL = ''u'', cfg_Pool = ''home'', cfg_Token = [],
     cfg_Share = True, cfg_Version = ''dev'', cfg_RPCServerBin = [], cfg_LlamaServerBin = [], cfg_RPCPort = 50752,
     cfg_CtxSize = 4096, cfg_ModelsDir = ''/m''\<rparr>"

definition example_agent :: Agent where
  "example_agent = \<lparr>ag_cfg = example_config, ag_id = ''0102030405060708'', ag_reg = New,
     ag_gw = example_gateway\<lparr>gw_token := []\<rparr>, ag_addrs = Map.empty, ag_bins = \<lparr>RPCServer = [], LlamaServer = []\<rparr>,
     ag_worker = NewWorker [] 50752, ag_pipelines = NewManager [] 11500\<rparr>"

lemma example_identity: "hex_EncodeToString [1, 2, 3, 4, 5, 6, 7, 8] = ''0102030405060708''"
  by code_simp

lemma example_agent_new:
  "\<exists>files. NewAgent None (example_id_env [1, 2, 3, 4, 5, 6, 7, 8]) Map.empty
     (\<lambda>u. Some (gw_ollama example_gateway)) (\<lambda>b. None) example_config = (files, Some example_agent)"
  by (simp add: NewAgent_def default_name_def loadOrCreateID_def example_id_env_def stored_id_def Let_def
      NewGateway_def Detect_def resolve_def example_agent_def example_config_def example_gateway_def
      example_identity [simplified])

definition example_addr :: string where "example_addr = ''10.0.0.2:'' @ Itoa 11444"

definition example_hint :: PeerHint where
  "example_hint = \<lparr>hint_ID = ''peer'', hint_Name = ''p'', hint_Pool = ''home'', hint_Addr = example_addr\<rparr>"

definition example_peer :: NodeState where
  "example_peer = example_node ''peer'' 7 \<lparr>ns_Models := [example_model ''m'' 5], ns_Pool := ''home''\<rparr>"

definition example_poll :: "instant \<Rightarrow> poll_env" where
  "example_poll t = \<lparr>pe_now = (\<lambda>k. t),
     pe_get = (\<lambda>k u. GetStatus 200 (encode_json (node_json Itoa example_peer) @ [CHR 0x0A])), pe_pt = example_pt\<rparr>"

lemma example_peer_ok: "node_ok example_peer"
  by (simp add: example_peer_def node_ok_def resources_ok_def split_ok_def example_defs)

lemma example_polled:
  "polled_state (example_poll t) (k, addr) = Some (example_peer\<lparr>ns_Self := False, ns_Addr := addr\<rparr>)"
proof -
  have "fetchState example_pt (pe_get (example_poll t) k) addr = Some example_peer"
    by (rule fetchState_json [OF example_peer_ok]) (simp_all add: example_pt_Itoa example_poll_def)
  then show ?thesis by (simp add: polled_state_def example_poll_def)
qed

definition example_trace :: "(instant \<times> agent_event) list" where
  "example_trace = [(1, EvHint example_hint), (2, EvPollStart [''peer'']),
     (3, EvPollTurn (''peer'', example_addr) (example_poll 3))]"

definition polled_agent :: Agent where
  "polled_agent = example_agent\<lparr>ag_addrs := [''peer'' \<mapsto> example_addr],
     ag_reg := Upsert 3 (example_peer\<lparr>ns_Self := False, ns_Addr := example_addr\<rparr>) New\<rparr>"

lemma example_run: "agent_run (start_sys example_agent 0) example_trace (start_sys polled_agent 3)"
proof -
  let ?s0 = "start_sys example_agent 0" and ?e1 = "(1, EvHint example_hint)"
  let ?a1 = "collectHint example_hint example_agent"
  have a1: "?a1 = example_agent\<lparr>ag_addrs := [''peer'' \<mapsto> example_addr]\<rparr>"
    by (simp add: collectHint_def example_hint_def example_agent_def)
  have "agent_run ?s0 ([] @ [?e1]) (start_sys ?a1 1)"
    using agent_step.hint [of ?s0 1 example_hint] by (intro run_snoc [OF run_Nil]) (simp add: start_sys_def)
  moreover have "poll_targets [''peer''] ?a1 = [(''peer'', example_addr)]"
    by (simp add: poll_targets_def a1 List.map_filter_simps)
  then have "agent_step (start_sys ?a1 1) (2, EvPollStart [''peer''])
      \<lparr>sy_agent = ?a1, sy_targets = [(''peer'', example_addr)], sy_clock = 2\<rparr>"
    using poll_start [of "start_sys ?a1 1" 2 "[''peer'']"] by (simp add: start_sys_def iter_order_def a1)
  moreover have "poll_peer (example_poll 3) (''peer'', example_addr) ?a1 = polled_agent"
    unfolding poll_peer_def example_polled
    unfolding a1 by (simp add: example_agent_def polled_agent_def example_poll_def)
  then have "agent_step \<lparr>sy_agent = ?a1, sy_targets = [(''peer'', example_addr)], sy_clock = 2\<rparr>
      (3, EvPollTurn (''peer'', example_addr) (example_poll 3)) (start_sys polled_agent 3)"
    using poll_turn [of "\<lparr>sy_agent = ?a1, sy_targets = [(''peer'', example_addr)], sy_clock = 2\<rparr>" 3
        "(''peer'', example_addr)" "[]" "example_poll 3"]
    by (simp add: start_sys_def example_poll_def)
  ultimately have "agent_run ?s0 ((([] @ [?e1]) @ [(2, EvPollStart [''peer''])])
      @ [(3, EvPollTurn (''peer'', example_addr) (example_poll 3))]) (start_sys polled_agent 3)"
    by (blast intro: run_snoc)
  then show ?thesis by (simp add: example_trace_def)
qed

lemma example_peer_ID [simp]: "ns_ID example_peer = ''peer''"
  by (simp add: example_peer_def example_defs)

lemma polled_order: "iter_order (nodes (ag_reg polled_agent)) [''peer'']"
  by (simp add: iter_order_def polled_agent_def Upsert_def New_def)

lemma polled_nodes: "Nodes insertionSort [''peer''] polled_agent =
    [example_peer\<lparr>ns_Self := False, ns_Addr := example_addr, ns_UpdatedAt := 3\<rparr>]"
  by (simp add: Nodes_def Snapshot_def map_values_def List.map_filter_simps polled_agent_def Upsert_def New_def
      insertionSort_def)

text \<open>
  C21.  Whatever the turns of the loops and the answers of peers, the registry stays well formed: each
  entry is filed under the identifier it carries and dated at or before the present, an entry is
  marked as this node's own only under its identifier and with its configured pool, and
  identity and configuration never change.
\<close>

theorem agent_well_formed:
  assumes "NewAgent hostname env files parse lookPath config = (files', Some a)"
    and "agent_run (start_sys a t0) evs s" and "Get (ag_reg (sy_agent s)) k = Some n"
  shows "ag_id (sy_agent s) = ag_id a \<and> ag_cfg (sy_agent s) = ag_cfg a \<and>
    ns_ID n = k \<and> ns_UpdatedAt n \<le> sy_clock s \<and>
    (ns_Self n \<longrightarrow> k = ag_id a \<and> ns_Pool n = cfg_Pool (ag_cfg a))"
proof -
  have I: "agent_inv a evs s" using NewAgent_fresh [OF assms(1)] by (intro agent_inv_run [OF assms(2)]) simp_all
  then have "n \<in> ran (nodes (ag_reg (sy_agent s)))" using assms(3) by (auto simp: Get_def ran_def)
  with I assms(3) show ?thesis
    by (auto simp: agent_inv_def seen_by_def filed_ok_def Get_def reg_inv_ID)
qed

theorem agent_well_formed_witness:
  "\<exists>n. Get (ag_reg polled_agent) ''peer'' = Some n \<and> ns_UpdatedAt n \<le> 3"
proof -
  have g: "Get (ag_reg polled_agent) ''peer'' \<noteq> None"
    by (simp add: polled_agent_def Get_def Upsert_def example_peer_def example_defs)
  then obtain n where "Get (ag_reg polled_agent) ''peer'' = Some n" by blast
  moreover obtain files where "NewAgent None (example_id_env [1, 2, 3, 4, 5, 6, 7, 8]) Map.empty
      (\<lambda>u. Some (gw_ollama example_gateway)) (\<lambda>b. None) example_config = (files, Some example_agent)"
    using example_agent_new by blast
  ultimately show ?thesis
    using agent_well_formed [of None _ Map.empty _ _ example_config files example_agent 0 example_trace
        "start_sys polled_agent 3" "''peer''" n] example_run
    by (simp add: start_sys_def)
qed

section \<open>Joining and leaving\<close>

text \<open>What a turn can write about an identifier that is not this node's.\<close>

definition mentions :: "string \<Rightarrow> string \<Rightarrow> agent_event \<Rightarrow> bool" where
  "mentions self k e \<longleftrightarrow>
     (case e of
        EvPollTurn tgt env \<Rightarrow> fst tgt \<noteq> self \<and> (\<exists>st. polled_state env tgt = Some st \<and> ns_ID st = k)
      | _ \<Rightarrow> False)"

lemma turn_state_other:
  "turn_state s e = Some n \<Longrightarrow> k \<noteq> ag_id (sy_agent s) \<Longrightarrow> \<not> mentions (ag_id (sy_agent s)) k e \<Longrightarrow> ns_ID n \<noteq> k"
  by (auto simp: turn_state_def mentions_def self_state_def Let_def split: agent_event.splits if_splits)

text \<open>
  A node offers a model when it shares, its Ollama is up and it lists it; a turn withdraws the offer of \<open>k\<close> when
  it reads a state of \<open>k\<close> that does not make it.
\<close>

definition offers :: "NodeState \<Rightarrow> string \<Rightarrow> bool" where
  "offers st name \<longleftrightarrow> ns_Sharing st \<and> ns_OllamaOK st \<and> name \<in> model_Name ` set (ns_Models st)"

definition withdraws :: "string \<Rightarrow> string \<Rightarrow> string \<Rightarrow> agent_event \<Rightarrow> bool" where
  "withdraws self k name e \<longleftrightarrow>
     (case e of
        EvPollTurn tgt env \<Rightarrow> fst tgt \<noteq> self \<and> (\<exists>st. polled_state env tgt = Some st \<and> ns_ID st = k \<and> \<not> offers st name)
      | _ \<Rightarrow> False)"

lemma offers_update [simp]:
  "offers (st\<lparr>ns_UpdatedAt := t\<rparr>) name = offers st name"
  "offers (st\<lparr>ns_Self := b, ns_Addr := addr\<rparr>) name = offers st name"
  by (simp_all add: offers_def)

lemma offer_kept:
  assumes "agent_run s1 later s2" and "reg_inv (ag_reg (sy_agent s1))" and "k \<noteq> ag_id (sy_agent s1)"
    and "Get (ag_reg (sy_agent s1)) k = Some n1" "offers n1 name" "t \<le> ns_UpdatedAt n1" "t \<le> sy_clock s1"
    and "\<forall>(u, e) \<in> set later. \<not> withdraws (ag_id (sy_agent s1)) k name e" and "sy_clock s2 \<le> t + StaleAfter"
  shows "reg_inv (ag_reg (sy_agent s2)) \<and> ag_id (sy_agent s2) = ag_id (sy_agent s1) \<and> t \<le> sy_clock s2 \<and>
    (\<exists>n. Get (ag_reg (sy_agent s2)) k = Some n \<and> offers n name \<and> t \<le> ns_UpdatedAt n)"
  using assms(1,8,9)
proof (induction rule: agent_run.induct)
  case run_Nil
  show ?case using assms(2,4-7) by blast
next
  case (run_snoc evs s ev s')
  obtain u e where ev: "ev = (u, e)" by (cases ev)
  have step: "agent_step s (u, e) s'" and clock: "sy_clock s \<le> u" "sy_clock s' = u"
    using run_snoc.hyps(2) agent_step_clock by (auto simp: ev)
  with run_snoc obtain n where IH: "reg_inv (ag_reg (sy_agent s))" "ag_id (sy_agent s) = ag_id (sy_agent s1)"
    "t \<le> u" "u \<le> t + StaleAfter" "Get (ag_reg (sy_agent s)) k = Some n" "offers n name" "t \<le> ns_UpdatedAt n"
    by auto
  have stays: "\<not> withdraws (ag_id (sy_agent s1)) k name e" using run_snoc.prems(1) by (simp add: ev)
  have offered: "offers m name" if "turn_state s e = Some m" "ns_ID m = k" for m
    using that stays IH(2) assms(3)
    by (auto simp: turn_state_def withdraws_def self_state_def Let_def split: agent_event.splits if_splits)
  have "\<not> stale_entry u (StaleAfter * 2) n" using IH(4,7) by (simp add: stale_entry_def StaleAfter_def)
  then have "\<exists>n. Get (ag_reg (sy_agent s')) k = Some n \<and> offers n name \<and> t \<le> ns_UpdatedAt n"
    using agent_step_registry [OF step] reg.get_upsert [OF IH(1)] reg.get_prune [OF IH(1), of u "StaleAfter * 2" k]
      IH(3,5-7) offered by (auto split: agent_event.splits option.splits)
  moreover have "reg_inv (ag_reg (sy_agent s'))"
    using agent_step_registry [OF step] IH(1) by (auto simp: step_inv split: agent_event.splits option.splits)
  ultimately show ?case using agent_step_identity [OF step] IH(2,3) clock by simp
qed

lemma offer_found:
  assumes "Get (ag_reg a) k = Some n" and "offers n name" and "now - ns_UpdatedAt n < StaleAfter"
    and "slice_sort srt" and "iter_order (nodes (ag_reg a)) order"
    and "iter_order (seen_models now (Nodes srt order a)) names"
  shows "name \<in> set (PoolModels now names (Nodes srt order a)) \<and> (\<exists>m. Pick now names (Nodes srt order a) name = Inr m)"
proof -
  have n: "n \<in> set (Nodes srt order a)"
    using assms(1) Snapshot_set [OF assms(4,5)] by (auto simp: Nodes_def Get_def ran_def)
  have el: "eligible now n" using assms(2,3) by (simp add: eligible_def offers_def)
  have "name \<in> served_names now (Nodes srt order a)"
    using n el assms(2) unfolding served_names_def offers_def by force
  then have "name \<in> set (PoolModels now names (Nodes srt order a))"
    using assms(6) dom_seen_models [of now "Nodes srt order a"] by (auto simp: PoolModels_def iter_order_def)
  moreover obtain m where "m \<in> set (ns_Models n)" "model_Name m = name" using assms(2) by (auto simp: offers_def)
  then have "HasModel n name" unfolding HasModel_iff by (intro bexI [of _ m]) simp_all
  with n el have "\<exists>m. Pick now names (Nodes srt order a) name = Inr m" using Pick_Inl by (metis sum.exhaust)
  ultimately show ?thesis by blast
qed

text \<open>
  C14.  Joining: a turn of a poll to which a peer answers with a state that shares, has its Ollama up and lists
  a model files that state under the address at which it answered; and from then on, whatever the
  loops do, for twenty seconds the model is advertised and a request for it finds a node, unless a
  later answer under the peer's identifier no longer offers the model.
\<close>

theorem joined_peer_serves:
  assumes "NewAgent hostname env files parse lookPath config = (files', Some a)"
    and "agent_run (start_sys a t0) evs s" and "agent_step s (t, EvPollTurn (k, addr) penv) s1" and "k \<noteq> ag_id a"
    and "Get (ag_reg peer) (ag_id peer) = Some st" "reg_inv (ag_reg peer)" "node_ok st" "ag_id peer \<noteq> ag_id a"
    and "\<And>t. pe_pt penv (tt t) = Some t"
    and "pe_get penv k (''http://'' @ addr @ ''/api/state'')
      = GetStatus (rp_Status (handleState tt peer)) (rp_Body (handleState tt peer))"
    and "offers st name"
    and "agent_run s1 later s2" "\<forall>(u, e) \<in> set later. \<not> withdraws (ag_id a) (ag_id peer) name e"
    and "sy_clock s2 \<le> now" "now - t < 20 * second"
    and "slice_sort srt" "iter_order (nodes (ag_reg (sy_agent s2))) order"
    and "iter_order (seen_models now (Nodes srt order (sy_agent s2))) names"
  shows "Get (ag_reg (sy_agent s1)) (ag_id peer) = Some (st\<lparr>ns_Self := False, ns_Addr := addr, ns_UpdatedAt := t\<rparr>) \<and>
    name \<in> set (PoolModels now names (Nodes srt order (sy_agent s2))) \<and>
    (\<exists>n. Pick now names (Nodes srt order (sy_agent s2)) name = Inr n)"
proof -
  have I: "agent_inv a evs s" using NewAgent_fresh [OF assms(1)] by (intro agent_inv_run [OF assms(2)]) simp_all
  then have I1: "agent_inv a (evs @ [(t, EvPollTurn (k, addr) penv)]) s1" by (rule agent_inv_step [OF assms(3)])
  have "fetchState (pe_pt penv) (pe_get penv k) addr = Some st"
    using assms(10) handleState_Some [OF assms(5)]
    by (intro fetchState_json [where tt = tt] assms(7,9)) (simp_all add: json_reply_def)
  then have "turn_state s (EvPollTurn (k, addr) penv) = Some (st\<lparr>ns_Self := False, ns_Addr := addr\<rparr>)"
    using assms(4) I by (simp add: turn_state_def polled_state_def agent_inv_def)
  with agent_step_registry [OF assms(3)]
  have reg: "ag_reg (sy_agent s1) = Upsert t (st\<lparr>ns_Self := False, ns_Addr := addr\<rparr>) (ag_reg (sy_agent s))" by simp
  have "ns_ID st = ag_id peer" using assms(5,6) by (simp add: Get_def reg_inv_ID)
  then have g: "Get (ag_reg (sy_agent s1)) (ag_id peer) = Some (st\<lparr>ns_Self := False, ns_Addr := addr, ns_UpdatedAt := t\<rparr>)"
    by (simp add: reg Upsert_def Get_def)
  have "sy_clock s1 = t" using agent_step_clock [OF assms(3)] by simp
  then obtain n where n: "Get (ag_reg (sy_agent s2)) (ag_id peer) = Some n" "offers n name" "t \<le> ns_UpdatedAt n"
    using offer_kept [OF assms(12) _ _ g, of name t] I1 assms(8,11,13-15) by (auto simp: agent_inv_def StaleAfter_def offers_def)
  with assms(15) have "now - ns_UpdatedAt n < StaleAfter" by (simp add: StaleAfter_def)
  from offer_found [OF n(1,2) this assms(16-18)] g show ?thesis by blast
qed

lemma silent_step:
  assumes "agent_step s (t, e) s'" and "reg_inv (ag_reg (sy_agent s))" and "k \<noteq> ag_id (sy_agent s)"
    and "\<not> mentions (ag_id (sy_agent s)) k e"
  shows "Get (ag_reg (sy_agent s')) k =
    (if \<exists>order. e = EvPrune order then Get (pruned t (StaleAfter * 2) (ag_reg (sy_agent s))) k
     else Get (ag_reg (sy_agent s)) k)"
  using agent_step_registry [OF assms(1)] turn_state_other [OF _ assms(3,4)]
    reg.get_upsert [OF assms(2)]
  by (auto split: agent_event.splits option.splits)

lemma silent_run:
  assumes "agent_run s0 evs s" and "reg_inv (ag_reg (sy_agent s0))" and "k \<noteq> ag_id (sy_agent s0)"
    and "\<forall>(t, e) \<in> set evs. \<not> mentions (ag_id (sy_agent s0)) k e"
    and "\<forall>n. Get (ag_reg (sy_agent s0)) k = Some n \<longrightarrow> \<not> ns_Self n"
  shows "reg_inv (ag_reg (sy_agent s)) \<and> ag_id (sy_agent s) = ag_id (sy_agent s0) \<and>
    (\<forall>n. Get (ag_reg (sy_agent s)) k = Some n \<longrightarrow> Get (ag_reg (sy_agent s0)) k = Some n \<and>
       (\<forall>t order. (t, EvPrune order) \<in> set evs \<longrightarrow> t - StaleAfter * 2 \<le> ns_UpdatedAt n))"
  using assms(1,4)
proof (induction rule: agent_run.induct)
  case run_Nil
  show ?case using assms(2) by simp
next
  case (run_snoc evs s ev s')
  obtain t e where ev: "ev = (t, e)" by (cases ev)
  from run_snoc have IH: "reg_inv (ag_reg (sy_agent s))" "ag_id (sy_agent s) = ag_id (sy_agent s0)"
    "\<And>n. Get (ag_reg (sy_agent s)) k = Some n \<Longrightarrow> Get (ag_reg (sy_agent s0)) k = Some n \<and>
       (\<forall>t order. (t, EvPrune order) \<in> set evs \<longrightarrow> t - StaleAfter * 2 \<le> ns_UpdatedAt n)"
    by auto
  have step: "agent_step s (t, e) s'" and quiet: "\<not> mentions (ag_id (sy_agent s)) k e"
    using run_snoc.hyps(2) run_snoc.prems IH(2) by (auto simp: ev)
  note G = silent_step [OF step IH(1) _ quiet, of, unfolded IH(2), OF assms(3)]
  have "reg_inv (ag_reg (sy_agent s'))"
    using agent_step_registry [OF step] IH(1) by (auto simp: step_inv split: agent_event.splits option.splits)
  moreover have "Get (ag_reg (sy_agent s0)) k = Some n \<and>
      (\<forall>u order. (u, EvPrune order) \<in> set (evs @ [ev]) \<longrightarrow> u - StaleAfter * 2 \<le> ns_UpdatedAt n)"
    if "Get (ag_reg (sy_agent s')) k = Some n" for n
  proof -
    from that G have g: "Get (ag_reg (sy_agent s)) k = Some n"
      and p: "(\<exists>order. e = EvPrune order) \<longrightarrow> \<not> stale_entry t (StaleAfter * 2) n"
      using reg.get_prune [OF IH(1), of t "StaleAfter * 2" k] by (auto split: if_splits option.splits)
    from IH(3) [OF g] have old: "Get (ag_reg (sy_agent s0)) k = Some n"
      "\<And>u order. (u, EvPrune order) \<in> set evs \<Longrightarrow> u - StaleAfter * 2 \<le> ns_UpdatedAt n" by auto
    moreover have "\<not> ns_Self n" using assms(5) old(1) by blast
    ultimately show ?thesis using p by (auto simp: ev stale_entry_def)
  qed
  ultimately show ?case using agent_step_identity [OF run_snoc.hyps(2)] IH(2) by simp
qed

text \<open>
  C15.  Leaving: when no answer mentions a peer any more, it is not picked for any request later than
  twenty seconds after that, and one prune tick later than forty seconds after it drops the peer
  from the registry.
\<close>

theorem departed_peer_goes:
  assumes "NewAgent hostname env files parse lookPath config = (files', Some a)"
    and "agent_run (start_sys a t0) evs s" and "k \<noteq> ag_id a"
    and "agent_run s later s'" and "\<forall>(t, e) \<in> set later. \<not> mentions (ag_id a) k e"
    and "slice_sort srt" and "iter_order (nodes (ag_reg (sy_agent s'))) order"
  shows "(sy_clock s + 20 * second \<le> now \<and> Pick now names (Nodes srt order (sy_agent s')) model = Inr n \<longrightarrow> ns_ID n \<noteq> k) \<and>
    ((t, EvPrune order') \<in> set later \<and> sy_clock s + 40 * second < t \<longrightarrow> Get (ag_reg (sy_agent s')) k = None)"
proof -
  have I: "agent_inv a evs s" using NewAgent_fresh [OF assms(1)] by (intro agent_inv_run [OF assms(2)]) simp_all
  have old: "\<not> ns_Self m \<and> ns_UpdatedAt m \<le> sy_clock s" if "Get (ag_reg (sy_agent s)) k = Some m" for m
  proof -
    from that have "m \<in> ran (nodes (ag_reg (sy_agent s)))" by (auto simp: Get_def ran_def)
    with I that assms(3) show ?thesis by (auto simp: agent_inv_def seen_by_def filed_ok_def Get_def reg_inv_ID)
  qed
  have R: "reg_inv (ag_reg (sy_agent s'))"
    "\<And>m. Get (ag_reg (sy_agent s')) k = Some m \<Longrightarrow> ns_UpdatedAt m \<le> sy_clock s \<and>
       (\<forall>t order. (t, EvPrune order) \<in> set later \<longrightarrow> t - StaleAfter * 2 \<le> ns_UpdatedAt m)"
    using silent_run [OF assms(4), of k] I old assms(3,5) by (auto simp: agent_inv_def)
  have "Get (ag_reg (sy_agent s')) k = None" if "(t, EvPrune order') \<in> set later" "sy_clock s + 40 * second < t"
  proof (cases "Get (ag_reg (sy_agent s')) k")
    case (Some m)
    from R(2) [OF Some] that(1) have "t - StaleAfter * 2 \<le> ns_UpdatedAt m" "ns_UpdatedAt m \<le> sy_clock s" by blast+
    with that(2) show ?thesis by (simp add: StaleAfter_def)
  qed
  moreover have "ns_ID n \<noteq> k"
    if fresh: "sy_clock s + 20 * second \<le> now"
      and picked: "Pick now names (Nodes srt order (sy_agent s')) model = Inr n"
  proof
    assume k: "ns_ID n = k"
    obtain j where "nodes (ag_reg (sy_agent s')) j = Some n"
      using Pick_eligible(1) [OF picked] Snapshot_set [OF assms(6,7)] by (auto simp: Nodes_def ran_def)
    with R(1) k have "Get (ag_reg (sy_agent s')) k = Some n" by (auto simp: Get_def reg_inv_ID)
    with R(2) have "ns_UpdatedAt n \<le> sy_clock s" by blast
    with Pick_eligible(2) [OF picked] fresh show False by (simp add: eligible_def StaleAfter_def)
  qed
  ultimately show ?thesis by blast
qed

theorem departed_peer_goes_witness:
  "Get (ag_reg (prune_turn (44 * second) [''peer''] polled_agent)) ''peer'' = None"
proof -
  let ?s = "start_sys polled_agent 3" and ?t = "44 * second"
  let ?a = "prune_turn ?t [''peer''] polled_agent"
  have run: "agent_run ?s ([] @ [(?t, EvPrune [''peer''])]) (start_sys ?a ?t)"
    using agent_step.prune [of ?s ?t "[''peer'']"] polled_order
    by (intro run_snoc [OF run_Nil]) (simp add: start_sys_def)
  obtain files where new: "NewAgent None (example_id_env [1, 2, 3, 4, 5, 6, 7, 8]) Map.empty
      (\<lambda>u. Some (gw_ollama example_gateway)) (\<lambda>b. None) example_config = (files, Some example_agent)"
    using example_agent_new by blast
  have "''peer'' \<noteq> ag_id example_agent" by (simp add: example_agent_def)
  moreover have "reg_inv (ag_reg ?a)"
    using Prune_state [OF polled_order] by (simp add: prune_turn_def polled_agent_def step_inv)
  then obtain order where "iter_order (nodes (ag_reg ?a)) order"
    using iter_order_exists unfolding reg_inv_def by blast
  ultimately show ?thesis
    using departed_peer_goes [OF new example_run _ run, of "''peer''" insertionSort order _ _ _ _ ?t "[''peer'']"]
    by (simp add: mentions_def start_sys_def)
qed

definition serving_peer :: Agent where
  "serving_peer = example_agent\<lparr>ag_id := ''peer'', ag_reg := Upsert 7 example_peer New\<rparr>"

definition serving_poll :: poll_env where
  "serving_poll = \<lparr>pe_now = (\<lambda>k. 3), pe_get = (\<lambda>k u. GetStatus (rp_Status (handleState Itoa serving_peer))
     (rp_Body (handleState Itoa serving_peer))), pe_pt = example_pt\<rparr>"

lemma serving_peer_self: "Get (ag_reg serving_peer) (ag_id serving_peer) = Some example_peer"
proof -
  have "example_peer\<lparr>ns_UpdatedAt := 7\<rparr> = example_peer" by (simp add: example_peer_def example_defs)
  then show ?thesis by (simp add: serving_peer_def Get_def Upsert_def)
qed

theorem state_wire_roundtrip_witness:
  "fetchState example_pt (pe_get serving_poll ''peer'') example_addr = Some example_peer"
  using state_wire_roundtrip [OF example_pt_Itoa, of serving_peer "pe_get serving_poll ''peer''" example_addr]
  by (simp add: serving_peer_self example_peer_ok serving_poll_def)

lemma serving_polled:
  "poll_peer serving_poll (''peer'', example_addr) (collectHint example_hint example_agent) = polled_agent"
proof -
  have "fetchState example_pt (pe_get serving_poll ''peer'') example_addr = Some example_peer"
    using handleState_Some [OF serving_peer_self]
    by (intro fetchState_json [OF example_peer_ok]) (simp_all add: example_pt_Itoa serving_poll_def json_reply_def)
  then show ?thesis
    by (simp add: poll_peer_def polled_state_def serving_poll_def collectHint_def example_hint_def example_agent_def polled_agent_def)
qed

theorem joined_peer_serves_witness:
  "\<exists>s2 n. agent_run (start_sys polled_agent 3) [(10 * second, EvPrune [''peer''])] s2 \<and>
     Pick (15 * second) [''m''] (Nodes insertionSort [''peer''] (sy_agent s2)) ''m'' = Inr n"
proof -
  let ?poll = "EvPollTurn (''peer'', example_addr) serving_poll"
  let ?a1 = "collectHint example_hint example_agent" and ?b = "prune_turn (10 * second) [''peer''] polled_agent"
  let ?s = "\<lparr>sy_agent = ?a1, sy_targets = [(''peer'', example_addr)], sy_clock = 2\<rparr>"
  have a1: "?a1 = example_agent\<lparr>ag_addrs := [''peer'' \<mapsto> example_addr]\<rparr>"
    by (simp add: collectHint_def example_hint_def example_agent_def)
  have "agent_run (start_sys example_agent 0) ([] @ [(1, EvHint example_hint)]) (start_sys ?a1 1)"
    using agent_step.hint [of "start_sys example_agent 0" 1 example_hint]
    by (intro run_snoc [OF run_Nil]) (simp add: start_sys_def)
  moreover have "agent_step (start_sys ?a1 1) (2, EvPollStart [''peer'']) ?s"
    using poll_start [of "start_sys ?a1 1" 2 "[''peer'']"]
    by (simp add: start_sys_def iter_order_def a1 poll_targets_def List.map_filter_simps)
  ultimately have run: "agent_run (start_sys example_agent 0) ([(1, EvHint example_hint)] @ [(2, EvPollStart [''peer''])]) ?s"
    by (simp only: append_Nil) (rule run_snoc)
  have poll: "agent_step ?s (3, ?poll) (start_sys polled_agent 3)"
    using poll_turn [of ?s 3 "(''peer'', example_addr)" "[]" serving_poll] serving_polled
    by (simp add: start_sys_def serving_poll_def)
  have later: "agent_run (start_sys polled_agent 3) ([] @ [(10 * second, EvPrune [''peer''])]) (start_sys ?b (10 * second))"
    using agent_step.prune [of "start_sys polled_agent 3" "10 * second" "[''peer'']"] polled_order
    by (intro run_snoc [OF run_Nil]) (simp add: start_sys_def)
  have "ag_reg ?b = ag_reg polled_agent"
    by (simp add: prune_turn_def polled_agent_def Prune_def Upsert_def New_def StaleAfter_def)
  then have order: "iter_order (nodes (ag_reg ?b)) [''peer'']" and ns: "Nodes insertionSort [''peer''] ?b =
      [example_peer\<lparr>ns_Self := False, ns_Addr := example_addr, ns_UpdatedAt := 3\<rparr>]"
    using polled_order polled_nodes by (simp_all add: Nodes_def)
  have "iter_order (seen_models (15 * second) (Nodes insertionSort [''peer''] ?b)) [''m'']"
    unfolding ns by (simp add: iter_order_def seen_models_def eligible_def StaleAfter_def example_peer_def example_defs example_model_def)
  moreover have "offers example_peer ''m''" by (simp add: offers_def example_peer_def example_defs example_model_def)
  moreover have "reg_inv (ag_reg serving_peer)" by (simp add: serving_peer_def step_inv)
  moreover obtain files where "NewAgent None (example_id_env [1, 2, 3, 4, 5, 6, 7, 8]) Map.empty
      (\<lambda>u. Some (gw_ollama example_gateway)) (\<lambda>b. None) example_config = (files, Some example_agent)"
    using example_agent_new by blast
  ultimately have "\<exists>n. Pick (15 * second) [''m''] (Nodes insertionSort [''peer''] ?b) ''m'' = Inr n"
    using joined_peer_serves [OF _ run poll _ serving_peer_self _ example_peer_ok _ _ _ _ later, where name = "''m''" and tt = Itoa and now = "15 * second" and
        srt = insertionSort and order = "[''peer'']" and names = "[''m'']"] order
    by (simp add: example_pt_Itoa serving_poll_def example_agent_def serving_peer_def withdraws_def start_sys_def)
  with later show ?thesis by (auto simp: start_sys_def)
qed

section \<open>This node's own entry\<close>

lemma own_step:
  assumes "agent_step s (t, e) s'" and "reg_inv (ag_reg (sy_agent s))" and "ag_id (sy_agent s) = me" and "\<not> mentions me me e"
    and "(\<exists>mc get order. e = EvRefresh mc get order) \<or> (\<exists>n. Get (ag_reg (sy_agent s)) me = Some n \<and> ns_Self n)"
  shows "\<exists>n. Get (ag_reg (sy_agent s')) me = Some n \<and> ns_Self n"
proof (cases "\<exists>mc get order. e = EvRefresh mc get order")
  case True
  then show ?thesis
    using agent_step_registry [OF assms(1)] assms(3) by (auto simp: turn_state_def reg.get_upsert [OF assms(2)] self_state_def Let_def)
next
  case False
  note R = agent_step_registry [OF assms(1)]
  from False assms(5) obtain n where n: "Get (ag_reg (sy_agent s)) me = Some n" "ns_Self n" by auto
  have "ns_ID m \<noteq> me" if "turn_state s e = Some m" for m
    using that False assms(3,4) by (auto simp: turn_state_def mentions_def split: agent_event.splits if_splits)
  then consider order where "e = EvPrune order" | m where "turn_state s e = Some m" "ns_ID m \<noteq> me" "\<nexists>order. e = EvPrune order"
    | "turn_state s e = None" "\<nexists>order. e = EvPrune order"
    by (cases "turn_state s e") auto
  then show ?thesis
  proof cases
    case 1
    with R reg.self_survives [OF assms(2) n] n show ?thesis by auto
  next
    case 2
    with R reg.get_upsert [OF assms(2), of t m me] n show ?thesis by (auto split: agent_event.splits)
  next
    case 3
    with R n show ?thesis by (auto split: agent_event.splits)
  qed
qed

lemma own_run:
  assumes "agent_run s0 evs s" and "reg_inv (ag_reg (sy_agent s0))"
    and "\<forall>(t, e) \<in> set evs. \<not> mentions (ag_id (sy_agent s0)) (ag_id (sy_agent s0)) e"
  shows "reg_inv (ag_reg (sy_agent s)) \<and> ag_id (sy_agent s) = ag_id (sy_agent s0) \<and>
    ((\<exists>t mc get order. (t, EvRefresh mc get order) \<in> set evs) \<longrightarrow>
       (\<exists>n. Get (ag_reg (sy_agent s)) (ag_id (sy_agent s0)) = Some n \<and> ns_Self n))"
  using assms(1,3)
proof (induction rule: agent_run.induct)
  case run_Nil
  show ?case using assms(2) by simp
next
  case (run_snoc evs s ev s')
  let ?me = "ag_id (sy_agent s0)"
  obtain t e where ev: "ev = (t, e)" by (cases ev)
  from run_snoc have IH: "reg_inv (ag_reg (sy_agent s))" "ag_id (sy_agent s) = ?me"
    "(\<exists>t mc get order. (t, EvRefresh mc get order) \<in> set evs) \<longrightarrow> (\<exists>n. Get (ag_reg (sy_agent s)) ?me = Some n \<and> ns_Self n)"
    by auto
  have step: "agent_step s (t, e) s'" and quiet: "\<not> mentions ?me ?me e"
    using run_snoc.hyps(2) run_snoc.prems by (auto simp: ev)
  have inv: "reg_inv (ag_reg (sy_agent s'))"
    using agent_step_registry [OF step] IH(1) by (auto simp: step_inv split: agent_event.splits option.splits)
  have "\<exists>n. Get (ag_reg (sy_agent s')) ?me = Some n \<and> ns_Self n"
    if "\<exists>t mc get order. (t, EvRefresh mc get order) \<in> set (evs @ [ev])"
    using that IH(3) by (intro own_step [OF step IH(1,2) quiet]) (auto simp: ev)
  with inv IH(2) agent_step_identity [OF run_snoc.hyps(2)] show ?case by simp
qed

text \<open>
  C23.  From its first refresh on a node always knows itself: unless a peer answers with this node's
  identifier, its state is served with status 200, however long its own probes take, and its entry
  stands first in every listing of the pool.
\<close>

theorem own_entry_stays:
  assumes "NewAgent hostname env files parse lookPath config = (files', Some a)"
    and "agent_run (start_sys a t0) evs s" and "(t, EvRefresh mc get order') \<in> set evs"
    and "\<forall>(t, e) \<in> set evs. \<not> mentions (ag_id a) (ag_id a) e"
    and "slice_sort srt" and "iter_order (nodes (ag_reg (sy_agent s))) order"
  shows "rp_Status (handleState tt (sy_agent s)) = 200 \<and>
    (\<exists>n ns. Nodes srt order (sy_agent s) = n # ns \<and> ns_ID n = ag_id a \<and> ns_Self n \<and> (\<forall>m \<in> set ns. \<not> ns_Self m))"
proof -
  let ?r = "ag_reg (sy_agent s)"
  have "ag_reg a = New" using NewAgent_fresh [OF assms(1)] by simp
  then have I: "agent_inv a evs s" using NewAgent_fresh [OF assms(1)] by (intro agent_inv_run [OF assms(2)]) simp_all
  from own_run [OF assms(2)] assms(3,4) \<open>ag_reg a = New\<close> obtain n where
    n: "Get ?r (ag_id a) = Some n" "ns_Self n" and ident: "ag_id (sy_agent s) = ag_id a" and inv: "reg_inv ?r"
    by (auto simp: start_sys_def New_inv)
  have "rp_Status (handleState tt (sy_agent s)) = 200"
    using n(1) ident by (simp add: handleState_def json_reply_def)
  moreover have set: "set (Snapshot srt order ?r) = ran (nodes ?r)" by (rule Snapshot_set [OF assms(5,6)])
  have dist: "distinct (map ns_ID (Snapshot srt order ?r))"
    using distinct_map_values [OF inv assms(6)] Snapshot_mset [OF assms(5,6)] by (metis mset_eq_imp_distinct_iff mset_map)
  have own: "m = n" if "m \<in> set (Snapshot srt order ?r)" "ns_Self m" for m
    using that I n(1) by (auto simp: set agent_inv_def filed_ok_def ran_def Get_def reg_inv_ID [OF inv])
  have mem: "n \<in> set (Snapshot srt order ?r)" using n(1) unfolding set by (auto simp: Get_def ran_def)
  have sorted: "sorted_by snapshot_less (Snapshot srt order ?r)"
    unfolding Snapshot_def by (rule slice_sort.srt_sorted [OF assms(5) strict_weak_snapshot])
  obtain m ms where ms: "Snapshot srt order ?r = m # ms" using mem by (cases "Snapshot srt order ?r") auto
  have "ns_Self m"
    using sorted mem n(2) by (auto simp: ms sorted_by_def snapshot_less_def split: if_splits)
  with own [of m] ms have "m = n" by simp
  moreover have "\<not> ns_Self k" if "k \<in> set ms" for k
    using own [of k] that dist \<open>m = n\<close> by (auto simp: ms)
  ultimately show ?thesis
    using ms n reg_inv_ID [OF inv] by (auto simp: Nodes_def Get_def)
qed

theorem own_entry_stays_witness:
  "rp_Status (handleState Itoa (refreshSelf 1 example_machine example_ollama [] example_agent)) = 200"
proof -
  let ?s = "start_sys example_agent 0" and ?a = "refreshSelf 1 example_machine example_ollama [] example_agent"
  have run: "agent_run ?s ([] @ [(1, EvRefresh example_machine example_ollama [])]) (start_sys ?a 1)"
    using agent_step.refresh [of ?s 1 example_machine example_ollama "[]"]
    by (intro run_snoc [OF run_Nil]) (simp add: start_sys_def)
  obtain files where new: "NewAgent None (example_id_env [1, 2, 3, 4, 5, 6, 7, 8]) Map.empty
      (\<lambda>u. Some (gw_ollama example_gateway)) (\<lambda>b. None) example_config = (files, Some example_agent)"
    using example_agent_new by blast
  have "reg_inv (ag_reg ?a)" by (simp add: refreshSelf_def example_agent_def step_inv)
  then obtain order where "iter_order (nodes (ag_reg ?a)) order"
    using iter_order_exists unfolding reg_inv_def by blast
  then show ?thesis
    using own_entry_stays [OF new run, of 1 example_machine example_ollama "[]" insertionSort order Itoa]
    by (simp add: mentions_def start_sys_def)
qed

text \<open>
  The hypothesis is needed: the answer of a peer is filed under the identifier it carries, so a peer
  that answers with this node's identifier replaces this node's own entry by one that is not
  marked as its own and can be pruned.
\<close>

lemma spoofed_identity:
  assumes "polled_state env (k, addr) = Some st" and "ns_ID st = ag_id a" and "k \<noteq> ag_id a" and "reg_inv (ag_reg a)"
  shows "Get (ag_reg (poll_peer env (k, addr) a)) (ag_id a) = Some (st\<lparr>ns_UpdatedAt := pe_now env k\<rparr>) \<and> \<not> ns_Self st"
  using assms reg.get_upsert [OF assms(4), of "pe_now env k" st "ag_id a"]
  by (auto simp: poll_peer_def polled_state_def)

text \<open>
  Nor is the pool a state names compared with the agent's: a peer that restarts in another pool at an
  address once announced stays listed.
\<close>

lemma polled_other_pool:
  assumes "polled_state env (k, addr) = Some st" and "k \<noteq> ag_id a" and "reg_inv (ag_reg a)"
  shows "\<exists>n. Get (ag_reg (poll_peer env (k, addr) a)) (ns_ID st) = Some n \<and> ns_Pool n = ns_Pool st \<and> ns_Sharing n = ns_Sharing st"
  using assms reg.get_upsert [OF assms(3), of "pe_now env k" st "ns_ID st"] by (simp add: poll_peer_def)

end
