(* ===== verification/AgentSplit.thy ===== *)
theory AgentSplit
  imports AgentRun
begin

text \<open>
  \<^verbatim>\<open>internal/agent/split.go\<close>: driving pipelines on this node, recruiting workers for them, and the
  handlers through which peers ask for either.  The pipelines the gateway reaches through
  \<open>split_runner\<close> are the agent's, so the contract \<open>split_driver\<close> is interpreted here on these
  definitions.  An agent made by \<^verbatim>\<open>New\<close> has a worker and a manager; the tests for \<^verbatim>\<open>nil\<close> are left out.
\<close>

section \<open>Errors and their texts\<close>

definition worker_Port :: "Worker \<Rightarrow> int" where "worker_Port w = wk_port w"

definition blob_error_text :: "string \<Rightarrow> blob_error \<Rightarrow> string" where
  "blob_error_text cause e =
     (case e of
        ModelNotFound model \<Rightarrow> ''model '' @ Quote model @ '' not found in ollama store: '' @ cause
      | BadManifest model \<Rightarrow> ''bad manifest for '' @ Quote model @ '': '' @ cause
      | MissingBlob model blob \<Rightarrow> ''manifest for '' @ Quote model @ '' points at missing blob '' @ blob
      | NoModelLayer model \<Rightarrow> ''manifest for '' @ Quote model @ '' has no model layer'')"

definition ensure_error_text :: "ensure_error \<Rightarrow> string" where
  "ensure_error_text e =
     (case e of
        NotInstalled \<Rightarrow> ''llama-server not installed on this node''
      | NoFreePort base limit \<Rightarrow> ''no free port in range '' @ Itoa base @ ''-'' @ Itoa limit
      | StartFailed err \<Rightarrow> ''starting llama-server: '' @ err
      | WaitFailed w \<Rightarrow> wait_error_text w)"

text \<open>The only time limit that is printed is a whole number of seconds.\<close>

definition worker_error_text :: "worker_error \<Rightarrow> string" where
  "worker_error_text e =
     (case e of
        NoRPCServer \<Rightarrow> ''rpc-server not installed on this node''
      | StartError err \<Rightarrow> ''starting rpc-server: '' @ err
      | NotListening addr t \<Rightarrow> ''rpc-server did not start listening on '' @ addr @ '' within '' @ Itoa (t div second) @ ''s'')"

datatype local_error =
  LlamaServerMissing | Blob blob_error | NoWorkers string | PipelineFailed ensure_error

definition local_error_text :: "string \<Rightarrow> local_error \<Rightarrow> string" where
  "local_error_text cause e =
     (case e of
        LlamaServerMissing \<Rightarrow> ''llama-server not available on this node''
      | Blob b \<Rightarrow> blob_error_text cause b
      | NoWorkers model \<Rightarrow> ''no workers could be recruited for '' @ Quote model
      | PipelineFailed p \<Rightarrow> ensure_error_text p)"

section \<open>Recruiting a worker\<close>

text \<open>
  What driving a pipeline meets: the file system (and the text of its errors), the URLs that cannot be
  parsed, the answers of peers, and what \<^verbatim>\<open>Ensure\<close> meets.
\<close>

record drive_env =
  dv_fs :: file_system
  dv_cause :: string
  dv_bad_url :: "string \<Rightarrow> string option"
  dv_do :: "upstream_request \<Rightarrow> upstream"
  dv_launch :: launch_env
  dv_wait :: "int \<Rightarrow> wait_error option"

datatype recruit_error =
  RequestFailed string | Refused int string | BadAnswer | BadAddr string addr_error

definition agent_token :: "Agent \<Rightarrow> headers" where
  "agent_token a = (if cfg_Token (ag_cfg a) \<noteq> [] then [(TokenHeader, cfg_Token (ag_cfg a))] else [])"

definition decode_port :: "string \<Rightarrow> int option" where
  "decode_port body = Option.bind (Decode body) (struct_of (int_field ''port''))"

definition recruitWorker :: "drive_env \<Rightarrow> Agent \<Rightarrow> string \<Rightarrow> recruit_error + string" where
  "recruitWorker env a agentAddr =
     (let target = ''http://'' @ agentAddr @ ''/api/rpc/start''
      in case dv_bad_url env target of
           Some err \<Rightarrow> Inl (RequestFailed err)
         | None \<Rightarrow>
             (case dv_do env \<lparr>ur_URL = target, ur_Headers = agent_token a, ur_Body = []\<rparr> of
                Unreachable err \<Rightarrow> Inl (RequestFailed err)
              | Answer status hdrs reads \<Rightarrow>
                  let body = concat (map fst reads) in
                  if status \<noteq> 200 then Inl (Refused status (TrimSpace (take 1024 body)))
                  else (case decode_port body of
                          None \<Rightarrow> Inl BadAnswer
                        | Some port \<Rightarrow>
                            (case SplitHostPort agentAddr of
                               Inl e \<Rightarrow> Inl (BadAddr agentAddr e)
                             | Inr (host, _) \<Rightarrow> Inr (JoinHostPort host (Itoa port))))))"

section \<open>Driving a pipeline\<close>

text \<open>The recruiting loop: a worker that cannot be recruited is left out.\<close>

fun recruit_all :: "drive_env \<Rightarrow> Agent \<Rightarrow> string list \<Rightarrow> string list" where
  "recruit_all env a [] = []"
| "recruit_all env a (addr # addrs) =
     (case recruitWorker env a addr of
        Inl e \<Rightarrow> recruit_all env a addrs
      | Inr rpc \<Rightarrow> rpc # recruit_all env a addrs)"

definition EnsureLocal :: "drive_env \<Rightarrow> string \<Rightarrow> string list \<Rightarrow> Agent \<Rightarrow> Agent \<times> (local_error + int)" where
  "EnsureLocal env model workerAgentAddrs a =
     (if \<not> Available (ag_pipelines a) then (a, Inl LlamaServerMissing)
      else (case ModelBlobPath (dv_fs env) (cfg_ModelsDir (ag_cfg a)) model of
              Inl e \<Rightarrow> (a, Inl (Blob e))
            | Inr gguf \<Rightarrow>
                let rpcAddrs = recruit_all env a workerAgentAddrs in
                if workerAgentAddrs \<noteq> [] \<and> rpcAddrs = [] then (a, Inl (NoWorkers model))
                else
                  (let (m, port, err) = Ensure (dv_launch env) (dv_wait env)
                         \<lparr>rq_model = model, rq_gguf = gguf, rq_workers = rpcAddrs, rq_ctxSize = cfg_CtxSize (ag_cfg a)\<rparr>
                         (ag_pipelines a)
                   in (a\<lparr>ag_pipelines := m\<rparr>, (case err of None \<Rightarrow> Inr port | Some e \<Rightarrow> Inl (PipelineFailed e))))))"

definition PipelinePort :: "string \<Rightarrow> Agent \<Rightarrow> int option" where
  "PipelinePort model a = Port (ag_pipelines a) model"

definition TouchPipeline :: "instant \<Rightarrow> string \<Rightarrow> Agent \<Rightarrow> Agent" where
  "TouchPipeline now model a = a\<lparr>ag_pipelines := TouchPipe now model (ag_pipelines a)\<rparr>"

text \<open>What the gateway sees of it: errors as texts.\<close>

definition ensure_text :: "drive_env \<Rightarrow> string \<Rightarrow> string list \<Rightarrow> Agent \<Rightarrow> Agent \<times> (string + int)" where
  "ensure_text env model ws a = apsnd (map_sum (local_error_text (dv_cause env)) (\<lambda>p. p)) (EnsureLocal env model ws a)"

definition agent_runner :: "drive_env \<Rightarrow> instant \<Rightarrow> Agent split_runner" where
  "agent_runner env now =
     \<lparr>sr_EnsureLocal = ensure_text env, sr_PipelinePort = PipelinePort, sr_TouchPipeline = TouchPipeline now\<rparr>"

section \<open>Handlers for peers\<close>

definition no_token :: reply where
  "no_token = text_error 401 ''missing or invalid pool token''"

definition agent_token_ok :: "Agent \<Rightarrow> http_request \<Rightarrow> bool" where
  "agent_token_ok a r \<longleftrightarrow> token_ok (cfg_Token (ag_cfg a)) r"

definition port_reply :: "int \<Rightarrow> reply" where
  "port_reply port = json_reply (encode_json (JObj [(''port'', int_json port)]))"

text \<open>\<open>wait\<close> is the outcome of \<^verbatim>\<open>waitForPort\<close>.\<close>

definition handleRPCStart :: "worker_env \<Rightarrow> (string \<Rightarrow> duration \<Rightarrow> worker_error option) \<Rightarrow> http_request \<Rightarrow> Agent
    \<Rightarrow> Agent \<times> reply" where
  "handleRPCStart env wait r a =
     (if \<not> agent_token_ok a r then (a, no_token)
      else if \<not> worker_Available (ag_worker a) then (a, text_error 501 ''rpc-server not installed on this node'')
      else if \<not> cfg_Share (ag_cfg a) then (a, text_error 403 ''this node is not sharing'')
      else (case worker_Ensure env wait (ag_worker a) of
              (w, Some e) \<Rightarrow> (a\<lparr>ag_worker := w\<rparr>, text_error 500 (worker_error_text e))
            | (w, None) \<Rightarrow> (a\<lparr>ag_worker := w\<rparr>, port_reply (worker_Port w))))"

text \<open>The process that is killed, and the reply.\<close>

definition handleRPCStop :: "http_request \<Rightarrow> Agent \<Rightarrow> nat option \<times> reply" where
  "handleRPCStop r a =
     (if \<not> agent_token_ok a r then (None, no_token)
      else (Stop (ag_worker a), \<lparr>rp_Status = 200, rp_Headers = [], rp_Body = []\<rparr>))"

definition read_EnsureRequest :: "(string \<times> json) list \<Rightarrow> EnsureRequest option" where
  "read_EnsureRequest ms = do {
     model \<leftarrow> string_field ''model'' ms; workers \<leftarrow> strings_field ''workers'' ms;
     Some \<lparr>er_Model = model, er_Workers = workers\<rparr> }"

definition decode_EnsureRequest :: "string \<Rightarrow> EnsureRequest option" where
  "decode_EnsureRequest body = Option.bind (Decode body) (struct_of read_EnsureRequest)"

definition handlePipelineEnsure :: "drive_env \<Rightarrow> http_request \<Rightarrow> Agent \<Rightarrow> Agent \<times> reply" where
  "handlePipelineEnsure env r a =
     (if \<not> agent_token_ok a r then (a, no_token)
      else
        (let bad = (a, text_error 400 ''body must be JSON with a model field'')
         in case Option.bind (map_option (take (2 ^ 20)) (hr_Body r)) decode_EnsureRequest of
              None \<Rightarrow> bad
            | Some req \<Rightarrow>
                if er_Model req = [] then bad
                else (case EnsureLocal env (er_Model req) (er_Workers req) a of
                        (a', Inl e) \<Rightarrow> (a', text_error 502 (local_error_text (dv_cause env) e))
                      | (a', Inr port) \<Rightarrow> (a', port_reply port))))"

section \<open>The contract of a driver\<close>

lemma EnsureLocal_cases:
  assumes "EnsureLocal env model ws a = (a', res)"
  shows "(a' = a \<and> (\<exists>e. res = Inl e \<and> (\<forall>p. e \<noteq> PipelineFailed p))) \<or>
    (\<exists>gguf m port err. Ensure (dv_launch env) (dv_wait env)
         \<lparr>rq_model = model, rq_gguf = gguf, rq_workers = recruit_all env a ws, rq_ctxSize = cfg_CtxSize (ag_cfg a)\<rparr>
         (ag_pipelines a) = (m, port, err) \<and> a' = a\<lparr>ag_pipelines := m\<rparr> \<and>
       res = (case err of None \<Rightarrow> Inr port | Some e \<Rightarrow> Inl (PipelineFailed e)))"
proof -
  note defn = assms [unfolded EnsureLocal_def]
  show ?thesis
  proof (cases "\<not> Available (ag_pipelines a)")
    case True
    with defn show ?thesis by auto
  next
    case avail: False
    show ?thesis
    proof (cases "ModelBlobPath (dv_fs env) (cfg_ModelsDir (ag_cfg a)) model")
      case (Inl e)
      with defn avail show ?thesis by auto
    next
      case (Inr gguf)
      show ?thesis
      proof (cases "ws \<noteq> [] \<and> recruit_all env a ws = []")
        case True
        with defn avail Inr show ?thesis by auto
      next
        case False
        obtain m port err where E: "Ensure (dv_launch env) (dv_wait env)
            \<lparr>rq_model = model, rq_gguf = gguf, rq_workers = recruit_all env a ws, rq_ctxSize = cfg_CtxSize (ag_cfg a)\<rparr>
            (ag_pipelines a) = (m, port, err)" by (metis prod_cases3)
        with defn avail Inr False have "a' = a\<lparr>ag_pipelines := m\<rparr>"
          "res = (case err of None \<Rightarrow> Inr port | Some e \<Rightarrow> Inl (PipelineFailed e))"
          by (simp_all add: Let_def)
        with E show ?thesis by blast
      qed
    qed
  qed
qed

lemma EnsureLocal_ready:
  assumes "EnsureLocal env model ws a = (a', Inr port)" and "\<not> loading (ag_pipelines a) model"
  shows "PipelinePort model a' = Some port"
  using EnsureLocal_cases [OF assms(1)] Ensure_spec assms(2)
  by (fastforce simp: PipelinePort_def split: option.splits)

lemma EnsureLocal_other:
  assumes "EnsureLocal env model ws a = (a', res)"
  shows "a' = a\<lparr>ag_pipelines := ag_pipelines a'\<rparr>"
    and "x \<noteq> model \<Longrightarrow> mg_pipelines (ag_pipelines a') x = mg_pipelines (ag_pipelines a) x"
proof -
  show "a' = a\<lparr>ag_pipelines := ag_pipelines a'\<rparr>" using EnsureLocal_cases [OF assms] by auto
  show "mg_pipelines (ag_pipelines a') x = mg_pipelines (ag_pipelines a) x" if "x \<noteq> model"
    using EnsureLocal_cases [OF assms] Ensure_spec that by fastforce
qed

lemma ensure_text_Inr: "ensure_text env model ws a = (a', Inr p) \<longleftrightarrow> EnsureLocal env model ws a = (a', Inr p)"
  by (cases "EnsureLocal env model ws a"; cases "snd (EnsureLocal env model ws a)") (auto simp: ensure_text_def)

lemma ensure_text_state: "ensure_text env model ws a = (a', res) \<Longrightarrow> \<exists>res'. EnsureLocal env model ws a = (a', res')"
  by (cases "EnsureLocal env model ws a") (auto simp: ensure_text_def)

lemma Port_touch: "Port (TouchPipe now x m) y = Port m y"
  by (cases "mg_pipelines m x") (auto simp: Port_def TouchPipe_def update_info_def split: option.split)

lemma Port_cong: "mg_pipelines m x = mg_pipelines m' x \<Longrightarrow> Port m x = Port m' x"
  by (simp add: Port_def)

interpretation drv: split_driver "ensure_text env" PipelinePort "TouchPipeline now" "\<lambda>a. loading (ag_pipelines a)"
  for env :: drive_env and now :: instant
proof
  show "PipelinePort model a' = Some p"
    if "ensure_text env model ws a = (a', Inr p)" "\<not> loading (ag_pipelines a) model" for model ws a a' p
    using that EnsureLocal_ready by (simp add: ensure_text_Inr)
  show "PipelinePort model' a' = PipelinePort model' a"
    if "ensure_text env model ws a = (a', res)" "model' \<noteq> model" for model ws a a' res model'
    using ensure_text_state [OF that(1)] EnsureLocal_other(2) that(2) by (metis PipelinePort_def Port_cong)
  show "PipelinePort model' (TouchPipeline now model a) = PipelinePort model' a" for model' model a
    by (simp add: PipelinePort_def TouchPipeline_def Port_touch)
qed

lemma agent_runner_drv: "agent_runner env now = drv.runner env now"
  by (simp add: agent_runner_def drv.runner_def)

section \<open>What peers send each other\<close>

lemma header_get_agent_token [simp]: "header_get (agent_token a) TokenHeader = cfg_Token (ag_cfg a)"
  by (simp add: header_get_def agent_token_def)

lemma decode_port_reply:
  assumes "0 \<le> port" "port < 2 ^ 63"
  shows "decode_port (rp_Body (port_reply port)) = Some port"
proof -
  let ?j = "JObj [(''port'', int_json port)]"
  have "fold_name ''port'' = ''port''" by (simp add: fold_name_def to_lower_def)
  moreover have "plain_json ?j" using assms by (intro plain_obj) auto
  then have "Decode (encode_json ?j @ [CHR 0x0A]) = Some ?j" by (rule Decode_encode) simp
  ultimately show ?thesis
    using assms by (simp add: decode_port_def port_reply_def json_reply_def int_field_def del: encode_json.simps)
qed

lemma encode_EnsureRequest_json:
  "encode_EnsureRequest r = encode_json (JObj [(''model'', JStr (er_Model r)), (''workers'', JArr (map JStr (er_Workers r)))])"
  by (simp add: encode_EnsureRequest_def json_object_def json_field_def encode_strings_json del: encode_json.simps(5))

lemma decode_encode_EnsureRequest: "decode_EnsureRequest (encode_EnsureRequest r) = Some r"
proof -
  let ?j = "JObj [(''model'', JStr (er_Model r)), (''workers'', JArr (map JStr (er_Workers r)))]"
  have "plain_json ?j" by (rule plain_obj) auto
  then have "Decode (encode_json ?j @ []) = Some ?j" by (rule Decode_encode) simp
  then show ?thesis
    using those_strings [of "er_Workers r"]
    by (simp add: decode_EnsureRequest_def encode_EnsureRequest_json read_EnsureRequest_def read_fields
        assign_strings_def comp_def del: encode_json.simps)
qed

text \<open>
  Recruiting is one conversation: the driver gets an endpoint exactly when the worker accepts its
  token, shares, has an \<^verbatim>\<open>rpc-server\<close> and could start it; the endpoint is then the host the driver
  asked, with the port of that server, which is running.
\<close>

lemma recruit_conversation:
  assumes "set host \<inter> brackets = {}" "set p \<inter> insert (CHR '':'') brackets = {}" "addr = JoinHostPort host p"
    and "dv_bad_url env (''http://'' @ addr @ ''/api/rpc/start'') = None"
    and "handleRPCStart wenv wait \<lparr>hr_Method = ''POST'', hr_Path = ''/api/rpc/start'', hr_Headers = agent_token a,
      hr_Body = Some []\<rparr> b = (b', rep)"
    and "dv_do env \<lparr>ur_URL = ''http://'' @ addr @ ''/api/rpc/start'', ur_Headers = agent_token a, ur_Body = []\<rparr>
      = Answer (rp_Status rep) hdrs [(rp_Body rep, True, True)]"
    and "0 \<le> wk_port (ag_worker b)" "wk_port (ag_worker b) < 2 ^ 63"
  shows "(recruitWorker env a addr = Inr rpc \<longleftrightarrow>
      (cfg_Token (ag_cfg b) = [] \<or> cfg_Token (ag_cfg a) = cfg_Token (ag_cfg b)) \<and> cfg_Share (ag_cfg b) \<and>
      worker_Available (ag_worker b) \<and> snd (worker_Ensure wenv wait (ag_worker b)) = None \<and>
      rpc = JoinHostPort host (Itoa (wk_port (ag_worker b)))) \<and>
    (recruitWorker env a addr = Inr rpc \<longrightarrow> Running (ag_worker b') \<and> wk_port (ag_worker b') = wk_port (ag_worker b))"
proof -
  let ?w = "ag_worker b" and ?body = "rp_Body rep"
  have split: "SplitHostPort addr = Inr (host, p)" unfolding assms(3) by (rule SplitHostPort_JoinHostPort [OF assms(1,2)])
  define answer where "answer = Answer (rp_Status rep) hdrs [(rp_Body rep, True, True)]"
  have R: "recruitWorker env a addr =
      (if rp_Status rep \<noteq> 200 then Inl (Refused (rp_Status rep) (TrimSpace (take 1024 ?body)))
       else case decode_port ?body of None \<Rightarrow> Inl BadAnswer | Some port \<Rightarrow> Inr (JoinHostPort host (Itoa port)))"
    unfolding recruitWorker_def Let_def assms(4,6) option.case upstream.case split by (simp split: option.split)
  have tok: "agent_token_ok b \<lparr>hr_Method = ''POST'', hr_Path = ''/api/rpc/start'', hr_Headers = agent_token a, hr_Body = Some []\<rparr>
      \<longleftrightarrow> cfg_Token (ag_cfg b) = [] \<or> cfg_Token (ag_cfg a) = cfg_Token (ag_cfg b)"
    by (simp add: agent_token_ok_def token_ok_def)
  obtain w e where w: "worker_Ensure wenv wait ?w = (w, e)" by fastforce
  show ?thesis
  proof (cases "agent_token_ok b \<lparr>hr_Method = ''POST'', hr_Path = ''/api/rpc/start'', hr_Headers = agent_token a, hr_Body = Some []\<rparr>
      \<and> worker_Available ?w \<and> cfg_Share (ag_cfg b) \<and> e = None")
    case True
    with assms(5) w have rep: "b' = b\<lparr>ag_worker := w\<rparr>" "rep = port_reply (wk_port w)"
      by (simp_all add: handleRPCStart_def worker_Port_def)
    have port: "wk_port w = wk_port ?w" and run: "Running w"
      using w True by (auto simp: worker_Ensure_def worker_section_def Running_def worker_Available_def
          split: if_splits option.splits)
    have "decode_port ?body = Some (wk_port ?w)" "rp_Status rep = 200"
      using decode_port_reply assms(7,8) by (simp_all add: rep port) (simp add: port_reply_def json_reply_def)
    with True tok w rep port run show ?thesis by (auto simp: R)
  next
    case False
    with assms(5) w have "rp_Status rep \<noteq> 200"
      by (auto simp: handleRPCStart_def no_token_def text_error_def split: if_splits option.splits)
    with False tok w show ?thesis by (auto simp: R)
  qed
qed

lemma handlePipelineEnsure_200:
  assumes "handlePipelineEnsure env r a = (a', rep)" and "rp_Status rep = 200"
    and "Option.bind (map_option (take (2 ^ 20)) (hr_Body r)) decode_EnsureRequest = Some req"
  shows "\<exists>port. EnsureLocal env (er_Model req) (er_Workers req) a = (a', Inr port) \<and> rep = port_reply port"
proof -
  obtain a1 res where E: "EnsureLocal env (er_Model req) (er_Workers req) a = (a1, res)" by fastforce
  note defn = assms(1) [unfolded handlePipelineEnsure_def Let_def assms(3) option.case E prod.case]
  from defn assms(2) show ?thesis
    by (cases res) (auto simp: no_token_def text_error_def E split: if_splits)
qed

text \<open>
  A pipeline on another node: when the driver answers a peer's request to bring up a pipeline with
  success, the request the peer then sends for the model is let through to exactly the port of
  that pipeline, which is ready, under the path of the client's request, unless another
  caller was loading the model.
\<close>

lemma remote_pipeline_serves:
  assumes "gw_token g = cfg_Token (ag_cfg a)" and "gw_token (ag_gw a) = cfg_Token (ag_cfg a)"
    and "handlePipelineEnsure env \<lparr>hr_Method = ''POST'', hr_Path = ''/api/pipeline/ensure'',
        hr_Headers = json_type # token_headers g,
        hr_Body = Some (encode_EnsureRequest \<lparr>er_Model = model, er_Workers = workers\<rparr>)\<rparr> a = (a', rep)"
    and "rp_Status rep = 200" and "length (encode_EnsureRequest \<lparr>er_Model = model, er_Workers = workers\<rparr>) \<le> 2 ^ 20"
    and "\<not> loading (ag_pipelines a) model" and "HasPrefix path ''/''"
    and "r = \<lparr>hr_Method = ''POST'', hr_Path = ''/proxy/llama'' @ path,
        hr_Headers = ur_Headers (split_request g target model body), hr_Body = Some body\<rparr>"
  shows "\<exists>port. PipelinePort model a' = Some port \<and> rep = port_reply port \<and>
    handleLlamaProxy genv (Some (agent_runner env now)) r (ag_gw a') a' =
      (end_job (begin_job (ag_gw a')), TouchPipeline now model a', ge_proxy genv (local_url port @ path) (r\<lparr>hr_Path := path\<rparr>))"
proof -
  let ?rq = "\<lparr>er_Model = model, er_Workers = workers\<rparr>"
  have "take (2 ^ 20) (encode_EnsureRequest ?rq) = encode_EnsureRequest ?rq" using assms(5) by simp
  then have decoded: "Option.bind (map_option (take (2 ^ 20)) (Some (encode_EnsureRequest ?rq))) decode_EnsureRequest = Some ?rq"
    by (simp only: option.map Option.bind.bind_lunit decode_encode_EnsureRequest)
  obtain port where E: "EnsureLocal env model workers a = (a', Inr port)" and rep: "rep = port_reply port"
    using handlePipelineEnsure_200 [OF assms(3,4), of ?rq, unfolded http_request.simps EnsureRequest.simps, OF decoded]
    by blast
  have port: "PipelinePort model a' = Some port" by (rule EnsureLocal_ready [OF E assms(6)])
  have "ag_gw a' = ag_gw a" using EnsureLocal_cases [OF E] by auto
  then have tok: "token_ok (gw_token (ag_gw a')) r" "header_get (hr_Headers r) ModelHeader = model"
    using assms(1,2) by (simp_all add: token_ok_def assms(8) split_request_def)
  have "handleLlamaProxy genv (Some (drv.runner env now)) r (ag_gw a') a' =
      (end_job (begin_job (ag_gw a')), TouchPipeline now model a', ge_proxy genv (local_url port @ path) (r\<lparr>hr_Path := path\<rparr>))"
    using drv.ensured_is_proxied [OF _ assms(6) tok _ assms(7), of env workers a' port] E assms(8)
    by (simp add: ensure_text_Inr)
  with port rep show ?thesis by (simp add: agent_runner_drv)
qed

definition example_manifest :: string where
  "example_manifest = encode_json (JObj [(''layers'', JArr [JObj
     [(''mediaType'', JStr model_media_type), (''digest'', JStr ''sha256:1'')]])])"

definition example_drive :: drive_env where
  "example_drive = \<lparr>dv_fs = \<lparr>read_file = (\<lambda>p. Some example_manifest), path_exists = (\<lambda>p. True)\<rparr>, dv_cause = [],
     dv_bad_url = (\<lambda>u. None), dv_do = (\<lambda>r. Answer 200 [] [(rp_Body (port_reply 50752), True, True)]),
     dv_launch = example_env, dv_wait = (\<lambda>port. None)\<rparr>"

definition driving_agent :: Agent where
  "driving_agent = example_agent\<lparr>ag_pipelines := NewManager ''llama-server'' 11500\<rparr>"

lemma example_layers: "manifest_layers example_manifest = Some [\<lparr>MediaType = model_media_type, Digest = ''sha256:1''\<rparr>]"
proof -
  let ?j = "JObj [(''layers'', JArr [JObj [(''mediaType'', JStr model_media_type), (''digest'', JStr ''sha256:1'')]])]"
  have "plain_json ?j" by (auto intro!: plain_json.intros)
  then have "Unmarshal example_manifest = Some ?j" unfolding example_manifest_def by (rule Unmarshal_encode)
  moreover have "fold_name ''layers'' = ''layers''" "fold_name ''mediaType'' = ''mediatype''" "fold_name ''digest'' = ''digest''"
    by code_simp+
  ultimately show ?thesis
    by (simp add: manifest_layers_def assign_layers_def string_field_def)
qed

lemma example_EnsureLocal:
  "\<exists>a'. EnsureLocal example_drive model (replicate (Suc k) ''10.0.0.2:11444'') driving_agent = (a', Inr 11500)"
proof -
  obtain path where blob: "ModelBlobPath (dv_fs example_drive) (cfg_ModelsDir (ag_cfg driving_agent)) model = Inr path"
    by (simp add: ModelBlobPath_def example_drive_def example_layers)
  have "SplitHostPort ''10.0.0.2:11444'' = Inr (''10.0.0.2'', ''11444'')" by code_simp
  then have "recruitWorker example_drive driving_agent ''10.0.0.2:11444'' = Inr (JoinHostPort ''10.0.0.2'' (Itoa 50752))"
    using decode_port_reply [of 50752] by (simp add: recruitWorker_def example_drive_def)
  then have workers: "recruit_all example_drive driving_agent (replicate n ''10.0.0.2:11444'')
      = replicate n (JoinHostPort ''10.0.0.2'' (Itoa 50752))" for n by (induction n) simp_all
  have avail: "Available (ag_pipelines driving_agent)" by (simp add: driving_agent_def Available_def NewManager_def)
  have "\<exists>m. Ensure (dv_launch example_drive) (dv_wait example_drive) rq (ag_pipelines driving_agent) = (m, 11500, None)"
    for rq
    by (simp add: Ensure_def ensure_begin_def launch_def ensure_finish_def ensure_wait_def NewManager_def
        example_env_def example_drive_def driving_agent_def)
  then obtain m where m: "Ensure (dv_launch example_drive) (dv_wait example_drive)
      \<lparr>rq_model = model, rq_gguf = path, rq_workers = replicate (Suc k) (JoinHostPort ''10.0.0.2'' (Itoa 50752)),
       rq_ctxSize = cfg_CtxSize (ag_cfg driving_agent)\<rparr> (ag_pipelines driving_agent) = (m, 11500, None)" by blast
  have "EnsureLocal example_drive model (replicate (Suc k) ''10.0.0.2:11444'') driving_agent = (driving_agent\<lparr>ag_pipelines := m\<rparr>, Inr 11500)"
    unfolding EnsureLocal_def blob workers using avail m by (simp add: Let_def del: replicate_Suc)
  then show ?thesis by blast
qed

definition ensure_request :: http_request where
  "ensure_request = \<lparr>hr_Method = ''POST'', hr_Path = ''/api/pipeline/ensure'',
     hr_Headers = json_type # token_headers (ag_gw driving_agent),
     hr_Body = Some (encode_EnsureRequest \<lparr>er_Model = ''m'', er_Workers = [''10.0.0.2:11444'']\<rparr>)\<rparr>"

lemma ensure_request_decoded:
  "Option.bind (map_option (take (2 ^ 20)) (hr_Body ensure_request)) decode_EnsureRequest
     = Some \<lparr>er_Model = ''m'', er_Workers = [''10.0.0.2:11444'']\<rparr>"
proof -
  let ?rq = "\<lparr>er_Model = ''m'', er_Workers = [''10.0.0.2:11444'']\<rparr>"
  have "length (encode_EnsureRequest ?rq) \<le> 2 ^ 20"
    by (simp add: encode_EnsureRequest_def json_object_def json_field_def encode_string_def encode_strings_def encode_char_def)
  then have "take (2 ^ 20) (encode_EnsureRequest ?rq) = encode_EnsureRequest ?rq" by simp
  then show ?thesis
    by (simp only: ensure_request_def http_request.simps option.map Option.bind.bind_lunit decode_encode_EnsureRequest)
qed

lemma example_ensure:
  "\<exists>a'. handlePipelineEnsure example_drive ensure_request driving_agent = (a', port_reply 11500)"
proof -
  have "agent_token_ok driving_agent ensure_request"
    by (simp add: agent_token_ok_def token_ok_def driving_agent_def example_agent_def example_config_def)
  then show ?thesis
    using ensure_request_decoded example_EnsureLocal [of "''m''" 0] by (force simp: handlePipelineEnsure_def Let_def)
qed

lemma example_driver_up:
  obtains a' p where "handlePipelineEnsure example_drive ensure_request driving_agent = (a', port_reply 11500)"
    and "a' = driving_agent\<lparr>ag_pipelines := ag_pipelines a'\<rparr>" and "mg_pipelines (ag_pipelines a') = [''m'' \<mapsto> p]"
    and "PipelinePort ''m'' a' = Some (pl_port p)"
proof -
  obtain a' where h: "handlePipelineEnsure example_drive ensure_request driving_agent = (a', port_reply 11500)"
    using example_ensure by blast
  moreover have "rp_Status (port_reply 11500) = 200" by (simp add: port_reply_def json_reply_def)
  ultimately obtain port where E: "EnsureLocal example_drive ''m'' [''10.0.0.2:11444''] driving_agent = (a', Inr port)"
    using handlePipelineEnsure_200 [OF _ _ ensure_request_decoded] by force
  have none: "mg_pipelines (ag_pipelines driving_agent) x = None" for x by (simp add: driving_agent_def NewManager_def)
  then have "PipelinePort ''m'' a' = Some port" by (intro EnsureLocal_ready [OF E]) (simp add: loading_def)
  then obtain p where p: "mg_pipelines (ag_pipelines a') ''m'' = Some p" "PipelinePort ''m'' a' = Some (pl_port p)"
    by (auto simp: PipelinePort_def Port_def split: option.splits if_splits)
  have "mg_pipelines (ag_pipelines a') = [''m'' \<mapsto> p]"
    using p(1) EnsureLocal_other(2) [OF E] none by (auto simp: fun_eq_iff)
  from that [OF h EnsureLocal_other(1) [OF E] this p(2)] show thesis .
qed

text \<open>
  What the configuration says and the handlers do: a node that does not share refuses to lend its
  \<^verbatim>\<open>rpc-server\<close>, but it drives pipelines for its peers as if it shared.
\<close>

lemma pipeline_ensure_ignores_share:
  "snd (handlePipelineEnsure env r (a\<lparr>ag_cfg := (ag_cfg a)\<lparr>cfg_Share := b\<rparr>\<rparr>)) = snd (handlePipelineEnsure env r a)"
proof -
  let ?a = "a\<lparr>ag_cfg := (ag_cfg a)\<lparr>cfg_Share := b\<rparr>\<rparr>"
  have tok: "agent_token ?a = agent_token a" by (simp add: agent_token_def)
  have "recruitWorker env ?a addr = recruitWorker env a addr" for addr
    unfolding recruitWorker_def tok ..
  then have all: "recruit_all env ?a ws = recruit_all env a ws" for ws
    by (induction ws) (simp_all split: sum.split)
  have cfg: "cfg_ModelsDir (ag_cfg ?a) = cfg_ModelsDir (ag_cfg a)" "cfg_CtxSize (ag_cfg ?a) = cfg_CtxSize (ag_cfg a)"
    "ag_pipelines ?a = ag_pipelines a" by simp_all
  have "snd (EnsureLocal env model ws ?a) = snd (EnsureLocal env model ws a)" for model ws
    unfolding EnsureLocal_def all cfg by (simp add: Let_def split: sum.split prod.split)
  then have same: "EnsureLocal env model ws ?a = (fst (EnsureLocal env model ws ?a), snd (EnsureLocal env model ws a))" for model ws
    by (simp add: prod_eq_iff)
  have tok: "agent_token_ok ?a r = agent_token_ok a r" by (simp add: agent_token_ok_def)
  show ?thesis
    unfolding handlePipelineEnsure_def tok Let_def
    by (subst same) (auto split: option.split sum.split prod.split)
qed

end
