(* ===== verification/FmtBytes.thy ===== *)
theory FmtBytes
  imports GoFloat GoStrings
begin

text \<open>
  \<^verbatim>\<open>fmtBytes\<close> of \<^verbatim>\<open>cmd/potluck/main.go\<close>: a number of bytes with one decimal and a binary unit.  The
  quotient of the two floats is exact but for the rounding of the number itself (the divisor is a
  power of two), and \<^verbatim>\<open>%.1f\<close> rounds it to tenths, ties to even.
\<close>

function unit_loop :: "u64 \<Rightarrow> u64 \<Rightarrow> nat \<Rightarrow> u64 \<times> nat" where
  "unit_loop v d e = (if v \<ge> 1024 then unit_loop (v div 1024) (d * 1024) (e + 1) else (d, e))"
  by pat_completeness auto
termination
proof (relation "measure (\<lambda>(v, d, e). unat v)")
  fix v d :: u64 and e :: nat
  assume "v \<ge> 1024"
  then have "1024 \<le> unat v" by (simp add: word_le_nat_alt)
  then show "((v div 1024, d * 1024, e + 1), v, d, e) \<in> measure (\<lambda>(v, d, e). unat v)"
    by (simp add: unat_div)
qed simp

declare unit_loop.simps [simp del]

definition half_even :: "nat \<Rightarrow> nat \<Rightarrow> nat" where
  "half_even a b = (let q = a div b; r = a mod b in if 2 * r < b \<or> 2 * r = b \<and> even q then q else q + 1)"

definition tenths :: "u64 \<Rightarrow> u64 \<Rightarrow> nat" where
  "tenths n d = half_even (10 * round53 (unat n)) (unat d)"

definition unit_letters :: string where "unit_letters = ''KMGTP''"

text \<open>\<open>None\<close> is the panic of an index out of range.\<close>

definition fmtBytes :: "u64 \<Rightarrow> string option" where
  "fmtBytes n =
     (if n < 1024 then Some (dec_digits (unat n) @ '' B'')
      else
        (let (d, e) = unit_loop (n div 1024) 1024 0
         in if e < length unit_letters then
              (let t = tenths n d
               in Some (dec_digits (t div 10) @ ''.'' @ dec_digits (t mod 10) @ '' '' @ [unit_letters ! e] @ ''B''))
            else None))"

lemma half_even_close: "0 < b \<Longrightarrow> 2 * (half_even a b * b) \<le> 2 * a + b \<and> 2 * a \<le> 2 * (half_even a b * b) + b"
proof -
  assume b: "0 < b"
  define q r where "q = a div b" and "r = a mod b"
  then have a: "a = q * b + r" "r < b" using b by (simp_all add: div_mult_mod_eq)
  have "half_even a b = (if 2 * r < b \<or> 2 * r = b \<and> even q then q else q + 1)"
    by (simp add: half_even_def q_def r_def Let_def)
  then show ?thesis using a by (auto simp: algebra_simps)
qed

text \<open>The loop divides until the value is below the next unit; ten powers of 1024 never occur.\<close>

lemma unit_loop_spec:
  assumes "unat v * 1024 ^ k \<le> N" "N < (unat v + 1) * 1024 ^ k" "0 < unat v" "N < 2 ^ 64"
    and "d = of_nat (1024 ^ k)" "0 < k"
  shows "\<exists>j. unit_loop v d e = (of_nat (1024 ^ (k + j)), e + j) \<and> 1024 ^ (k + j) \<le> N \<and> N < 1024 ^ (k + j + 1)"
  using assms
proof (induction v d e arbitrary: k rule: unit_loop.induct)
  case (1 v d e)
  show ?case
  proof (cases "v \<ge> 1024")
    case True
    then have big: "1024 \<le> unat v" by (simp add: word_le_nat_alt)
    let ?u = "unat v"
    have dm: "?u = 1024 * (?u div 1024) + ?u mod 1024" by simp
    have v': "unat (v div 1024) = ?u div 1024" by (simp add: unat_div)
    have "?u div 1024 * 1024 ^ Suc k \<le> ?u * 1024 ^ k"
      using dm by (metis div_times_less_eq_dividend mult.assoc mult_le_mono1 power_Suc)
    then have lo: "?u div 1024 * 1024 ^ Suc k \<le> N" using "1.prems"(1) by linarith
    have "?u + 1 \<le> (?u div 1024 + 1) * 1024" using dm by (simp add: algebra_simps)
    then have "(?u + 1) * 1024 ^ k \<le> (?u div 1024 + 1) * 1024 ^ Suc k"
      by (metis mult.assoc mult_le_mono1 power_Suc)
    then have hi: "N < (?u div 1024 + 1) * 1024 ^ Suc k" using "1.prems"(2) by linarith
    have d: "d * 1024 = of_nat (1024 ^ Suc k)" by (simp add: "1.prems"(5))
    have pos: "0 < ?u div 1024" using big by (simp add: div_greater_zero_iff)
    from "1.IH" [OF True, of "Suc k"] lo hi v' pos d "1.prems"(4) obtain j where
      j: "unit_loop (v div 1024) (d * 1024) (e + 1) = (of_nat (1024 ^ (Suc k + j)), e + 1 + j)"
        "1024 ^ (Suc k + j) \<le> N" "N < 1024 ^ (Suc k + j + 1)"
      by auto
    with True show ?thesis by (intro exI [of _ "Suc j"]) (simp add: unit_loop.simps [of v])
  next
    case False
    then have small: "unat v + 1 \<le> 1024" by (simp add: word_le_nat_alt)
    have "1024 ^ k \<le> unat v * 1024 ^ k" using "1.prems"(3) by simp
    then have "1024 ^ k \<le> N" using "1.prems"(1) by linarith
    moreover have "(unat v + 1) * 1024 ^ k \<le> 1024 * 1024 ^ k" using small by (rule mult_le_mono1)
    then have "N < 1024 ^ (k + 1)" using "1.prems"(2) unfolding power_add power_one_right mult.commute [of "1024 ^ k"]
      by linarith
    ultimately show ?thesis using False "1.prems"(5) by (intro exI [of _ 0]) (simp add: unit_loop.simps [of v])
  qed
qed

lemma unit_loop_bytes:
  assumes "1024 \<le> unat n"
  shows "\<exists>j. unit_loop (n div 1024) 1024 0 = (of_nat (1024 ^ (j + 1)), j) \<and>
    1024 ^ (j + 1) \<le> unat n \<and> unat n < 1024 ^ (j + 2)"
proof -
  have v: "unat (n div 1024) = unat n div 1024" by (simp add: unat_div)
  have hi: "unat n < (unat n div 1024 + 1) * 1024"
    using dividend_less_div_times [of 1024 "unat n"] by (simp add: algebra_simps)
  have lo: "unat n div 1024 * 1024 \<le> unat n" by simp
  have pos: "0 < unat n div 1024" using assms by (simp add: div_greater_zero_iff)
  have lt: "unat n < 2 ^ 64" using unsigned_less [of n, where ?'a = nat] by simp
  obtain j where j: "unit_loop (n div 1024) 1024 0 = (of_nat (1024 ^ (1 + j)), 0 + j)"
    "1024 ^ (1 + j) \<le> unat n" "unat n < 1024 ^ (1 + j + 1)"
    using unit_loop_spec [of "n div 1024" 1 "unat n" 1024 0, unfolded v power_one_right, OF lo hi pos lt]
    by (metis of_nat_numeral zero_less_one)
  have "1 + j + 1 = j + 2" "1 + j = j + 1" by simp_all
  with j show ?thesis by (metis add_0)
qed

lemma fmtBytes_large:
  assumes "1024 ^ (j + 1) \<le> unat n" and "unat n < 1024 ^ (j + 2)"
  shows "fmtBytes n = (if j < 5 then
      Some (dec_digits (tenths n (of_nat (1024 ^ (j + 1))) div 10) @ ''.'' @
        dec_digits (tenths n (of_nat (1024 ^ (j + 1))) mod 10) @ '' '' @ [unit_letters ! j] @ ''B'')
    else None)"
proof -
  have "(1024 :: nat) ^ 1 \<le> 1024 ^ (j + 1)" by (rule power_increasing) simp_all
  then have n: "1024 \<le> unat n" using assms(1) by (simp only: power_one_right)
  then obtain i where i: "unit_loop (n div 1024) 1024 0 = (of_nat (1024 ^ (i + 1)), i)"
    "1024 ^ (i + 1) \<le> unat n" "unat n < 1024 ^ (i + 2)"
    using unit_loop_bytes by blast
  have "(1024 :: nat) ^ (i + 1) < 1024 ^ (j + 2)" "(1024 :: nat) ^ (j + 1) < 1024 ^ (i + 2)"
    using i assms by linarith+
  then have "i = j" by (simp add: power_strict_increasing_iff del: power_Suc)
  moreover have "\<not> n < 1024" using n by (simp add: word_less_nat_alt)
  ultimately show ?thesis using i(1) by (simp add: fmtBytes_def unit_letters_def Let_def)
qed

lemma fmtBytes_panic_large:
  assumes "1024 ^ (j + 1) \<le> unat n" and "unat n < 1024 ^ (j + 2)"
  shows "j < 5 \<longleftrightarrow> unat n < 2 ^ 60" and "fmtBytes n = None \<longleftrightarrow> 2 ^ 60 \<le> unat n"
proof -
  have six: "(2 :: nat) ^ 60 = 1024 ^ 6" by simp
  show less: "j < 5 \<longleftrightarrow> unat n < 2 ^ 60"
  proof
    assume "j < 5"
    then have "(1024 :: nat) ^ (j + 2) \<le> 1024 ^ 6" by (intro power_increasing) simp_all
    with assms(2) six show "unat n < 2 ^ 60" by linarith
  next
    assume n: "unat n < 2 ^ 60"
    show "j < 5"
    proof (rule ccontr)
      assume "\<not> j < 5"
      then have "(1024 :: nat) ^ 6 \<le> 1024 ^ (j + 1)" by (intro power_increasing) simp_all
      with assms(1) n six show False by linarith
    qed
  qed
  show "fmtBytes n = None \<longleftrightarrow> 2 ^ 60 \<le> unat n" unfolding fmtBytes_large [OF assms, unfolded less] by auto
qed

lemma fmtBytes_panics: "fmtBytes n = None \<longleftrightarrow> 2 ^ 60 \<le> unat n"
proof (cases "1024 \<le> unat n")
  case True
  then show ?thesis using unit_loop_bytes fmtBytes_panic_large(2) by blast
next
  case False
  then show ?thesis by (simp add: fmtBytes_def word_less_nat_alt)
qed

text \<open>
  A size is printed in the largest unit it reaches, to the nearest tenth of that unit (exactly, for
  sizes below eight pebibytes, where no float rounds); and from an exbibyte on there is no letter
  for the unit, so the function panics.
\<close>

theorem fmtBytes_exact:
  assumes "1024 ^ (j + 1) \<le> unat n" and "unat n < 1024 ^ (j + 2)"
  shows "(fmtBytes n = None \<longleftrightarrow> 2 ^ 60 \<le> unat n) \<and>
    (unat n < 2 ^ 53 \<longrightarrow> (\<exists>t. 
       fmtBytes n = Some (dec_digits (t div 10) @ ''.'' @ dec_digits (t mod 10) @ '' '' @ [''KMGTP'' ! j] @ ''B'') \<and>
       20 * unat n \<le> 2 * (t * 1024 ^ (j + 1)) + 1024 ^ (j + 1) \<and>
       2 * (t * 1024 ^ (j + 1)) \<le> 20 * unat n + 1024 ^ (j + 1)))"
proof -
  note F = fmtBytes_large [OF assms, unfolded fmtBytes_panic_large(1) [OF assms]]
  note none = fmtBytes_panic_large(2) [OF assms]
  let ?d = "1024 ^ (j + 1) :: nat" and ?t = "tenths n (of_nat (1024 ^ (j + 1)))"
  have "\<exists>t. fmtBytes n = Some (dec_digits (t div 10) @ ''.'' @ dec_digits (t mod 10) @ '' '' @ [''KMGTP'' ! j] @ ''B'') \<and>
      20 * unat n \<le> 2 * (t * ?d) + ?d \<and> 2 * (t * ?d) \<le> 20 * unat n + ?d" if n: "unat n < 2 ^ 53"
  proof (intro exI conjI)
    have "?d < 2 ^ 64" using assms(1) unsigned_less [of n, where ?'a = nat] by simp
    moreover have "unat (of_nat m :: u64) = m" if "m < 2 ^ 64" for m :: nat
      using that by (simp add: unsigned_of_nat take_bit_nat_eq_self)
    ultimately have "unat (of_nat ?d :: u64) = ?d" by blast
    then have t: "?t = half_even (10 * unat n) ?d" using n by (simp add: tenths_def round53_small)
    show "fmtBytes n = Some (dec_digits (?t div 10) @ ''.'' @ dec_digits (?t mod 10) @ '' '' @ [''KMGTP'' ! j] @ ''B'')"
      using n unfolding F unit_letters_def by simp
    show "20 * unat n \<le> 2 * (?t * ?d) + ?d" "2 * (?t * ?d) \<le> 20 * unat n + ?d"
      using half_even_close [of ?d "10 * unat n"] unfolding t by simp_all
  qed
  with none show ?thesis by blast
qed

theorem fmtBytes_exact_witness:
  "fmtBytes (2 ^ 60) = None \<and> fmtBytes 1536 \<noteq> None"
proof -
  have "fmtBytes (2 ^ 60) = None" using fmtBytes_exact [of 5 "2 ^ 60"] by simp
  moreover have "fmtBytes 1536 \<noteq> None" using fmtBytes_exact [of 0 1536] by simp
  ultimately show ?thesis by blast
qed

end
