(* ===== verification/PoolView.thy ===== *)
theory PoolView
  imports AgentRun FmtBytes
begin

text \<open>
  The view of the pool that \<^verbatim>\<open>handlePool\<close> (\<^verbatim>\<open>internal/agent/agent.go\<close>) serves to the dashboard, as JSON,
  and the command \<^verbatim>\<open>potluck status\<close> (\<^verbatim>\<open>cmd/potluck/main.go\<close>) that reads and prints it.
\<close>

section \<open>Writing the view\<close>

declare dec_digits.simps [simp del]

definition detail_json :: "ModelDetail \<Rightarrow> json" where
  "detail_json d = JObj (model_members (md_Model d) @ [(''nodes'', slice_json (map JStr (md_Nodes d)))])"

text \<open>
  A duration of \<open>d\<close> microseconds, divided by 1000: the shortest decimal that reads back as the quotient
  is the quotient itself, as long as it has at most 15 digits (31 years).
\<close>

definition ms_fraction :: "nat \<Rightarrow> string" where
  "ms_fraction f = rev (dropWhile (\<lambda>c. c = CHR ''0'')
     (rev (dec_digits (f div 100) @ dec_digits (f div 10 mod 10) @ dec_digits (f mod 10))))"

definition ms_text :: "nat \<Rightarrow> string" where
  "ms_text d = dec_digits (d div 1000) @ (if d mod 1000 = 0 then [] else CHR ''.'' # ms_fraction (d mod 1000))"

definition request_json :: "(instant \<Rightarrow> string) \<Rightarrow> RequestRecord \<Rightarrow> json" where
  "request_json tt r = JObj
     [(''id'', int_json (rr_ID r)), (''time'', JStr (tt (rr_Time r))), (''path'', JStr (rr_Path r)),
      (''model'', JStr (rr_Model r)), (''node'', JStr (rr_Node r)), (''status'', int_json (rr_Status r)),
      (''duration_ms'', JNum (ms_text (nat (rr_Duration r))))]"

definition view_json :: "(instant \<Rightarrow> string) \<Rightarrow> PoolView \<Rightarrow> json" where
  "view_json tt v = JObj
     [(''pool'', JStr (pv_Pool v)), (''self'', JStr (pv_Self v)), (''nodes'', JArr (map (node_json tt) (pv_Nodes v))),
      (''models'', JArr (map detail_json (pv_Models v))), (''requests'', JArr (map (request_json tt) (pv_Requests v))),
      (''total_mem'', uint_json (pv_TotalMem v)), (''available_mem'', uint_json (pv_AvailableMem v)),
      (''online_nodes'', int_json (pv_OnlineNodes v))]"

text \<open>\<open>nodes_order\<close> and \<open>models_order\<close> are the orders in which the two maps are visited.\<close>

definition handlePool :: "(instant \<Rightarrow> string) \<Rightarrow> instant \<Rightarrow>
    ((NodeState \<Rightarrow> NodeState \<Rightarrow> bool) \<Rightarrow> NodeState list \<Rightarrow> NodeState list) \<Rightarrow>
    ((ModelDetail \<Rightarrow> ModelDetail \<Rightarrow> bool) \<Rightarrow> ModelDetail list \<Rightarrow> ModelDetail list) \<Rightarrow>
    string list \<Rightarrow> string list \<Rightarrow> Agent \<Rightarrow> reply" where
  "handlePool tt now srt msrt nodes_order models_order a =
     (let nodes = Snapshot srt nodes_order (ag_reg a)
      in json_reply (encode_json (view_json tt (pool_view now msrt models_order nodes a))))"

section \<open>The totals\<close>

lemma fold_count_node:
  "let v' = fold (count_node now) ns v; fresh = filter (\<lambda>n. now - ns_UpdatedAt n < StaleAfter) ns
   in pv_OnlineNodes v' = pv_OnlineNodes v + int (length fresh) \<and>
      pv_TotalMem v' = pv_TotalMem v + sum_list (map (\<lambda>n. res_MemTotal (ns_Resources n)) fresh) \<and>
      pv_AvailableMem v' = pv_AvailableMem v + sum_list (map mem_available fresh) \<and>
      pv_Pool v' = pv_Pool v \<and> pv_Self v' = pv_Self v \<and> pv_Nodes v' = pv_Nodes v \<and>
      pv_Models v' = pv_Models v \<and> pv_Requests v' = pv_Requests v"
proof (induction ns arbitrary: v)
  case (Cons n ns)
  then show ?case by (simp add: count_node_def Let_def)
qed simp

lemma unat_sum_list: "unat (sum_list ws :: u64) = sum_list (map unat ws) mod 2 ^ 64"
  by (induction ws) (simp_all add: unat_word_ariths mod_add_right_eq)

text \<open>
  C33.  The totals of the view count exactly the nodes seen in the last twenty seconds, sharing or not,
  each once: their number and the sums of their memory, modulo 2 ^ 64; and while the memory of the
  pool fits 64 bits, no more is available than there is.
\<close>

theorem pool_totals:
  assumes "v = pool_view now srt order ns a" and "fresh = filter (\<lambda>n. now - ns_UpdatedAt n < StaleAfter) ns"
    and "\<forall>n \<in> set ns. mem_available n \<le> res_MemTotal (ns_Resources n)"
    and "sum_list (map (\<lambda>n. unat (res_MemTotal (ns_Resources n))) fresh) < 2 ^ 64"
  shows "pv_OnlineNodes v = int (length fresh) \<and>
    unat (pv_TotalMem v) = sum_list (map (\<lambda>n. unat (res_MemTotal (ns_Resources n))) fresh) \<and>
    unat (pv_AvailableMem v) = sum_list (map (\<lambda>n. unat (mem_available n)) fresh) \<and>
    pv_AvailableMem v \<le> pv_TotalMem v \<and> pv_Nodes v = ns"
proof -
  have v: "pv_OnlineNodes v = int (length fresh)" "pv_Nodes v = ns"
    "pv_TotalMem v = sum_list (map (\<lambda>n. res_MemTotal (ns_Resources n)) fresh)"
    "pv_AvailableMem v = sum_list (map mem_available fresh)"
    using fold_count_node [where now = now and ns = ns] unfolding assms(1,2) pool_view_def Let_def by simp_all
  have le: "sum_list (map (\<lambda>n. unat (mem_available n)) fresh) \<le> sum_list (map (\<lambda>n. unat (res_MemTotal (ns_Resources n))) fresh)"
    using assms(2,3) by (intro sum_list_mono) (auto simp: word_le_nat_alt)
  with assms(4) have "unat (pv_TotalMem v) = sum_list (map (\<lambda>n. unat (res_MemTotal (ns_Resources n))) fresh)"
    "unat (pv_AvailableMem v) = sum_list (map (\<lambda>n. unat (mem_available n)) fresh)"
    by (simp_all add: v unat_sum_list comp_def)
  with le v show ?thesis by (simp add: word_le_nat_alt)
qed

theorem pool_totals_witness:
  "pv_OnlineNodes (pool_view 100 insertionSort [''m'', ''m:latest''] example_pool example_agent) = 3"
proof -
  let ?fresh = "filter (\<lambda>n. 100 - ns_UpdatedAt n < StaleAfter) example_pool"
  have len: "length ?fresh = 3" and mem: "\<forall>n \<in> set example_pool. mem_available n = 0 \<and> res_MemTotal (ns_Resources n) = 0"
    by (simp_all add: example_pool_def example_defs StaleAfter_def)
  then have "(\<Sum>n\<leftarrow>?fresh. unat (res_MemTotal (ns_Resources n))) = 0"
    by (simp add: sum_list_eq_0_iff)
  then have fits: "(\<Sum>n\<leftarrow>?fresh. unat (res_MemTotal (ns_Resources n))) < 2 ^ 64"
    by (metis zero_less_numeral zero_less_power)
  have "\<forall>n \<in> set example_pool. mem_available n \<le> res_MemTotal (ns_Resources n)" using mem by simp
  from pool_totals [OF refl refl this fits]
  have "pv_OnlineNodes (pool_view 100 insertionSort [''m'', ''m:latest''] example_pool example_agent) = int (length ?fresh)"
    by (rule conjunct1)
  with len show ?thesis by simp
qed

section \<open>Reading the view\<close>

text \<open>
  The fields \<^verbatim>\<open>status\<close> prints; the others are decoded and dropped.  \<open>f64\<close> says which numbers fit a float.
\<close>

record StatusView =
  sv_Pool :: string
  sv_Nodes :: "NodeState list"
  sv_Models :: "ModelDetail list"
  sv_TotalMem :: u64
  sv_AvailableMem :: u64
  sv_OnlineNodes :: int

fun assign_float :: "(string \<Rightarrow> bool) \<Rightarrow> unit option \<Rightarrow> json \<Rightarrow> unit option" where
  "assign_float f64 None v = None"
| "assign_float f64 (Some _) (JNum t) = (if f64 t then Some () else None)"
| "assign_float f64 (Some _) JNull = Some ()"
| "assign_float f64 (Some _) _ = None"

definition float_field :: "(string \<Rightarrow> bool) \<Rightarrow> string \<Rightarrow> (string \<times> json) list \<Rightarrow> unit option" where
  "float_field f64 name ms = foldl (assign_float f64) (Some ()) (field_values name ms)"

definition read_detail :: "(string \<times> json) list \<Rightarrow> ModelDetail option" where
  "read_detail ms = do {
     m \<leftarrow> read_model ms; nodes \<leftarrow> strings_field ''nodes'' ms;
     Some \<lparr>md_Model = m, md_Nodes = nodes\<rparr> }"

definition read_request :: "(string \<Rightarrow> instant option) \<Rightarrow> (string \<Rightarrow> bool) \<Rightarrow> (string \<times> json) list \<Rightarrow> unit option" where
  "read_request pt f64 ms = do {
     k \<leftarrow> int_field ''id'' ms; t \<leftarrow> time_field pt ''time'' ms; p \<leftarrow> string_field ''path'' ms;
     m \<leftarrow> string_field ''model'' ms; n \<leftarrow> string_field ''node'' ms; s \<leftarrow> int_field ''status'' ms;
     float_field f64 ''duration_ms'' ms }"

definition read_view :: "(string \<Rightarrow> instant option) \<Rightarrow> (string \<Rightarrow> bool) \<Rightarrow> (string \<times> json) list \<Rightarrow> StatusView option" where
  "read_view pt f64 ms = do {
     pool \<leftarrow> string_field ''pool'' ms; self \<leftarrow> string_field ''self'' ms;
     nodes \<leftarrow> list_field (struct_of (read_node pt)) ''nodes'' ms;
     models \<leftarrow> list_field (struct_of read_detail) ''models'' ms;
     reqs \<leftarrow> list_field (struct_of (read_request pt f64)) ''requests'' ms;
     tot \<leftarrow> uint_field ''total_mem'' ms; avail \<leftarrow> uint_field ''available_mem'' ms;
     online \<leftarrow> int_field ''online_nodes'' ms;
     Some \<lparr>sv_Pool = pool, sv_Nodes = nodes, sv_Models = models, sv_TotalMem = tot, sv_AvailableMem = avail,
       sv_OnlineNodes = online\<rparr> }"

section \<open>Printing the view\<close>

text \<open>\<^verbatim>\<open>fmt\<close> pads to a number of characters; the strings of a decoded view are valid UTF-8.\<close>

definition rune_count :: "string \<Rightarrow> nat" where
  "rune_count s = length (filter (\<lambda>c. let n = of_char c :: nat in n < 0x80 \<or> 0xC0 \<le> n) s)"

definition pad :: "nat \<Rightarrow> string \<Rightarrow> string" where
  "pad w s = s @ replicate (w - rune_count s) (CHR '' '')"

definition em_dash :: string where "em_dash = [CHR 0xE2, CHR 0x80, CHR 0x94]"

definition newline :: string where "newline = [CHR 0x0A]"

definition table_row :: "string \<Rightarrow> string \<Rightarrow> string \<Rightarrow> string \<Rightarrow> string \<Rightarrow> string" where
  "table_row name st mem active models =
     pad 18 name @ '' '' @ pad 10 st @ '' '' @ pad 12 mem @ '' '' @ pad 8 active @ '' '' @ models @ newline"

definition node_status :: "NodeState \<Rightarrow> string" where
  "node_status n =
     (let st = ''online''; st = (if \<not> ns_OllamaOK n then ''no-ollama'' else st)
      in if \<not> ns_Sharing n then ''consume'' else st)"

text \<open>The rows up to the first size that cannot be printed, and whether there is one.\<close>

fun status_rows :: "NodeState list \<Rightarrow> string \<times> bool" where
  "status_rows [] = ([], False)"
| "status_rows (n # ns) =
     (case fmtBytes (mem_available n) of
        None \<Rightarrow> ([], True)
      | Some mem \<Rightarrow>
          apfst (append (table_row (ns_Name n @ (if ns_Self n then ''*'' else [])) (node_status n) mem
             (Itoa (ns_Active n)) (Join (map model_Name (ns_Models n)) '', '')))
            (status_rows ns))"

text \<open>The exit code and what went to the two outputs; or what was printed when it panicked.\<close>

datatype status_out = Exit int string string | Panicked string

definition print_status :: "int \<Rightarrow> StatusView \<Rightarrow> status_out" where
  "print_status port v =
     (case (fmtBytes (sv_TotalMem v), fmtBytes (sv_AvailableMem v)) of
        (Some tot, Some avail) \<Rightarrow>
          (let head = ''pool '' @ Quote (sv_Pool v) @ '' '' @ em_dash @ '' '' @ Itoa (sv_OnlineNodes v) @
                 '' device(s) online, '' @ tot @ '' pooled memory ('' @ avail @ '' available)'' @ newline @ newline @
                 table_row ''DEVICE'' ''STATUS'' ''FREE MEM'' ''ACTIVE'' ''MODELS'';
               (rows, panicked) = status_rows (sv_Nodes v);
               foot = (if sv_Models v = [] then []
                 else newline @ ''servable models: '' @ Itoa (int (length (sv_Models v))) @ '' '' @ em_dash @
                   '' try: curl localhost:'' @ Itoa port @ ''/v1/models'' @ newline)
           in if panicked then Panicked (head @ rows) else Exit 0 (head @ rows @ foot) [])
      | _ \<Rightarrow> Panicked [])"

text \<open>\<open>cause\<close> is the text of the decoder's error.  The status code of the answer is not looked at.\<close>

definition status :: "(string \<Rightarrow> instant option) \<Rightarrow> (string \<Rightarrow> bool) \<Rightarrow> string \<Rightarrow> int \<Rightarrow> http_get \<Rightarrow> status_out" where
  "status pt f64 cause port answer =
     (case answer of
        GetFailed \<Rightarrow> Exit 1 [] (''no agent running on port '' @ Itoa port @ '' '' @ em_dash @ '' start one with `potluck`'' @ newline)
      | GetStatus code body \<Rightarrow>
          (case Option.bind (Decode body) (struct_of (read_view pt f64)) of
             None \<Rightarrow> Exit 1 [] (''bad response from agent: '' @ cause @ newline)
           | Some v \<Rightarrow> print_status port v))"

section \<open>The command reads what the agent wrote\<close>

lemma fold_view_keys [simp]:
  "fold_name ''nodes'' = ''nodes''"
  "fold_name ''requests'' = ''requests''"
  "fold_name ''available_mem'' = ''available_mem''"
  "fold_name ''online_nodes'' = ''online_nodes''"
  "fold_name ''total_mem'' = ''total_mem''"
  "fold_name ''time'' = ''time''"
  "fold_name ''path'' = ''path''"
  "fold_name ''node'' = ''node''"
  "fold_name ''status'' = ''status''"
  "fold_name ''duration_ms'' = ''duration_ms''"
  by (simp_all add: fold_name_def to_lower_def)

lemma ms_fraction_digits: "0 < f \<Longrightarrow> f < 1000 \<Longrightarrow> ms_fraction f \<noteq> [] \<and> list_all is_digit (ms_fraction f)"
proof -
  assume f: "0 < f" "f < 1000"
  let ?ds = "dec_digits (f div 100) @ dec_digits (f div 10 mod 10) @ dec_digits (f mod 10)"
  have digits: "\<forall>c \<in> set ?ds. is_digit c" using dec_digits_all by auto
  have zero: "n = 0" if "\<forall>c \<in> set (dec_digits n). c = CHR ''0''" for n
  proof -
    obtain d ds where d: "dec_digits n = d # ds" "d = CHR ''0'' \<longrightarrow> ds = []" using dec_digits_first [of n] by blast
    from that have "d = CHR ''0''" unfolding d(1) by simp
    with d have "dec_digits n = ''0''" by (simp only: simp_thms)
    then have "dec_value (dec_digits n) = 0" by (simp only:) (simp add: dec_value_def digit_value_def)
    then show ?thesis by (simp only: dec_value_dec_digits)
  qed
  have "ms_fraction f \<noteq> []"
  proof
    assume "ms_fraction f = []"
    then have "\<forall>c \<in> set ?ds. c = CHR ''0''" unfolding ms_fraction_def by (simp only: rev_is_Nil_conv dropWhile_eq_Nil_conv set_rev)
    then have all: "\<And>c. c \<in> set ?ds \<Longrightarrow> c = CHR ''0''" by blast
    have "f div 100 = 0" "f div 10 mod 10 = 0" "f mod 10 = 0" by (rule zero, intro ballI all, simp)+
    moreover have "f div 10 div 10 = f div 100" by (simp add: div_mult2_eq [symmetric])
    ultimately have "f div 10 = 0" "f mod 10 = 0" using div_mult_mod_eq [of "f div 10" 10] by simp_all
    then have "f = 0" using div_mult_mod_eq [of f 10] by simp
    with f show False by simp
  qed
  moreover have "set (ms_fraction f) \<subseteq> set ?ds" unfolding ms_fraction_def using set_dropWhileD by fastforce
  ultimately show ?thesis using digits by (auto simp: list_all_iff)
qed

lemma plain_ms: "plain_json (JNum (ms_text d))"
proof (cases "d mod 1000 = 0")
  case True
  then show ?thesis by (simp add: ms_text_def plain_json.intros)
next
  case False
  then have "frac_text (CHR ''.'' # ms_fraction (d mod 1000))"
    using ms_fraction_digits [of "d mod 1000"] by (simp add: frac_text_def)
  with False plain_json.intros(7) show ?thesis by (simp add: ms_text_def)
qed

text \<open>What a view must satisfy to be read back: its numbers fit the types they are read into.\<close>

definition request_ok :: "(string \<Rightarrow> bool) \<Rightarrow> RequestRecord \<Rightarrow> bool" where
  "request_ok f64 r \<longleftrightarrow> 0 \<le> rr_ID r \<and> rr_ID r < 2 ^ 63 \<and> 0 \<le> rr_Status r \<and> rr_Status r < 2 ^ 63 \<and>
     f64 (ms_text (nat (rr_Duration r)))"

definition view_ok :: "(string \<Rightarrow> bool) \<Rightarrow> PoolView \<Rightarrow> bool" where
  "view_ok f64 v \<longleftrightarrow> (\<forall>n \<in> set (pv_Nodes v). node_ok n) \<and> (\<forall>r \<in> set (pv_Requests v). request_ok f64 r) \<and>
     0 \<le> pv_OnlineNodes v \<and> pv_OnlineNodes v < 2 ^ 63"

definition status_view :: "PoolView \<Rightarrow> StatusView" where
  "status_view v =
     \<lparr>sv_Pool = pv_Pool v, sv_Nodes = pv_Nodes v, sv_Models = pv_Models v, sv_TotalMem = pv_TotalMem v,
      sv_AvailableMem = pv_AvailableMem v, sv_OnlineNodes = pv_OnlineNodes v\<rparr>"

lemma read_detail_json: "struct_of read_detail (detail_json d) = Some d"
  by (simp add: detail_json_def model_members_def read_detail_def read_model_def read_fields)

lemma read_request_json:
  "request_ok f64 r \<Longrightarrow> (\<And>t. pt (tt t) = Some t) \<Longrightarrow> struct_of (read_request pt f64) (request_json tt r) = Some ()"
  by (simp add: request_json_def read_request_def read_fields assign_time_def float_field_def request_ok_def)

lemma assign_list_const:
  "(\<And>x. x \<in> set xs \<Longrightarrow> elem (g x) = Some c) \<Longrightarrow> assign_list elem (Some old) (JArr (map g xs)) = Some (map (\<lambda>_. c) xs)"
proof -
  assume "\<And>x. x \<in> set xs \<Longrightarrow> elem (g x) = Some c"
  then have "those (map (\<lambda>x. elem (g x)) xs) = Some (map (\<lambda>_. c) xs)" by (induction xs) auto
  then show ?thesis by (simp add: assign_list_def comp_def)
qed

lemma read_view_json:
  assumes "view_ok f64 v" and "\<And>t. pt (tt t) = Some t"
  shows "struct_of (read_view pt f64) (view_json tt v) = Some (status_view v)"
proof -
  have "assign_list (struct_of (read_node pt)) (Some []) (JArr (map (node_json tt) (pv_Nodes v))) = Some (pv_Nodes v)"
    using assms by (intro assign_list_map read_node_json) (auto simp: view_ok_def)
  moreover have "assign_list (struct_of read_detail) (Some []) (JArr (map detail_json (pv_Models v))) = Some (pv_Models v)"
    by (intro assign_list_map read_detail_json)
  moreover have "assign_list (struct_of (read_request pt f64)) (Some []) (JArr (map (request_json tt) (pv_Requests v)))
      = Some (map (\<lambda>_. ()) (pv_Requests v))"
    using assms by (intro assign_list_const read_request_json) (auto simp: view_ok_def)
  ultimately show ?thesis
    using assms(1) by (simp add: view_json_def read_view_def read_fields status_view_def view_ok_def)
qed

lemma plain_detail: "plain_json (detail_json d)"
  unfolding detail_json_def using plain_members by (intro plain_obj) auto

lemma plain_request: "request_ok f64 r \<Longrightarrow> plain_json (request_json tt r)"
  unfolding request_json_def by (rule plain_obj) (auto simp: request_ok_def plain_ms)

lemma plain_view: "view_ok f64 v \<Longrightarrow> plain_json (view_json tt v)"
  unfolding view_json_def
  by (rule plain_obj) (auto simp: view_ok_def plain_node plain_detail intro!: plain_json.intros(5) plain_request [of f64])

lemma status_reads:
  assumes "view_ok f64 v" and "\<And>t. pt (tt t) = Some t"
  shows "status pt f64 cause port (GetStatus code (encode_json (view_json tt v) @ [CHR 0x0A])) = print_status port (status_view v)"
  using Decode_encode [OF plain_view [OF assms(1)], of "[CHR 0x0A]" tt] read_view_json [where tt = tt, OF assms]
  by (simp add: status_def)

lemma status_rows_panics: "snd (status_rows ns) \<longleftrightarrow> (\<exists>n \<in> set ns. fmtBytes (mem_available n) = None)"
  by (induction ns) (auto split: option.split)

text \<open>
  C29.  \<^verbatim>\<open>potluck status\<close> prints what the agent serves: from the agent's reply it prints the agent's own
  view, one row per node of the registry in the order of the snapshot, and exits with 0; and it
  panics exactly when one of the sizes it prints reaches an exbibyte, which any peer can advertise.
\<close>

theorem status_prints_view:
  assumes "v = pool_view now msrt models_order (Snapshot srt nodes_order (ag_reg a)) a" and "view_ok f64 v"
    and "\<And>t. pt (tt t) = Some t"
    and "answer = GetStatus code (rp_Body (handlePool tt now srt msrt nodes_order models_order a))"
  shows "status pt f64 cause port answer = print_status port (status_view v) \<and>
    ((\<exists>out. status pt f64 cause port answer = Panicked out) \<longleftrightarrow>
      (\<exists>m \<in> {pv_TotalMem v, pv_AvailableMem v} \<union> set (map mem_available (pv_Nodes v)). 2 ^ 60 \<le> unat m)) \<and>
    ((\<exists>out. status pt f64 cause port answer = Panicked out) \<or>
      (\<exists>out. status pt f64 cause port answer = Exit 0 out []))"
proof -
  have "handlePool tt now srt msrt nodes_order models_order a = json_reply (encode_json (view_json tt v))"
    unfolding handlePool_def Let_def assms(1) ..
  then have s: "status pt f64 cause port answer = print_status port (status_view v)"
    unfolding assms(4) using status_reads [OF assms(2,3)] by (simp add: json_reply_def)
  have p: "(\<exists>out. print_status port (status_view v) = Panicked out) \<longleftrightarrow>
      fmtBytes (pv_TotalMem v) = None \<or> fmtBytes (pv_AvailableMem v) = None \<or> snd (status_rows (pv_Nodes v))"
    by (auto simp: print_status_def status_view_def Let_def split: option.split prod.split)
  have e: "(\<exists>out. print_status port (status_view v) = Panicked out) \<or> (\<exists>out. print_status port (status_view v) = Exit 0 out [])"
    by (auto simp: print_status_def status_view_def Let_def split: option.split prod.split)
  show ?thesis
    unfolding s p using e by (auto simp: p status_rows_panics fmtBytes_panics)
qed

theorem status_prints_view_witness:
  "\<exists>out. status example_pt (\<lambda>t. True) [] 11444
     (GetStatus 200 (rp_Body (handlePool Itoa 4 insertionSort insertionSort [''peer''] [''m''] polled_agent))) = Exit 0 out []"
proof -
  let ?n = "example_peer\<lparr>ns_Self := False, ns_Addr := example_addr, ns_UpdatedAt := 3\<rparr>"
  let ?v = "pool_view 4 insertionSort [''m''] (Snapshot insertionSort [''peer''] (ag_reg polled_agent)) polled_agent"
  have ns: "Snapshot insertionSort [''peer''] (ag_reg polled_agent) = [?n]" using polled_nodes by (simp add: Nodes_def)
  have mem: "mem_available ?n = 0" "res_MemTotal (ns_Resources ?n) = 0" by (simp_all add: example_peer_def example_defs)
  have v: "pv_Nodes ?v = [?n]" "pv_TotalMem ?v = 0" "pv_AvailableMem ?v = 0" "pv_Requests ?v = []"
    "pv_OnlineNodes ?v \<in> {0, 1}"
    unfolding ns using mem
    by (simp_all add: pool_view_def count_node_def History_def polled_agent_def example_agent_def example_gateway_def)
  have "node_ok ?n" using example_peer_ok by (simp add: node_ok_def)
  then have "view_ok (\<lambda>t. True) ?v" using v by (auto simp: view_ok_def)
  moreover have none: "\<not> (\<exists>m \<in> {pv_TotalMem ?v, pv_AvailableMem ?v} \<union> set (map mem_available (pv_Nodes ?v)). 2 ^ 60 \<le> unat m)"
    using v mem by simp
  ultimately show ?thesis
    using status_prints_view [OF refl _ example_pt_Itoa refl, where code = 200 and cause = "[]" and port = 11444] by blast
qed

end
