(* ===== verification/Routes.thy ===== *)
theory Routes
  imports AgentSplit PoolView
begin

text \<open>
  The HTTP surface of an agent: the patterns that \<^verbatim>\<open>Register\<close> (\<^verbatim>\<open>internal/gateway/gateway.go\<close>) and
  \<^verbatim>\<open>Run\<close> (\<^verbatim>\<open>internal/agent/agent.go\<close>) install, how \<^verbatim>\<open>http.ServeMux\<close> chooses among them, the dashboard
  (\<^verbatim>\<open>internal/dashboard/dashboard.go\<close>), and one whole request (\<open>serve\<close>).  Every pattern has a method and
  a path without wildcards; a path that ends in a slash stands for all paths below it.  Paths are
  those that need no escaping.
\<close>

section \<open>Patterns\<close>

datatype endpoint =
  Inference | OpenAIModels | Tags | OllamaProxy | LlamaProxy | State | PoolEndpoint | RPCStart | RPCStop
| PipelineEnsure | Healthz | Dashboard

type_synonym route = "string \<times> string \<times> endpoint"

definition inference_paths :: "string list" where
  "inference_paths =
     [''/v1/chat/completions'', ''/v1/completions'', ''/v1/embeddings'',
      ''/api/chat'', ''/api/generate'', ''/api/embeddings'', ''/api/embed'']"

definition gateway_routes :: "route list" where
  "gateway_routes =
     map (\<lambda>p. (''POST'', p, Inference)) inference_paths @
     [(''GET'', ''/v1/models'', OpenAIModels), (''GET'', ''/api/tags'', Tags),
      (''POST'', ''/proxy/ollama/'', OllamaProxy), (''GET'', ''/proxy/ollama/'', OllamaProxy),
      (''POST'', ''/proxy/llama/'', LlamaProxy), (''GET'', ''/proxy/llama/'', LlamaProxy)]"

definition agent_routes :: "route list" where
  "agent_routes = gateway_routes @
     [(''GET'', ''/api/state'', State), (''GET'', ''/api/pool'', PoolEndpoint), (''POST'', ''/api/rpc/start'', RPCStart),
      (''POST'', ''/api/rpc/stop'', RPCStop), (''POST'', ''/api/pipeline/ensure'', PipelineEnsure),
      (''GET'', ''/healthz'', Healthz), (''GET'', ''/'', Dashboard)]"

section \<open>The multiplexer\<close>

definition cleanPath :: "string \<Rightarrow> string" where
  "cleanPath p =
     (if p = [] then ''/''
      else (let q = (if hd p = CHR ''/'' then p else CHR ''/'' # p); np = Clean q
            in if last q = CHR ''/'' \<and> np \<noteq> ''/'' then np @ ''/'' else np))"

definition path_matches :: "string \<Rightarrow> string \<Rightarrow> bool" where
  "path_matches pat path \<longleftrightarrow> (if suffix ''/'' pat then HasPrefix path pat else path = pat)"

definition method_matches :: "string \<Rightarrow> string \<Rightarrow> bool" where
  "method_matches m meth \<longleftrightarrow> m = meth \<or> m = ''GET'' \<and> meth = ''HEAD''"

text \<open>The most specific of the patterns that match: all of them start the path, so the longest.\<close>

definition best_match :: "route list \<Rightarrow> string \<Rightarrow> string \<Rightarrow> route option" where
  "best_match routes meth path =
     first_least (\<lambda>(m, pat, e). - int (length pat))
       (filter (\<lambda>(m, pat, e). method_matches m meth \<and> path_matches pat path) routes)"

definition exact_match :: "route option \<Rightarrow> string \<Rightarrow> bool" where
  "exact_match r path \<longleftrightarrow> (case r of None \<Rightarrow> False | Some (m, pat, e) \<Rightarrow> pat = path)"

definition matching_methods :: "route list \<Rightarrow> string \<Rightarrow> string list" where
  "matching_methods routes path =
     (let ms = map fst (filter (\<lambda>(m, pat, e). path_matches pat path \<or> \<not> suffix ''/'' path \<and> path_matches pat (path @ ''/'')) routes)
      in sort (remdups (ms @ (if ''GET'' \<in> set ms then [''HEAD''] else []))))"

datatype dispatched = Handle endpoint | Redirect string | MethodNotAllowed "string list" | PathNotFound

definition dispatch :: "route list \<Rightarrow> string \<Rightarrow> string \<Rightarrow> dispatched" where
  "dispatch routes meth rawPath =
     (let path = (if meth = ''CONNECT'' then rawPath else cleanPath rawPath); n = best_match routes meth path
      in if \<not> exact_match n path \<and> \<not> suffix ''/'' path \<and> exact_match (best_match routes meth (path @ ''/'')) (path @ ''/'')
         then Redirect (path @ ''/'')
         else if path \<noteq> rawPath then Redirect path
         else (case n of
                 Some (m, pat, e) \<Rightarrow> Handle e
               | None \<Rightarrow>
                   (let allowed = matching_methods routes path
                    in if allowed \<noteq> [] then MethodNotAllowed allowed else PathNotFound)))"

section \<open>The dashboard and a whole request\<close>

text \<open>\<open>index\<close> is the embedded page.\<close>

definition dashboard_Handler :: "string option \<Rightarrow> http_request \<Rightarrow> reply" where
  "dashboard_Handler index r =
     (if hr_Path r \<noteq> ''/'' then text_error 404 ''404 page not found''
      else (case index of
              None \<Rightarrow> text_error 500 ''dashboard missing''
            | Some b \<Rightarrow> \<lparr>rp_Status = 200, rp_Headers = [(''Content-Type'', ''text/html; charset=utf-8'')], rp_Body = b\<rparr>))"

definition healthz :: reply where
  "healthz = \<lparr>rp_Status = 200, rp_Headers = [], rp_Body = ''ok'' @ [CHR 0x0A]\<rparr>"

text \<open>What the handlers of one request meet.\<close>

record serve_env =
  sn_gw :: gw_env
  sn_drive :: drive_env
  sn_worker :: worker_env
  sn_port_wait :: "string \<Rightarrow> duration \<Rightarrow> worker_error option"
  sn_now :: instant
  sn_tt :: "instant \<Rightarrow> string"
  sn_index :: "string option"
  sn_sort_details :: "(ModelDetail \<Rightarrow> ModelDetail \<Rightarrow> bool) \<Rightarrow> ModelDetail list \<Rightarrow> ModelDetail list"
  sn_nodes_order :: "string list"
  sn_models_order :: "string list"

text \<open>The gateway sees the pool through the agent.\<close>

definition agent_gw_env :: "serve_env \<Rightarrow> Agent \<Rightarrow> gw_env" where
  "agent_gw_env env a =
     (sn_gw env)\<lparr>ge_nodes := Nodes (sort_nodes (ge_platform (sn_gw env))) (sn_nodes_order env) a, ge_self := SelfID a\<rparr>"

text \<open>The result is the agent, the process that is killed if any, and the reply.\<close>

definition handle :: "serve_env \<Rightarrow> endpoint \<Rightarrow> http_request \<Rightarrow> Agent \<Rightarrow> Agent \<times> nat option \<times> reply" where
  "handle env e r a =
     (let genv = agent_gw_env env a; runner = Some (agent_runner (sn_drive env) (sn_now env))
      in case e of
           Inference \<Rightarrow> (case handleInference genv runner r (ag_gw a) a of (g, a', rep) \<Rightarrow> (a'\<lparr>ag_gw := g\<rparr>, None, rep))
         | OpenAIModels \<Rightarrow> (a, None, handleOpenAIModels genv)
         | Tags \<Rightarrow> (a, None, handleTags genv (sn_sort_details env))
         | OllamaProxy \<Rightarrow> (case handleProxy genv r (ag_gw a) of (g, rep) \<Rightarrow> (a\<lparr>ag_gw := g\<rparr>, None, rep))
         | LlamaProxy \<Rightarrow> (case handleLlamaProxy genv runner r (ag_gw a) a of (g, a', rep) \<Rightarrow> (a'\<lparr>ag_gw := g\<rparr>, None, rep))
         | State \<Rightarrow> (a, None, handleState (sn_tt env) a)
         | PoolEndpoint \<Rightarrow> (a, None, handlePool (sn_tt env) (ge_now genv) (sort_nodes (ge_platform genv))
             (sn_sort_details env) (sn_nodes_order env) (sn_models_order env) a)
         | RPCStart \<Rightarrow> (case handleRPCStart (sn_worker env) (sn_port_wait env) r a of (a', rep) \<Rightarrow> (a', None, rep))
         | RPCStop \<Rightarrow> (case handleRPCStop r a of (killed, rep) \<Rightarrow> (a, killed, rep))
         | PipelineEnsure \<Rightarrow> (case handlePipelineEnsure (sn_drive env) r a of (a', rep) \<Rightarrow> (a', None, rep))
         | Healthz \<Rightarrow> (a, None, healthz)
         | Dashboard \<Rightarrow> (a, None, dashboard_Handler (sn_index env) r))"

text \<open>The body of a redirect, a link to its target, is left out.\<close>

definition redirect_reply :: "string \<Rightarrow> reply" where
  "redirect_reply path = \<lparr>rp_Status = 301, rp_Headers = [(''Location'', path)], rp_Body = []\<rparr>"

definition allow_reply :: "string list \<Rightarrow> reply" where
  "allow_reply ms =
     (let rep = text_error 405 ''Method Not Allowed'' in rep\<lparr>rp_Headers := (''Allow'', Join ms '', '') # rp_Headers rep\<rparr>)"

definition serve :: "serve_env \<Rightarrow> http_request \<Rightarrow> Agent \<Rightarrow> Agent \<times> nat option \<times> reply" where
  "serve env r a =
     (case dispatch agent_routes (hr_Method r) (hr_Path r) of
        Handle e \<Rightarrow> handle env e r a
      | Redirect path \<Rightarrow> (a, None, redirect_reply path)
      | MethodNotAllowed ms \<Rightarrow> (a, None, allow_reply ms)
      | PathNotFound \<Rightarrow> (a, None, text_error 404 ''404 page not found''))"

section \<open>Which handler a request reaches\<close>

definition post_endpoint :: "string \<Rightarrow> endpoint option" where
  "post_endpoint path =
     (if path \<in> set inference_paths then Some Inference
      else if HasPrefix path ''/proxy/ollama/'' then Some OllamaProxy
      else if HasPrefix path ''/proxy/llama/'' then Some LlamaProxy
      else if path = ''/api/rpc/start'' then Some RPCStart
      else if path = ''/api/rpc/stop'' then Some RPCStop
      else if path = ''/api/pipeline/ensure'' then Some PipelineEnsure
      else None)"

definition get_endpoint :: "string \<Rightarrow> endpoint" where
  "get_endpoint path =
     (if path = ''/v1/models'' then OpenAIModels
      else if path = ''/api/tags'' then Tags
      else if HasPrefix path ''/proxy/ollama/'' then OllamaProxy
      else if HasPrefix path ''/proxy/llama/'' then LlamaProxy
      else if path = ''/api/state'' then State
      else if path = ''/api/pool'' then PoolEndpoint
      else if path = ''/healthz'' then Healthz
      else Dashboard)"

lemmas routes_defs = agent_routes_def gateway_routes_def inference_paths_def

lemma path_matches_literals [simp]:
  "path_matches ''/v1/chat/completions'' path = (path = ''/v1/chat/completions'')"
  "path_matches ''/v1/completions'' path = (path = ''/v1/completions'')"
  "path_matches ''/v1/embeddings'' path = (path = ''/v1/embeddings'')"
  "path_matches ''/api/chat'' path = (path = ''/api/chat'')"
  "path_matches ''/api/generate'' path = (path = ''/api/generate'')"
  "path_matches ''/api/embeddings'' path = (path = ''/api/embeddings'')"
  "path_matches ''/api/embed'' path = (path = ''/api/embed'')"
  "path_matches ''/v1/models'' path = (path = ''/v1/models'')"
  "path_matches ''/api/tags'' path = (path = ''/api/tags'')"
  "path_matches ''/proxy/ollama/'' path = HasPrefix path ''/proxy/ollama/''"
  "path_matches ''/proxy/llama/'' path = HasPrefix path ''/proxy/llama/''"
  "path_matches ''/api/state'' path = (path = ''/api/state'')"
  "path_matches ''/api/pool'' path = (path = ''/api/pool'')"
  "path_matches ''/api/rpc/start'' path = (path = ''/api/rpc/start'')"
  "path_matches ''/api/rpc/stop'' path = (path = ''/api/rpc/stop'')"
  "path_matches ''/api/pipeline/ensure'' path = (path = ''/api/pipeline/ensure'')"
  "path_matches ''/healthz'' path = (path = ''/healthz'')"
  "path_matches ''/'' path = HasPrefix path ''/''"
  by (simp_all add: path_matches_def suffix_to_prefix)

lemma HasPrefix_iff: "HasPrefix path p \<longleftrightarrow> (\<exists>rest. path = p @ rest)"
  by (auto simp: HasPrefix_def prefix_def)

lemmas best_match_defs = best_match_def routes_defs method_matches_def post_endpoint_def get_endpoint_def

definition post_paths :: "string list" where
  "post_paths = inference_paths @ [''/api/rpc/start'', ''/api/rpc/stop'', ''/api/pipeline/ensure'']"

definition get_paths :: "string list" where
  "get_paths = [''/v1/models'', ''/api/tags'', ''/api/state'', ''/api/pool'', ''/healthz'']"

lemma best_match_POST:
  "map_option (snd \<circ> snd) (best_match agent_routes ''POST'' path) = post_endpoint path"
proof -
  consider rest where "path = ''/proxy/ollama/'' @ rest" | rest where "path = ''/proxy/llama/'' @ rest"
    | "\<not> HasPrefix path ''/proxy/ollama/''" "\<not> HasPrefix path ''/proxy/llama/''" "path \<in> set post_paths"
    | "\<not> HasPrefix path ''/proxy/ollama/''" "\<not> HasPrefix path ''/proxy/llama/''" "path \<notin> set post_paths"
    unfolding HasPrefix_iff by blast
  then show ?thesis
  proof cases
    case 1
    then show ?thesis by (simp add: best_match_defs HasPrefix_def)
  next
    case 2
    then show ?thesis by (simp add: best_match_defs HasPrefix_def)
  next
    case 3
    then show ?thesis by (auto simp: post_paths_def best_match_defs HasPrefix_def)
  next
    case 4
    then show ?thesis by (simp add: post_paths_def best_match_defs)
  qed
qed

lemma best_match_HEAD: "best_match agent_routes ''HEAD'' path = best_match agent_routes ''GET'' path"
proof -
  have "fst r = ''GET'' \<or> fst r = ''POST''" if "r \<in> set agent_routes" for r
    using that by (auto simp: routes_defs)
  then have "filter (\<lambda>(m, pat, e). method_matches m ''HEAD'' \<and> path_matches pat path) agent_routes
      = filter (\<lambda>(m, pat, e). method_matches m ''GET'' \<and> path_matches pat path) agent_routes"
    by (intro filter_cong refl) (fastforce simp: method_matches_def)
  then show ?thesis by (simp only: best_match_def)
qed

lemma best_match_GET:
  assumes "HasPrefix path ''/''"
  shows "map_option (snd \<circ> snd) (best_match agent_routes ''GET'' path) = Some (get_endpoint path)"
proof -
  consider rest where "path = ''/proxy/ollama/'' @ rest" | rest where "path = ''/proxy/llama/'' @ rest"
    | "\<not> HasPrefix path ''/proxy/ollama/''" "\<not> HasPrefix path ''/proxy/llama/''" "path \<in> set get_paths"
    | "\<not> HasPrefix path ''/proxy/ollama/''" "\<not> HasPrefix path ''/proxy/llama/''" "path \<notin> set get_paths"
    unfolding HasPrefix_iff by blast
  then show ?thesis
  proof cases
    case 1
    then show ?thesis by (simp add: best_match_defs HasPrefix_def)
  next
    case 2
    then show ?thesis by (simp add: best_match_defs HasPrefix_def)
  next
    case 3
    then show ?thesis by (auto simp: get_paths_def best_match_defs HasPrefix_def)
  next
    case 4
    with assms show ?thesis by (simp add: get_paths_def best_match_defs)
  qed
qed

lemma cleanPath_rooted: "HasPrefix (cleanPath path) ''/''"
proof -
  have "HasPrefix (Clean q) ''/''" if "hd q = CHR ''/''" "q \<noteq> []" for q
    using that by (cases q) (auto simp: Clean_def HasPrefix_def Let_def)
  moreover have "HasPrefix (s @ t) ''/''" if "HasPrefix s ''/''" for s t :: string
    using that by (auto simp: HasPrefix_def prefix_def)
  ultimately show ?thesis
    by (cases path) (auto simp: cleanPath_def Let_def HasPrefix_def)
qed

lemma best_match_mem: "best_match routes meth path = Some r \<Longrightarrow> r \<in> set routes"
  unfolding best_match_def by (drule first_least_le) auto

lemma subtree_routes:
  "(m, pat, e) \<in> set agent_routes \<Longrightarrow> suffix ''/'' pat \<Longrightarrow> butlast pat \<in> {[], ''/proxy/ollama'', ''/proxy/llama''}"
  by (auto simp: routes_defs suffix_to_prefix)

lemma no_redirect:
  assumes "path \<notin> {[], ''/proxy/ollama'', ''/proxy/llama''}"
  shows "\<not> exact_match (best_match agent_routes meth (path @ ''/'')) (path @ ''/'')"
proof
  assume "exact_match (best_match agent_routes meth (path @ ''/'')) (path @ ''/'')"
  then obtain m e where "best_match agent_routes meth (path @ ''/'') = Some (m, path @ ''/'', e)"
    by (auto simp: exact_match_def split: option.splits)
  from subtree_routes [OF best_match_mem [OF this]] assms show False by (simp add: suffix_def)
qed

lemma path_matches_slash:
  assumes "(m, pat, e) \<in> set agent_routes" and "path \<notin> {[], ''/proxy/ollama'', ''/proxy/llama''}"
    and "path_matches pat (path @ ''/'')"
  shows "path_matches pat path"
proof (cases "suffix ''/'' pat")
  case True
  with assms(3) have "pat = path @ ''/'' \<or> prefix pat path" by (simp add: path_matches_def HasPrefix_def)
  moreover have "pat \<noteq> path @ ''/''" using subtree_routes [OF assms(1) True] assms(2) by auto
  ultimately show ?thesis using True by (simp add: path_matches_def HasPrefix_def)
next
  case False
  with assms(3) show ?thesis by (auto simp: path_matches_def suffix_def)
qed

lemma set_matching_methods:
  assumes "path \<notin> {[], ''/proxy/ollama'', ''/proxy/llama''}" and "HasPrefix path ''/''"
  shows "set (matching_methods agent_routes path) =
    insert ''HEAD'' {m. \<exists>pat e. (m, pat, e) \<in> set agent_routes \<and> path_matches pat path}"
proof -
  define P where "P r \<longleftrightarrow> path_matches (fst (snd r)) path" for r :: route
  define ms where "ms = map fst (filter (\<lambda>(m, pat, e). path_matches pat path \<or> \<not> suffix ''/'' path \<and> path_matches pat (path @ ''/''))
    agent_routes)"
  have "filter (\<lambda>(m, pat, e). path_matches pat path \<or> \<not> suffix ''/'' path \<and> path_matches pat (path @ ''/'')) agent_routes
      = filter P agent_routes"
    using path_matches_slash [OF _ assms(1)] by (intro filter_cong refl) (auto simp: P_def)
  then have ms: "set ms = {m. \<exists>pat e. (m, pat, e) \<in> set agent_routes \<and> path_matches pat path}"
    by (auto simp: ms_def P_def image_iff) force+
  have "(''GET'', ''/'', Dashboard) \<in> set agent_routes" by (simp add: agent_routes_def)
  moreover have "path_matches ''/'' path" using assms(2) by simp
  ultimately have "''GET'' \<in> set ms" unfolding ms by blast
  then have "set (matching_methods agent_routes path) = insert ''HEAD'' (set ms)"
    by (simp add: matching_methods_def Let_def flip: ms_def)
  then show ?thesis unfolding ms .
qed

lemma best_match_None:
  "best_match agent_routes meth path = None \<longleftrightarrow>
     (\<forall>(m, pat, e) \<in> set agent_routes. \<not> (method_matches m meth \<and> path_matches pat path))"
  by (auto simp: best_match_def filter_empty_conv)

lemma matching_methods_sorted: "sorted (matching_methods routes path) \<and> distinct (matching_methods routes path)"
  by (simp add: matching_methods_def Let_def)

lemma agent_route_methods: "r \<in> set agent_routes \<Longrightarrow> fst r \<in> {''GET'', ''POST''}"
  by (auto simp: routes_defs)

lemma agent_routes_match:
  assumes "path \<notin> {[], ''/proxy/ollama'', ''/proxy/llama''}" and "HasPrefix path ''/''"
  shows "matching_methods agent_routes path \<noteq> []" and "set (matching_methods agent_routes path) \<subseteq> {''GET'', ''HEAD'', ''POST''}"
  using set_matching_methods [OF assms] agent_route_methods by (auto, force)

lemma dispatch_clean:
  assumes "cleanPath path = path" and "path \<notin> {''/proxy/ollama'', ''/proxy/llama''}"
  shows "dispatch agent_routes meth path =
    (case best_match agent_routes meth path of
       Some (m, pat, e) \<Rightarrow> Handle e
     | None \<Rightarrow> MethodNotAllowed (matching_methods agent_routes path))"
proof -
  have root: "HasPrefix path ''/''" using cleanPath_rooted [of path] assms(1) by simp
  then have path: "path \<notin> {[], ''/proxy/ollama'', ''/proxy/llama''}" using assms(2) by (auto simp: HasPrefix_def)
  have clean: "(if meth = ''CONNECT'' then path else cleanPath path) = path" by (simp add: assms(1))
  show ?thesis
    unfolding dispatch_def clean Let_def using no_redirect [OF path, of meth] agent_routes_match(1) [OF path root] by simp
qed

lemma get_only_methods:
  assumes "best_match agent_routes ''POST'' path = None" and "path \<notin> {[], ''/proxy/ollama'', ''/proxy/llama''}" and "HasPrefix path ''/''"
  shows "matching_methods agent_routes path = [''GET'', ''HEAD'']"
proof -
  from assms(1) have "\<nexists>pat e. (''POST'', pat, e) \<in> set agent_routes \<and> path_matches pat path"
    by (auto simp: best_match_None method_matches_def)
  moreover have "m = ''GET'' \<or> m = ''POST''" if "(m, pat, e) \<in> set agent_routes" for m pat e
    using agent_route_methods [OF that] by simp
  moreover have "(''GET'', ''/'', Dashboard) \<in> set agent_routes" by (simp add: agent_routes_def)
  moreover have "path_matches ''/'' path" using assms(3) by simp
  ultimately have "{m. \<exists>pat e. (m, pat, e) \<in> set agent_routes \<and> path_matches pat path} = {''GET''}" by blast
  then have "set (matching_methods agent_routes path) = {''GET'', ''HEAD''}"
    using set_matching_methods [OF assms(2,3)] by auto
  then show ?thesis
    using matching_methods_sorted [of agent_routes path] by (intro sorted_distinct_set_unique) auto
qed

lemma best_match_other:
  assumes "meth \<notin> {''GET'', ''HEAD'', ''POST''}"
  shows "best_match agent_routes meth path = None"
proof -
  have "m = ''GET'' \<or> m = ''POST''" if "(m, pat, e) \<in> set agent_routes" for m pat e
    using agent_route_methods [OF that] by simp
  then have "\<not> method_matches m meth" if "(m, pat, e) \<in> set agent_routes" for m pat e
    using that assms unfolding method_matches_def by blast
  then show ?thesis unfolding best_match_None by blast
qed

lemma dispatch_spec:
  assumes "cleanPath path = path" and "path \<notin> {''/proxy/ollama'', ''/proxy/llama''}"
  shows "dispatch agent_routes ''POST'' path =
      (case post_endpoint path of Some e \<Rightarrow> Handle e | None \<Rightarrow> MethodNotAllowed [''GET'', ''HEAD'']) \<and>
    dispatch agent_routes ''GET'' path = Handle (get_endpoint path) \<and>
    dispatch agent_routes ''HEAD'' path = Handle (get_endpoint path) \<and>
    (meth \<notin> {''GET'', ''HEAD'', ''POST''} \<longrightarrow> (\<exists>ms. dispatch agent_routes meth path = MethodNotAllowed ms \<and> meth \<notin> set ms))"
proof -
  have root: "HasPrefix path ''/''" using cleanPath_rooted [of path] assms(1) by simp
  then have path: "path \<notin> {[], ''/proxy/ollama'', ''/proxy/llama''}" using assms(2) by (auto simp: HasPrefix_def)
  note D = dispatch_clean [OF assms]
  have "dispatch agent_routes ''POST'' path =
      (case post_endpoint path of Some e \<Rightarrow> Handle e | None \<Rightarrow> MethodNotAllowed [''GET'', ''HEAD''])"
    using get_only_methods [OF _ path root]
    by (cases "best_match agent_routes ''POST'' path") (auto simp: D best_match_POST [symmetric] split: prod.splits)
  moreover have "dispatch agent_routes ''GET'' path = Handle (get_endpoint path)"
    using best_match_GET [OF root] by (auto simp: D split: option.splits)
  moreover have "dispatch agent_routes ''HEAD'' path = Handle (get_endpoint path)"
    using best_match_GET [OF root] by (auto simp: D best_match_HEAD split: option.splits)
  moreover have "\<exists>ms. dispatch agent_routes meth path = MethodNotAllowed ms \<and> meth \<notin> set ms"
    if "meth \<notin> {''GET'', ''HEAD'', ''POST''}"
    using best_match_other [OF that, of path] agent_routes_match(2) [OF path root] that D [of meth] by auto
  ultimately show ?thesis by blast
qed

text \<open>
  C26.  Which handler a request reaches, for clean paths: a POST goes to the endpoint of its path or,
  where there is none, is refused with 405; a GET always has a handler, the dashboard's where there is
  no other; and any other meth but HEAD is refused, so no request meets the multiplexer's own 404.
\<close>

theorem routes_complete:
  assumes "cleanPath path = path" and "path \<notin> {''/proxy/ollama'', ''/proxy/llama''}"
  shows "dispatch agent_routes ''POST'' path =
      (case post_endpoint path of Some e \<Rightarrow> Handle e | None \<Rightarrow> MethodNotAllowed [''GET'', ''HEAD'']) \<and>
    dispatch agent_routes ''GET'' path = Handle (get_endpoint path) \<and>
    dispatch agent_routes ''HEAD'' path = Handle (get_endpoint path) \<and>
    (meth \<notin> {''GET'', ''HEAD'', ''POST''} \<longrightarrow> (\<exists>ms. dispatch agent_routes meth path = MethodNotAllowed ms \<and> meth \<notin> set ms))"
  by (rule dispatch_spec [OF assms])

theorem routes_complete_witness:
  "dispatch agent_routes ''POST'' ''/api/chat'' = Handle Inference \<and>
   dispatch agent_routes ''GET'' ''/index.html'' = Handle Dashboard"
proof -
  have "cleanPath ''/api/chat'' = ''/api/chat''" "cleanPath ''/index.html'' = ''/index.html''" by code_simp+
  from this [THEN routes_complete] show ?thesis
    by (simp add: post_endpoint_def get_endpoint_def inference_paths_def HasPrefix_def)
qed

section \<open>The token\<close>

definition peer_endpoints :: "endpoint set" where
  "peer_endpoints = {OllamaProxy, LlamaProxy, RPCStart, RPCStop, PipelineEnsure}"

lemma handle_no_token:
  assumes "\<not> token_ok (cfg_Token (ag_cfg a)) r" and "gw_token (ag_gw a) = cfg_Token (ag_cfg a)" and "e \<noteq> Inference"
  shows "\<exists>rep. handle env e r a = (a, None, rep) \<and> (e \<in> peer_endpoints \<longrightarrow> rp_Status rep = 401)"
  using assms
  by (cases e) (simp_all add: handle_def peer_endpoints_def handleProxy_def handleLlamaProxy_def handleRPCStart_def
      handleRPCStop_def handlePipelineEnsure_def agent_token_ok_def unauthorized_def httpError_def no_token_def
      text_error_def Let_def)

text \<open>
  C6.  What the pool token guards: on an agent with a token, a request that does not carry it changes
  nothing and kills nothing, unless it is a client's inference request; and whatever its
  method and path, if it reaches one of the five endpoints for peers it is answered 401.
\<close>

theorem peer_token_gate:
  assumes "NewAgent hostname ienv files parse lookPath config = (files', Some a0)"
    and "ag_cfg a = ag_cfg a0" "gw_token (ag_gw a) = gw_token (ag_gw a0)"
    and "cfg_Token config \<noteq> []" "header_get (hr_Headers r) TokenHeader \<noteq> cfg_Token config"
    and "dispatch agent_routes (hr_Method r) (hr_Path r) \<noteq> Handle Inference"
  shows "\<exists>rep. serve env r a = (a, None, rep) \<and>
    (\<forall>e \<in> peer_endpoints. dispatch agent_routes (hr_Method r) (hr_Path r) = Handle e \<longrightarrow> rp_Status rep = 401)"
proof -
  have tok: "cfg_Token (ag_cfg a0) = cfg_Token config" "gw_token (ag_gw a0) = cfg_Token config"
    using assms(1) by (auto simp: NewAgent_def default_name_def NewGateway_def Let_def split: prod.splits option.splits if_splits)
  then have no: "\<not> token_ok (cfg_Token (ag_cfg a)) r" using assms(2,4,5) by (simp add: token_ok_def)
  show ?thesis
  proof (cases "dispatch agent_routes (hr_Method r) (hr_Path r)")
    case (Handle e)
    with assms(6) have "e \<noteq> Inference" by simp
    from handle_no_token [OF no _ this, of env] tok assms(2,3) Handle show ?thesis by (auto simp: serve_def)
  qed (auto simp: serve_def)
qed

definition gated_agent :: Agent where
  "gated_agent = example_agent\<lparr>ag_cfg := example_config\<lparr>cfg_Token := ''secret''\<rparr>,
     ag_gw := example_gateway\<lparr>gw_token := ''secret''\<rparr>\<rparr>"

definition example_serve :: serve_env where
  "example_serve = \<lparr>sn_gw = example_gw_env, sn_drive = example_drive, sn_worker = example_worker_env,
     sn_port_wait = (\<lambda>addr t. None), sn_now = 5, sn_tt = Itoa, sn_index = None, sn_sort_details = insertionSort,
     sn_nodes_order = [], sn_models_order = []\<rparr>"

theorem peer_token_gate_witness:
  "\<exists>rep. serve example_serve \<lparr>hr_Method = ''POST'', hr_Path = ''/api/rpc/stop'', hr_Headers = [], hr_Body = Some []\<rparr> gated_agent
     = (gated_agent, None, rep) \<and> rp_Status rep = 401"
proof -
  let ?c = "example_config\<lparr>cfg_Token := ''secret''\<rparr>"
  let ?r = "\<lparr>hr_Method = ''POST'', hr_Path = ''/api/rpc/stop'', hr_Headers = [], hr_Body = Some []\<rparr>"
  have new: "\<exists>files. NewAgent None (example_id_env [1, 2, 3, 4, 5, 6, 7, 8]) Map.empty
      (\<lambda>u. Some (gw_ollama example_gateway)) (\<lambda>b. None) ?c = (files, Some gated_agent)"
    by (simp add: NewAgent_def default_name_def loadOrCreateID_def example_id_env_def stored_id_def Let_def
      NewGateway_def Detect_def resolve_def gated_agent_def example_agent_def example_config_def example_gateway_def
      example_identity [simplified])
  have "cleanPath ''/api/rpc/stop'' = ''/api/rpc/stop''" by code_simp
  then have "dispatch agent_routes ''POST'' ''/api/rpc/stop'' = Handle RPCStop"
    using dispatch_spec [of "''/api/rpc/stop''"] by (simp add: post_endpoint_def inference_paths_def HasPrefix_def)
  then show ?thesis
    using new peer_token_gate [OF _ refl refl, of None _ Map.empty _ _ ?c _ gated_agent ?r example_serve]
    by (auto simp: header_get_def peer_endpoints_def)
qed

end
