(* ===== verification/AgentServe.thy ===== *)
theory AgentServe
  imports Routes
begin

text \<open>
  A node as it runs: its loops and the requests it serves, in any interleaving (\<open>node_step\<close>).  Requests are
  served one after the other here, with nothing assumed about them; requests that overlap are the subject of
  \<^verbatim>\<open>GatewayPeer\<close> and \<^verbatim>\<open>PipelineConc\<close>.  Every execution is one of \<open>agent_run\<close>, so what
  \<^verbatim>\<open>AgentRun\<close> shows of the membership holds of it.
\<close>

section \<open>What a request can change\<close>

definition ports_ok :: "Manager \<Rightarrow> bool" where
  "ports_ok m \<longleftrightarrow> (\<forall>p \<in> ran (mg_pipelines m). mg_basePort m \<le> pl_port p \<and> pl_port p < mg_basePort m + 100)"

definition mgr_kept :: "Manager \<Rightarrow> Manager \<Rightarrow> bool" where
  "mgr_kept m m' \<longleftrightarrow> mg_bin m' = mg_bin m \<and> mg_basePort m' = mg_basePort m \<and> (ports_ok m \<longrightarrow> ports_ok m') \<and>
     (states_named m \<longrightarrow> states_named m')"

definition worker_kept :: "Worker \<Rightarrow> Worker \<Rightarrow> bool" where
  "worker_kept w w' \<longleftrightarrow> wk_bin w' = wk_bin w \<and> wk_port w' = wk_port w"

definition gw_framed :: "Gateway \<Rightarrow> Gateway \<Rightarrow> bool" where
  "gw_framed g g' \<longleftrightarrow>
     gw_token g' = gw_token g \<and> gw_ollama g' = gw_ollama g \<and> gw_active g' = gw_active g \<and>
     gw_reqID g \<le> gw_reqID g' \<and> (length (gw_history g) \<le> 100 \<longrightarrow> length (gw_history g') \<le> 100)"

definition framed :: "Agent \<Rightarrow> Agent \<Rightarrow> bool" where
  "framed a a' \<longleftrightarrow>
     (\<exists>g w m. a' = a\<lparr>ag_gw := g, ag_worker := w, ag_pipelines := m\<rparr> \<and> gw_framed (ag_gw a) g \<and>
        worker_kept (ag_worker a) w \<and> mgr_kept (ag_pipelines a) m)"

lemma mgr_kept_refl [simp]: "mgr_kept m m"
  by (simp add: mgr_kept_def)

lemma mgr_kept_trans: "mgr_kept m m' \<Longrightarrow> mgr_kept m' m'' \<Longrightarrow> mgr_kept m m''"
  by (simp add: mgr_kept_def)

lemma mgr_kept_stop [simp]: "mgr_kept m (stop model m)"
  by (auto simp: mgr_kept_def ports_ok_def states_named_def ran_def)

lemma mgr_kept_update:
  "(\<And>i. pi_State (f i) = pi_State i \<or> pi_State (f i) \<in> {StateLoading, StateReady, StateError}) \<Longrightarrow>
     mgr_kept m (update_info model f m)"
proof (cases "mg_pipelines m model")
  case (Some p)
  assume "\<And>i. pi_State (f i) = pi_State i \<or> pi_State (f i) \<in> {StateLoading, StateReady, StateError}"
  then have f: "pi_State (f (pl_info p)) = pi_State (pl_info p) \<or> pi_State (f (pl_info p)) \<in> {StateLoading, StateReady, StateError}" .
  let ?q = "p\<lparr>pl_info := f (pl_info p)\<rparr>"
  have m': "update_info model f m = m\<lparr>mg_pipelines := (mg_pipelines m)(model \<mapsto> ?q)\<rparr>" by (simp add: update_info_def Some)
  have ran: "q = ?q \<or> q \<in> ran (mg_pipelines m)" if "q \<in> ran ((mg_pipelines m)(model \<mapsto> ?q))" for q
    using that by (auto simp: ran_def split: if_splits)
  have "p \<in> ran (mg_pipelines m)" using Some by (rule ranI)
  then show ?thesis
    unfolding m' mgr_kept_def ports_ok_def states_named_def using ran f by fastforce
qed (simp add: update_info_def)

lemma mgr_kept_infos [simp]:
  "mgr_kept m (TouchPipe now model m)" "mgr_kept m (setError model err m)" "mgr_kept m (setState model StateReady m)"
  by (simp_all add: TouchPipe_def setError_def setState_def mgr_kept_update)

lemma mgr_kept_reap [simp]: "mgr_kept m (reap pid model m)"
  by (auto simp: mgr_kept_def ports_ok_def states_named_def reap_def ran_def split: option.split)

lemma mgr_kept_gc [simp]: "mgr_kept m (fst (gc_tick now order m))"
proof -
  have "mgr_kept m (fold stop models m)" for models
    by (induction models arbitrary: m) (auto intro: mgr_kept_trans mgr_kept_stop)
  then show ?thesis by (simp add: gc_tick_def stop_each_manager)
qed

lemma mgr_kept_launch: "mgr_kept m (fst (launch env rq m))"
proof (cases "launch env rq m")
  case (Pair m' out)
  show ?thesis
  proof (cases out)
    case (Launched port)
    with Pair have free: "freePort (le_free env) (mg_basePort m) = Inr port"
      and m': "m' = m\<lparr>mg_pipelines := (mg_pipelines m)(rq_model rq \<mapsto> new_pipeline env rq port)\<rparr>"
      by (simp_all add: launch_Launched)
    have "mg_basePort m \<le> port \<and> port < mg_basePort m + 100"
      using free free_from_Some [of "le_free env" "mg_basePort m" 100 port]
      by (auto simp: freePort_def split: option.splits)
    with Pair m' show ?thesis by (auto simp: mgr_kept_def ports_ok_def states_named_def ran_def new_pipeline_def)
  qed (use Pair launch_Returned [of env rq m m'] launch_not_failed [of env rq m] in auto)
qed

lemma mgr_kept_wait:
  "mgr_kept m m' \<Longrightarrow> mgr_kept m (stop model (setError model err m'))"
  "mgr_kept m m' \<Longrightarrow> mgr_kept m (setState model StateReady m')"
  by (blast intro: mgr_kept_stop mgr_kept_infos mgr_kept_trans)+

lemma mgr_kept_finish: "mgr_kept m m' \<Longrightarrow> mgr_kept m (fst (ensure_finish model wait (m', out)))"
  by (simp add: ensure_finish_def ensure_wait_def mgr_kept_wait split: ensure_out.split option.split)

lemma mgr_kept_begin: "mgr_kept m (fst (ensure_begin env rq m))"
  using mgr_kept_launch by (simp add: ensure_begin_def split: option.split)

lemma mgr_kept_Ensure: "mgr_kept m (fst (Ensure env wait rq m))"
proof -
  obtain m' out where b: "ensure_begin env rq m = (m', out)" by fastforce
  with mgr_kept_begin [of m env rq] have kept: "mgr_kept m m'" by simp
  obtain m'' out' where l: "launch env rq (stop (rq_model rq) m') = (m'', out')" by fastforce
  with mgr_kept_launch [of "stop (rq_model rq) m'" env rq] have "mgr_kept (stop (rq_model rq) m') m''" by simp
  then have "mgr_kept m m''" using kept mgr_kept_stop mgr_kept_trans by blast
  with kept b l show ?thesis
    by (auto simp: Ensure_def intro: mgr_kept_finish split: ensure_out.split)
qed

lemma worker_kept_refl [simp]: "worker_kept w w"
  by (simp add: worker_kept_def)

lemma worker_kept_Ensure: "worker_Ensure env wait w = (w', e) \<Longrightarrow> worker_kept w w'"
  by (auto simp: worker_Ensure_def worker_section_def worker_kept_def split: if_splits option.splits)

lemma worker_kept_reap [simp]: "worker_kept w (worker_reap pid w)"
  by (simp add: worker_reap_def worker_kept_def)

lemma gw_framed_refl [simp]: "gw_framed g g"
  by (simp add: gw_framed_def)

lemma gw_framed_job [simp]: "gw_framed g (end_job (begin_job g))"
  by (simp add: gw_framed_def begin_job_def end_job_def)

lemma gw_framed_finish: "gw_framed g g' \<Longrightarrow> gw_framed g (finish env path model name code g')"
  by (auto simp: gw_framed_def finish_history) (simp_all add: finish_def record_request_def Let_def)

lemma gw_framed_forward: "gw_framed g (fst (forward env r node body g))"
  by (simp add: forward_def Let_def)

lemma framed_gw: "gw_framed (ag_gw a) g \<Longrightarrow> framed a (a\<lparr>ag_gw := g\<rparr>)"
  unfolding framed_def by (intro exI [of _ g] exI [of _ "ag_worker a"] exI [of _ "ag_pipelines a"]) simp

lemma framed_refl [simp]: "framed a a"
  using framed_gw [of a "ag_gw a"] by simp

lemma framed_worker: "worker_kept (ag_worker a) w \<Longrightarrow> framed a (a\<lparr>ag_worker := w\<rparr>)"
  unfolding framed_def by (intro exI [of _ "ag_gw a"] exI [of _ w] exI [of _ "ag_pipelines a"]) simp

lemma framed_pipelines: "gw_framed (ag_gw a) g \<Longrightarrow> mgr_kept (ag_pipelines a) m \<Longrightarrow> framed a (a\<lparr>ag_pipelines := m, ag_gw := g\<rparr>)"
  unfolding framed_def by (intro exI [of _ g] exI [of _ "ag_worker a"] exI [of _ m]) simp

definition driven :: "Agent \<Rightarrow> Agent \<Rightarrow> bool" where
  "driven a a' \<longleftrightarrow> (\<exists>m. a' = a\<lparr>ag_pipelines := m\<rparr> \<and> mgr_kept (ag_pipelines a) m)"

lemma driven_refl [simp]: "driven a a"
  unfolding driven_def by (intro exI [of _ "ag_pipelines a"]) simp

lemma driven_pipelines: "mgr_kept (ag_pipelines a) m \<Longrightarrow> driven a (a\<lparr>ag_pipelines := m\<rparr>)"
  unfolding driven_def by blast

lemma driven_framed: "driven a a' \<Longrightarrow> gw_framed (ag_gw a) g \<Longrightarrow> framed a (a'\<lparr>ag_gw := g\<rparr>)"
  by (auto simp: driven_def intro: framed_pipelines)

lemma driven_same: "driven a a' \<Longrightarrow> framed a a'"
  using framed_pipelines [of a "ag_gw a"] by (auto simp: driven_def)

lemma EnsureLocal_frame: "driven a (fst (EnsureLocal env model ws a))"
proof -
  obtain a' res where E: "EnsureLocal env model ws a = (a', res)" by fastforce
  have "driven a a'" if "Ensure le wait rq (ag_pipelines a) = (m, out)" "a' = a\<lparr>ag_pipelines := m\<rparr>" for le wait rq m out
    using that mgr_kept_Ensure [of "ag_pipelines a" le wait rq] by (simp add: driven_pipelines)
  then show ?thesis using EnsureLocal_cases [OF E] E by auto
qed

lemma forwardSplit_frame:
  "driven a (fst (forwardSplit genv (Some (agent_runner env now)) r plan model body g a))"
proof -
  have "driven a a'" if "ensure_text env model ws a = (a', res)" for ws a' res
    using that EnsureLocal_frame [of a env model ws]
    by (cases "EnsureLocal env model ws a") (simp add: ensure_text_def)
  then show ?thesis
    by (auto simp: forwardSplit_def agent_runner_def Let_def split: sum.split option.split prod.split)
qed

lemma handleInference_frame:
  assumes "handleInference genv (Some (agent_runner env now)) r (ag_gw a) a = (g, a', rep)"
  shows "framed a (a'\<lparr>ag_gw := g\<rparr>)"
proof -
  let ?g = "ag_gw a" and ?runner = "Some (agent_runner env now)"
  have "driven a a' \<and> gw_framed ?g g"
  proof (cases "hr_Body r")
    case None
    with assms show ?thesis by (auto simp: handleInference_def)
  next
    case (Some b)
    let ?body = "take maxBodyBytes b"
    show ?thesis
    proof (cases "extractModel ?body = []")
      case True
      with assms Some show ?thesis by (auto simp: handleInference_def Let_def)
    next
      case model: False
      define plan where "plan = (if HasPrefix (hr_Path r) ''/v1/'' then (case PlanSplit (ge_platform genv) (ge_now genv)
        (ge_nodes genv) (extractModel ?body) of Inr p \<Rightarrow> p | Inl planErr \<Rightarrow> None) else None)"
      note defn = assms [unfolded handleInference_def Some option.case Let_def if_not_P [OF model] plan_def [symmetric]]
      show ?thesis
      proof (cases plan)
        case (Some p)
        with defn forwardSplit_frame [of a genv env now r p "extractModel ?body" ?body ?g] show ?thesis
          by (auto simp: gw_framed_finish split: prod.splits)
      next
        case None
        show ?thesis
        proof (cases "Pick (ge_now genv) (ge_order genv) (ge_nodes genv) (extractModel ?body)")
          case (Inl e)
          with defn None show ?thesis by auto
        next
          case (Inr n)
          with defn None gw_framed_forward [of ?g genv r n ?body] show ?thesis
            by (auto simp: gw_framed_finish split: prod.splits)
        qed
      qed
    qed
  qed
  then show ?thesis using driven_framed by blast
qed

lemma handlePipelineEnsure_frame: "driven a (fst (handlePipelineEnsure env r a))"
proof -
  have "driven a a'" if "EnsureLocal env model ws a = (a', res)" for model ws a' res
    using that EnsureLocal_frame [of a env model ws] by simp
  then show ?thesis
    by (auto simp: handlePipelineEnsure_def Let_def split: option.split prod.split sum.split)
qed

lemma handleLlamaProxy_frame:
  assumes "handleLlamaProxy genv (Some (agent_runner env now)) r (ag_gw a) a = (g, a', rep)"
  shows "framed a (a'\<lparr>ag_gw := g\<rparr>)"
proof -
  have "driven a a' \<and> gw_framed (ag_gw a) g"
    using assms
    by (auto simp: handleLlamaProxy_def agent_runner_def TouchPipeline_def Let_def split: if_splits option.splits
        intro: driven_pipelines)
  then show ?thesis using driven_framed by blast
qed

lemma handle_frame:
  assumes "handle env e r a = (a', killed, rep)"
  shows "framed a a'"
proof (cases e)
  case Inference
  with assms handleInference_frame show ?thesis by (auto simp: handle_def Let_def split: prod.splits)
next
  case OllamaProxy
  with assms show ?thesis
    by (auto simp: handle_def handleProxy_def Let_def intro: framed_gw split: prod.splits if_splits)
next
  case LlamaProxy
  with assms handleLlamaProxy_frame show ?thesis by (auto simp: handle_def Let_def split: prod.splits)
next
  case RPCStart
  with assms show ?thesis
    by (auto simp: handle_def handleRPCStart_def Let_def intro: framed_worker worker_kept_Ensure split: prod.splits if_splits option.splits)
next
  case PipelineEnsure
  with assms have "a' = fst (handlePipelineEnsure (sn_drive env) r a)" by (simp add: handle_def Let_def split: prod.splits)
  with driven_same [OF handlePipelineEnsure_frame] show ?thesis by simp
qed (use assms in \<open>auto simp: handle_def Let_def split: prod.splits\<close>)

lemma serve_frame: "serve env r a = (a', killed, rep) \<Longrightarrow> framed a a'"
  using handle_frame by (auto simp: serve_def split: dispatched.splits)

section \<open>The node\<close>

text \<open>
  A turn of a loop, a request, the exit of a child that its goroutine notices, and a tick of the collector
  of idle pipelines.
\<close>

datatype node_event =
  Turn agent_event
| Request serve_env http_request
| WorkerExit nat
| PipelineExit nat string
| Collection "string list"

fun is_turn :: "agent_event \<Rightarrow> bool" where
  "is_turn (EvServe g w m) = False"
| "is_turn e = True"

inductive node_step :: "agent_sys \<Rightarrow> instant \<times> node_event \<Rightarrow> agent_sys \<Rightarrow> bool" where
  turn: "is_turn e \<Longrightarrow> agent_step s (t, e) s' \<Longrightarrow> node_step s (t, Turn e) s'"
| request: "sy_clock s \<le> t \<Longrightarrow> serve env r (sy_agent s) = (a', killed, rep) \<Longrightarrow>
    node_step s (t, Request env r) (s\<lparr>sy_agent := a', sy_clock := t\<rparr>)"
| worker_exit: "sy_clock s \<le> t \<Longrightarrow>
    node_step s (t, WorkerExit pid)
      (s\<lparr>sy_agent := (sy_agent s)\<lparr>ag_worker := worker_reap pid (ag_worker (sy_agent s))\<rparr>, sy_clock := t\<rparr>)"
| pipeline_exit: "sy_clock s \<le> t \<Longrightarrow>
    node_step s (t, PipelineExit pid model)
      (s\<lparr>sy_agent := (sy_agent s)\<lparr>ag_pipelines := reap pid model (ag_pipelines (sy_agent s))\<rparr>, sy_clock := t\<rparr>)"
| collection: "sy_clock s \<le> t \<Longrightarrow> iter_order (mg_pipelines (ag_pipelines (sy_agent s))) order \<Longrightarrow>
    node_step s (t, Collection order)
      (s\<lparr>sy_agent := (sy_agent s)\<lparr>ag_pipelines := fst (gc_tick t order (ag_pipelines (sy_agent s)))\<rparr>, sy_clock := t\<rparr>)"

inductive node_run :: "agent_sys \<Rightarrow> (instant \<times> node_event) list \<Rightarrow> agent_sys \<Rightarrow> bool" for s0 where
  node_nil: "node_run s0 [] s0"
| node_snoc: "node_run s0 evs s \<Longrightarrow> node_step s ev s' \<Longrightarrow> node_run s0 (evs @ [ev]) s'"

inductive_cases node_stepE: "node_step s ev s'"

text \<open>Steps that are no turn of a loop stay within the frame, and a frame is a step of the loops' model.\<close>

lemma node_step_cases:
  assumes "node_step s (t, e) s'"
  obtains (turn) e' where "e = Turn e'" "is_turn e'" "agent_step s (t, e') s'"
    | (framed) "\<forall>e'. e \<noteq> Turn e'" "framed (sy_agent s) (sy_agent s')" "sy_targets s' = sy_targets s" "sy_clock s \<le> t" "sy_clock s' = t"
  using assms
proof (cases rule: node_step.cases)
  case (request env r a' killed rep)
  with serve_frame [of env r "sy_agent s"] show thesis by (intro that(2)) simp_all
next
  case (worker_exit pid)
  with framed_worker [of "sy_agent s"] show thesis by (intro that(2)) simp_all
next
  case (pipeline_exit pid model)
  with driven_same [OF driven_pipelines [of "sy_agent s"]] show thesis by (intro that(2)) simp_all
next
  case (collection order)
  with driven_same [OF driven_pipelines [of "sy_agent s"]] show thesis by (intro that(2)) simp_all
qed (use that(1) in blast)

lemma framed_agent_step:
  assumes "framed (sy_agent s) (sy_agent s')" "sy_targets s' = sy_targets s" "sy_clock s \<le> t" "sy_clock s' = t"
  shows "\<exists>g w m. agent_step s (t, EvServe g w m) s'"
proof -
  from assms(1) obtain g w m where "sy_agent s' = (sy_agent s)\<lparr>ag_gw := g, ag_worker := w, ag_pipelines := m\<rparr>"
    unfolding framed_def by blast
  with assms(2,4) have "s' = s\<lparr>sy_agent := (sy_agent s)\<lparr>ag_gw := g, ag_worker := w, ag_pipelines := m\<rparr>, sy_clock := t\<rparr>"
    by simp
  with agent_step.serve [OF assms(3)] show ?thesis by metis
qed

lemma node_run_loops:
  assumes "node_run s0 evs s"
  shows "\<exists>evs'. agent_run s0 evs' s \<and> map fst evs' = map fst evs \<and> heard evs' = {h. \<exists>t. (t, Turn (EvHint h)) \<in> set evs}"
  using assms
proof (induction rule: node_run.induct)
  case node_nil
  have "agent_run s0 [] s0" by (rule run_Nil)
  then show ?case by (auto simp: heard_def)
next
  case (node_snoc evs s ev s')
  then obtain evs' where run: "agent_run s0 evs' s" and ts: "map fst evs' = map fst evs"
    and hs: "heard evs' = {h. \<exists>t. (t, Turn (EvHint h)) \<in> set evs}" by blast
  obtain t e where ev: "ev = (t, e)" by (cases ev)
  from node_snoc.hyps(2) [unfolded ev] show ?case
  proof (cases rule: node_step_cases)
    case (turn e')
    with run have "agent_run s0 (evs' @ [(t, e')]) s'" by (blast intro: run_snoc)
    moreover have "heard (evs' @ [(t, e')]) = {h. \<exists>t. (t, Turn (EvHint h)) \<in> set (evs @ [ev])}"
      using hs ev turn(1) by (auto simp: heard_def)
    moreover have "map fst (evs' @ [(t, e')]) = map fst (evs @ [ev])" using ts ev by simp
    ultimately show ?thesis by blast
  next
    case framed
    then obtain g w m where "agent_step s (t, EvServe g w m) s'" using framed_agent_step by blast
    with run have "agent_run s0 (evs' @ [(t, EvServe g w m)]) s'" by (blast intro: run_snoc)
    moreover have "heard (evs' @ [(t, EvServe g w m)]) = {h. \<exists>t. (t, Turn (EvHint h)) \<in> set (evs @ [ev])}"
      using hs ev framed(1) by (auto simp: heard_def)
    moreover have "map fst (evs' @ [(t, EvServe g w m)]) = map fst (evs @ [ev])" using ts ev by simp
    ultimately show ?thesis by blast
  qed
qed

section \<open>What a node keeps\<close>

text \<open>The parts of the node other than its registry, and what the entries of its own say of them.\<close>

definition parts_kept :: "Agent \<Rightarrow> Agent \<Rightarrow> bool" where
  "parts_kept a b \<longleftrightarrow>
     gw_token (ag_gw b) = gw_token (ag_gw a) \<and> gw_ollama (ag_gw b) = gw_ollama (ag_gw a) \<and>
     length (gw_history (ag_gw b)) \<le> 100 \<and> worker_kept (ag_worker a) (ag_worker b) \<and>
     mg_bin (ag_pipelines b) = mg_bin (ag_pipelines a) \<and> mg_basePort (ag_pipelines b) = mg_basePort (ag_pipelines a) \<and>
     ports_ok (ag_pipelines b)"

definition capable :: "Agent \<Rightarrow> NodeState \<Rightarrow> bool" where
  "capable a n \<longleftrightarrow>
     ns_Sharing n = cfg_Share (ag_cfg a) \<and> ss_Worker (ns_Split n) = (wk_bin (ag_worker a) \<noteq> []) \<and>
     ss_Driver (ns_Split n) = (mg_bin (ag_pipelines a) \<noteq> []) \<and> ss_RPCPort (ns_Split n) = cfg_RPCPort (ag_cfg a)"

definition node_inv :: "Agent \<Rightarrow> agent_sys \<Rightarrow> bool" where
  "node_inv a s \<longleftrightarrow>
     ag_cfg (sy_agent s) = ag_cfg a \<and> parts_kept a (sy_agent s) \<and>
     (\<forall>n \<in> ran (nodes (ag_reg (sy_agent s))). ns_Self n \<longrightarrow> capable a n)"

lemma capable_update [simp]: "capable a (n\<lparr>ns_UpdatedAt := t\<rparr>) = capable a n"
  by (simp add: capable_def)

lemma self_state_capable: "ag_cfg b = ag_cfg a \<Longrightarrow> parts_kept a b \<Longrightarrow> capable a (self_state mc get order b)"
  by (simp add: self_state_def capable_def parts_kept_def worker_kept_def worker_Available_def Available_def Let_def)

lemma turn_parts:
  "agent_step s (t, e) s' \<Longrightarrow> is_turn e \<Longrightarrow>
     ag_gw (sy_agent s') = ag_gw (sy_agent s) \<and> ag_worker (sy_agent s') = ag_worker (sy_agent s) \<and>
     ag_pipelines (sy_agent s') = ag_pipelines (sy_agent s)"
  by (erule agent_stepE) (auto simp: refreshSelf_def collectHint_def poll_peer_def prune_turn_def split: option.split)

lemma turn_entries:
  assumes "agent_step s (t, e) s'" and "node_inv a s" and "n \<in> ran (nodes (ag_reg (sy_agent s')))" and "ns_Self n"
  shows "capable a n"
proof -
  have old: "ns_Self m \<Longrightarrow> capable a m" if "m \<in> ran (nodes (ag_reg (sy_agent s)))" for m
    using assms(2) that by (simp add: node_inv_def)
  have new: "ns_Self m \<Longrightarrow> capable a m" if "turn_state s e = Some m" for m
    using assms(2) that self_state_capable
    by (auto simp: turn_state_def polled_state_def node_inv_def split: agent_event.splits if_splits)
  consider (up) m where "turn_state s e = Some m" "ag_reg (sy_agent s') = Upsert t m (ag_reg (sy_agent s))"
    | (prune) "ag_reg (sy_agent s') = pruned t (StaleAfter * 2) (ag_reg (sy_agent s))"
    | (same) "ag_reg (sy_agent s') = ag_reg (sy_agent s)"
    using agent_step_registry [OF assms(1)] by (auto simp: turn_state_def split: agent_event.splits option.splits)
  then show ?thesis
  proof cases
    case up
    with assms(3,4) old new [OF up(1)] show ?thesis by (auto dest!: ran_Upsert)
  next
    case prune
    with assms(3,4) old show ?thesis by (auto dest: ran_pruned)
  next
    case same
    with assms(3,4) old show ?thesis by simp
  qed
qed

lemma node_inv_step:
  assumes "node_step s ev s'" and "node_inv a s"
  shows "node_inv a s'"
proof -
  obtain t e where ev: "ev = (t, e)" by (cases ev)
  from assms(1) [unfolded ev] show ?thesis
  proof (cases rule: node_step_cases)
    case (turn e')
    with assms(2) agent_step_identity [OF turn(3)] turn_parts [OF turn(3,2)] turn_entries [OF turn(3) assms(2)]
    show ?thesis by (simp add: node_inv_def parts_kept_def)
  next
    case framed
    with assms(2) show ?thesis
      by (auto simp: node_inv_def parts_kept_def framed_def gw_framed_def mgr_kept_def worker_kept_def)
  qed
qed

lemma node_inv_run: "node_run s0 evs s \<Longrightarrow> node_inv a s0 \<Longrightarrow> node_inv a s"
  by (induction rule: node_run.induct) (blast intro: node_inv_step)+

lemma NewAgent_parts:
  assumes "NewAgent hostname env files parse lookPath config = (files', Some a)"
  shows "ag_worker a = NewWorker (RPCServer (ag_bins a)) (cfg_RPCPort (ag_cfg a))"
    and "ag_pipelines a = NewManager (LlamaServer (ag_bins a)) 11500"
    and "gw_token (ag_gw a) = cfg_Token (ag_cfg a)" and "gw_history (ag_gw a) = []"
    and "parse (cfg_OllamaURL (ag_cfg a)) = Some (gw_ollama (ag_gw a))"
  using assms by (auto simp: NewAgent_def NewGateway_def Let_def split: prod.splits option.splits)

lemma node_inv_start:
  assumes "NewAgent hostname env files parse lookPath config = (files', Some a)"
  shows "node_inv a (start_sys a t0)"
  using NewAgent_fresh [OF assms] NewAgent_parts [OF assms]
  by (simp add: node_inv_def start_sys_def parts_kept_def New_def NewManager_def ports_ok_def)

text \<open>
  C18.  Whatever a node is asked, by clients, by peers or by anyone who reaches its port, and however its loops, the
  exits of its children and its requests interleave: its token, its Ollama, its binaries and its ports are
  the configured ones; every pipeline it lists listens in its range of ports; its history holds at most
  a hundred requests; and the state it files of itself advertises exactly the capabilities
  it was started with.
\<close>

theorem node_invariant:
  assumes "NewAgent hostname env files parse lookPath config = (files', Some a)"
    and "node_run (start_sys a t0) evs s" and "b = sy_agent s"
  shows "ag_id b = ag_id a \<and> ag_cfg b = ag_cfg a \<and>
    gw_token (ag_gw b) = cfg_Token (ag_cfg a) \<and> parse (cfg_OllamaURL (ag_cfg a)) = Some (gw_ollama (ag_gw b)) \<and>
    length (gw_history (ag_gw b)) \<le> 100 \<and>
    wk_bin (ag_worker b) = RPCServer (ag_bins a) \<and> wk_port (ag_worker b) = cfg_RPCPort (ag_cfg a) \<and>
    mg_bin (ag_pipelines b) = LlamaServer (ag_bins a) \<and>
    (\<forall>p \<in> ran (mg_pipelines (ag_pipelines b)). 11500 \<le> pl_port p \<and> pl_port p < 11600) \<and>
    (\<forall>n. Get (ag_reg b) (ag_id a) = Some n \<and> ns_Self n \<longrightarrow>
       ns_Sharing n = cfg_Share (ag_cfg a) \<and> ss_Worker (ns_Split n) = (RPCServer (ag_bins a) \<noteq> []) \<and>
       ss_Driver (ns_Split n) = (LlamaServer (ag_bins a) \<noteq> []) \<and> ss_RPCPort (ns_Split n) = cfg_RPCPort (ag_cfg a))"
proof -
  obtain evs' where "agent_run (start_sys a t0) evs' s" using node_run_loops [OF assms(2)] by blast
  then have ident: "agent_inv a evs' s" using NewAgent_fresh [OF assms(1)] by (intro agent_inv_run) simp_all
  have inv: "node_inv a s" using node_inv_run [OF assms(2)] node_inv_start [OF assms(1)] .
  have "capable a n" if "Get (ag_reg b) (ag_id a) = Some n" "ns_Self n" for n
    using inv that assms(3) by (auto simp: node_inv_def Get_def ran_def)
  with inv ident NewAgent_parts [OF assms(1)] assms(3) show ?thesis
    by (auto simp: node_inv_def agent_inv_def parts_kept_def worker_kept_def ports_ok_def capable_def NewManager_def NewWorker_def)
qed

text \<open>A node with an \<^verbatim>\<open>rpc-server\<close>: it is recruited, and its next refresh files that the server runs.\<close>

definition lender :: Agent where
  "lender = example_agent\<lparr>ag_bins := \<lparr>RPCServer = ''rpc-server'', LlamaServer = []\<rparr>, ag_worker := NewWorker ''rpc-server'' 50752\<rparr>"

definition recruiting :: http_request where
  "recruiting = \<lparr>hr_Method = ''POST'', hr_Path = ''/api/rpc/start'', hr_Headers = [], hr_Body = Some []\<rparr>"

lemma lender_new:
  "\<exists>files. NewAgent None (example_id_env [1, 2, 3, 4, 5, 6, 7, 8]) Map.empty
     (\<lambda>u. Some (gw_ollama example_gateway)) (\<lambda>b. if b = ''rpc-server'' then Some b else None) example_config = (files, Some lender)"
  by (simp add: NewAgent_def default_name_def loadOrCreateID_def example_id_env_def stored_id_def Let_def
      NewGateway_def Detect_def resolve_def lender_def example_agent_def example_config_def example_gateway_def
      example_identity [simplified])

lemma dispatch_start: "dispatch agent_routes ''POST'' ''/api/rpc/start'' = Handle RPCStart"
proof -
  have "cleanPath ''/api/rpc/start'' = ''/api/rpc/start''" by code_simp
  then show ?thesis
    using dispatch_spec [of "''/api/rpc/start''"] by (simp add: post_endpoint_def inference_paths_def HasPrefix_def)
qed

lemma lender_recruited:
  "\<exists>rep. serve example_serve recruiting lender = (lender\<lparr>ag_worker := (ag_worker lender)\<lparr>wk_cmd := Some 0\<rparr>\<rparr>, None, rep)"
  using dispatch_start
  by (simp add: serve_def handle_def recruiting_def handleRPCStart_def agent_token_ok_def token_ok_def lender_def
      example_agent_def example_config_def worker_Available_def NewWorker_def worker_Ensure_def worker_section_def
      example_serve_def example_worker_env_def Let_def)

theorem node_invariant_witness:
  "\<exists>s n. node_run (start_sys lender 0) [(1, Request example_serve recruiting), (2, Turn (EvRefresh example_machine (\<lambda>u. GetFailed) []))] s \<and>
     wk_bin (ag_worker (sy_agent s)) = ''rpc-server'' \<and> Get (ag_reg (sy_agent s)) (ag_id lender) = Some n \<and>
     ss_RPCRunning (ns_Split n) \<and> ss_Worker (ns_Split n)"
proof -
  let ?b = "lender\<lparr>ag_worker := (ag_worker lender)\<lparr>wk_cmd := Some 0\<rparr>\<rparr>"
  let ?s = "start_sys (refreshSelf 2 example_machine (\<lambda>u. GetFailed) [] ?b) 2"
  obtain rep where "serve example_serve recruiting lender = (?b, None, rep)" using lender_recruited by blast
  then have "node_step (start_sys lender 0) (1, Request example_serve recruiting) (start_sys ?b 1)"
    using node_step.request [of "start_sys lender 0" 1 example_serve recruiting ?b None rep] by (simp add: start_sys_def)
  moreover have "node_step (start_sys ?b 1) (2, Turn (EvRefresh example_machine (\<lambda>u. GetFailed) [])) ?s"
    using agent_step.refresh [of "start_sys ?b 1" 2] by (intro node_step.turn) (simp_all add: start_sys_def)
  ultimately have run: "node_run (start_sys lender 0) [(1, Request example_serve recruiting),
      (2, Turn (EvRefresh example_machine (\<lambda>u. GetFailed) []))] ?s"
    using node_snoc [OF node_snoc [OF node_nil]] by fastforce
  define n where "n = (self_state example_machine (\<lambda>u. GetFailed) [] ?b)\<lparr>ns_UpdatedAt := 2\<rparr>"
  have n: "Get (ag_reg (sy_agent ?s)) (ag_id lender) = Some n" "ns_Self n"
    by (simp_all add: n_def start_sys_def refreshSelf_def Upsert_def Get_def self_state_def Let_def)
  have "ss_RPCRunning (ns_Split n)" by (simp add: n_def self_state_def Running_def Let_def)
  moreover obtain files where "NewAgent None (example_id_env [1, 2, 3, 4, 5, 6, 7, 8]) Map.empty
      (\<lambda>u. Some (gw_ollama example_gateway)) (\<lambda>b. if b = ''rpc-server'' then Some b else None) example_config = (files, Some lender)"
    using lender_new by blast
  moreover have "RPCServer (ag_bins lender) = ''rpc-server''" by (simp add: lender_def)
  ultimately show ?thesis
    using node_invariant [OF _ run refl, of None _ Map.empty _ _ example_config files] n run
    by (intro exI [of _ ?s] exI [of _ n]) simp
qed

end
