(* ===== verification/CommandLine.thy ===== *)
theory CommandLine
  imports PoolView
begin

text \<open>
  \<^verbatim>\<open>cmd/potluck/main.go\<close>: the command line, and what starts from it.  Go's \<^verbatim>\<open>flag\<close> package is modelled as
  far as \<^verbatim>\<open>main\<close> uses it: string, integer and boolean flags, defined with their defaults, and a parser that stops
  at the first argument that is not a flag.  The texts printed for a wrong command line and for
  \<^verbatim>\<open>-help\<close> are left out; what they lead to is the exit code.
\<close>

section \<open>Numbers and truth values\<close>

text \<open>
  \<^verbatim>\<open>strconv.ParseInt(s, 0, 64)\<close>: a base prefix, underscores between digits, 64 bits.  A syntax error and a
  value out of range are both \<open>None\<close>: either makes the flag invalid.
\<close>

definition lower :: "char \<Rightarrow> nat" where
  "lower c = (let n = of_char c in if n div 32 mod 2 = (0 :: nat) then n + 32 else n)"

definition base_digit :: "char \<Rightarrow> nat option" where
  "base_digit c =
     (if is_digit c then Some (digit_value c)
      else if 97 \<le> lower c \<and> lower c \<le> 122 then Some (lower c - 87) else None)"

fun base_loop :: "nat \<Rightarrow> nat \<Rightarrow> string \<Rightarrow> nat option" where
  "base_loop b n [] = Some n"
| "base_loop b n (c # cs) =
     (if c = CHR ''_'' then base_loop b n cs
      else (case base_digit c of
              None \<Rightarrow> None
            | Some d \<Rightarrow> if d \<ge> b \<or> b * n + d \<ge> 2 ^ 64 then None else base_loop b (b * n + d) cs))"

datatype seen_char = SawStart | SawDigit | SawUnderscore | SawOther

fun underscore_loop :: "bool \<Rightarrow> seen_char \<Rightarrow> string \<Rightarrow> bool" where
  "underscore_loop hex saw [] = (saw \<noteq> SawUnderscore)"
| "underscore_loop hex saw (c # cs) =
     (if is_digit c \<or> hex \<and> 97 \<le> lower c \<and> lower c \<le> 102 then underscore_loop hex SawDigit cs
      else if c = CHR ''_'' then saw = SawDigit \<and> underscore_loop hex SawUnderscore cs
      else saw \<noteq> SawUnderscore \<and> underscore_loop hex SawOther cs)"

definition base_prefix :: "string \<Rightarrow> char option" where
  "base_prefix s =
     (case s of
        a # c # _ \<Rightarrow> if a = CHR ''0'' \<and> char_of (lower c) \<in> {CHR ''b'', CHR ''o'', CHR ''x''}
          then Some (char_of (lower c)) else None
      | _ \<Rightarrow> None)"

text \<open>The sign is already gone where this is used.\<close>

definition underscoreOK :: "string \<Rightarrow> bool" where
  "underscoreOK s =
     (case base_prefix s of
        Some p \<Rightarrow> underscore_loop (p = CHR ''x'') SawDigit (drop 2 s)
      | None \<Rightarrow> underscore_loop False SawStart s)"

definition ParseUint0 :: "string \<Rightarrow> nat option" where
  "ParseUint0 s =
     (if s = [] then None
      else
        (let (b, ds) =
           (if hd s \<noteq> CHR ''0'' then (10, s)
            else if length s \<ge> 3 \<and> base_prefix s = Some (CHR ''b'') then (2, drop 2 s)
            else if length s \<ge> 3 \<and> base_prefix s = Some (CHR ''o'') then (8, drop 2 s)
            else if length s \<ge> 3 \<and> base_prefix s = Some (CHR ''x'') then (16, drop 2 s)
            else (8, tl s))
         in case base_loop b 0 ds of
              None \<Rightarrow> None
            | Some n \<Rightarrow> if CHR ''_'' \<in> set ds \<and> \<not> underscoreOK s then None else Some n))"

definition ParseInt0 :: "string \<Rightarrow> int option" where
  "ParseInt0 s =
     (if s = [] then None
      else
        (let neg = (hd s = CHR ''-''); u = (if hd s = CHR ''+'' \<or> neg then tl s else s)
         in case ParseUint0 u of
              None \<Rightarrow> None
            | Some n \<Rightarrow>
                if \<not> neg \<and> n \<ge> 2 ^ 63 \<or> neg \<and> n > 2 ^ 63 then None
                else Some (if neg then - int n else int n)))"

definition ParseBool :: "string \<Rightarrow> bool option" where
  "ParseBool s =
     (if s \<in> {''1'', ''t'', ''T'', ''true'', ''TRUE'', ''True''} then Some True
      else if s \<in> {''0'', ''f'', ''F'', ''false'', ''FALSE'', ''False''} then Some False
      else None)"

section \<open>Flags\<close>

text \<open>A flag is defined with its default and the variable it sets.\<close>

record options =
  op_cfg :: Config
  op_version :: bool

datatype flag =
  StringVar string "string \<Rightarrow> options \<Rightarrow> options"
| IntVar int "int \<Rightarrow> options \<Rightarrow> options"
| BoolVar bool "bool \<Rightarrow> options \<Rightarrow> options"

definition cfg_var :: "(('a \<Rightarrow> 'a) \<Rightarrow> Config \<Rightarrow> Config) \<Rightarrow> 'a \<Rightarrow> options \<Rightarrow> options" where
  "cfg_var upd v o1 = o1\<lparr>op_cfg := upd (\<lambda>_. v) (op_cfg o1)\<rparr>"

definition flag_table :: "string \<Rightarrow> (string \<times> flag) list" where
  "flag_table modelsDir =
     [(''name'', StringVar [] (cfg_var cfg_Name_update)),
      (''port'', IntVar 11444 (cfg_var cfg_Port_update)),
      (''ollama'', StringVar ''http://127.0.0.1:11434'' (cfg_var cfg_OllamaURL_update)),
      (''pool'', StringVar ''default'' (cfg_var cfg_Pool_update)),
      (''token'', StringVar [] (cfg_var cfg_Token_update)),
      (''share'', BoolVar True (cfg_var cfg_Share_update)),
      (''rpc-server-bin'', StringVar [] (cfg_var cfg_RPCServerBin_update)),
      (''llama-server-bin'', StringVar [] (cfg_var cfg_LlamaServerBin_update)),
      (''rpc-port'', IntVar 50752 (cfg_var cfg_RPCPort_update)),
      (''ctx'', IntVar 4096 (cfg_var cfg_CtxSize_update)),
      (''models-dir'', StringVar modelsDir (cfg_var cfg_ModelsDir_update)),
      (''version'', BoolVar False (\<lambda>b o1. o1\<lparr>op_version := b\<rparr>))]"

text \<open>The variables before any flag is defined hold Go's zero values; a definition stores the default.\<close>

definition zero_options :: options where
  "zero_options =
     \<lparr>op_cfg = \<lparr>cfg_Name = [], cfg_Port = 0, cfg_OllamaURL = [], cfg_Pool = [], cfg_Token = [], cfg_Share = False,
        cfg_Version = [], cfg_RPCServerBin = [], cfg_LlamaServerBin = [], cfg_RPCPort = 0, cfg_CtxSize = 0,
        cfg_ModelsDir = []\<rparr>, op_version = False\<rparr>"

definition store_default :: "string \<times> flag \<Rightarrow> options \<Rightarrow> options" where
  "store_default f =
     (case snd f of StringVar d set_var \<Rightarrow> set_var d | IntVar d set_var \<Rightarrow> set_var d | BoolVar d set_var \<Rightarrow> set_var d)"

definition default_options :: "string \<Rightarrow> options" where
  "default_options modelsDir = fold store_default (flag_table modelsDir) zero_options"

datatype flag_error = HelpRequested | BadFlag

text \<open>\<^verbatim>\<open>Value.Set\<close> of the flag; \<open>None\<close> is an invalid value.\<close>

definition set_flag :: "flag \<Rightarrow> string \<Rightarrow> options \<Rightarrow> options option" where
  "set_flag f v o1 =
     (case f of
        StringVar d set_var \<Rightarrow> Some (set_var v o1)
      | IntVar d set_var \<Rightarrow> map_option (\<lambda>i. set_var i o1) (ParseInt0 v)
      | BoolVar d set_var \<Rightarrow> map_option (\<lambda>b. set_var b o1) (ParseBool v))"

definition is_bool :: "flag \<Rightarrow> bool" where
  "is_bool f = (case f of BoolVar _ _ \<Rightarrow> True | _ \<Rightarrow> False)"

text \<open>
  \<^verbatim>\<open>parseOne\<close>: the parser stops before the arguments that are left, fails, or has set a flag.  A flag takes
  its value from behind an equals sign, or, unless it is boolean, from the next argument.
\<close>

datatype parse_step = Stopped "string list" | Failed flag_error | Parsed options "string list"

definition with_value :: "flag \<Rightarrow> string \<Rightarrow> options \<Rightarrow> string list \<Rightarrow> parse_step" where
  "with_value f v o1 rest = (case set_flag f v o1 of None \<Rightarrow> Failed BadFlag | Some o2 \<Rightarrow> Parsed o2 rest)"

definition undefined_flag :: "string \<Rightarrow> flag_error" where
  "undefined_flag name = (if name = ''help'' \<or> name = ''h'' then HelpRequested else BadFlag)"

definition flag_step :: "(string \<times> flag) list \<Rightarrow> string \<Rightarrow> string option \<Rightarrow> string list \<Rightarrow> options \<Rightarrow> parse_step" where
  "flag_step tab name value args o1 =
     (case map_of tab name of
        None \<Rightarrow> Failed (undefined_flag name)
      | Some f \<Rightarrow>
          (case value of
             Some v \<Rightarrow> with_value f v o1 args
           | None \<Rightarrow>
               if is_bool f then with_value f ''true'' o1 args
               else (case args of [] \<Rightarrow> Failed BadFlag | v # args' \<Rightarrow> with_value f v o1 args')))"

text \<open>The name and the value of a flag, if its syntax is right.\<close>

definition split_flag :: "string \<Rightarrow> (string \<times> string option) option" where
  "split_flag s =
     (let body = (if s ! 1 = CHR ''-'' then drop 2 s else tl s)
      in if body = [] \<or> hd body = CHR ''-'' \<or> hd body = CHR ''='' then None
         else Some (case Cut body (CHR ''='') of None \<Rightarrow> (body, None) | Some (name, v) \<Rightarrow> (name, Some v)))"

definition is_operand :: "string \<Rightarrow> bool" where
  "is_operand s \<longleftrightarrow> length s < 2 \<or> hd s \<noteq> CHR ''-''"

definition terminator :: string where "terminator = ''--''"

definition parseOne :: "(string \<times> flag) list \<Rightarrow> string list \<Rightarrow> options \<Rightarrow> parse_step" where
  "parseOne tab argv o1 =
     (case argv of
        [] \<Rightarrow> Stopped []
      | s # args \<Rightarrow>
          if is_operand s then Stopped argv
          else if s = terminator then Stopped args
          else (case split_flag s of
                  None \<Rightarrow> Failed BadFlag
                | Some (name, value) \<Rightarrow> flag_step tab name value args o1))"

lemma with_value_Parsed: "with_value f v o1 args = Parsed o2 rest \<longleftrightarrow> rest = args \<and> set_flag f v o1 = Some o2"
  by (auto simp: with_value_def split: option.splits)

lemma flag_step_not_Stopped: "flag_step tab name value args o1 \<noteq> Stopped rest"
  by (simp add: flag_step_def with_value_def split: option.split list.split)

lemma flag_step_Parsed:
  assumes "flag_step tab name value args o1 = Parsed o2 rest"
  shows "(rest = args \<or> (\<exists>v. args = v # rest)) \<and> flag_step tab name value (args @ ys) o1 = Parsed o2 (rest @ ys)"
proof (cases "map_of tab name")
  case None
  with assms show ?thesis by (simp add: flag_step_def)
next
  case (Some f)
  with assms show ?thesis
    by (cases "value"; cases "is_bool f"; cases args) (auto simp: flag_step_def with_value_Parsed)
qed

lemma parseOne_ParsedD:
  assumes "parseOne tab argv o1 = Parsed o2 rest"
  obtains s args name val where "argv = s # args" "\<not> is_operand s" "s \<noteq> terminator" "split_flag s = Some (name, val)"
    "flag_step tab name val args o1 = Parsed o2 rest"
  using assms by (cases argv) (auto simp: parseOne_def split: if_splits option.splits prod.splits)

lemma parseOne_shorter: "parseOne tab argv o1 = Parsed o2 rest \<Longrightarrow> length rest < length argv"
proof (erule parseOne_ParsedD)
  fix s args name val
  assume "argv = s # args" and "flag_step tab name val args o1 = Parsed o2 rest"
  then show "length rest < length argv" using flag_step_Parsed [of tab name val args o1 o2 rest "[]"] by auto
qed

text \<open>\<^verbatim>\<open>FlagSet.Parse\<close>: the options and the arguments that are left.\<close>

function parse_flags :: "(string \<times> flag) list \<Rightarrow> string list \<Rightarrow> options \<Rightarrow> flag_error + options \<times> string list" where
  "parse_flags tab argv o1 =
     (case parseOne tab argv o1 of
        Stopped rest \<Rightarrow> Inr (o1, rest)
      | Failed e \<Rightarrow> Inl e
      | Parsed o2 rest \<Rightarrow> parse_flags tab rest o2)"
  by pat_completeness auto

termination by (relation "measure (\<lambda>(tab, argv, o1). length argv)") (auto dest: parseOne_shorter)

declare parse_flags.simps [simp del]

section \<open>The program\<close>

text \<open>
  What an invocation does: exit at once, print the version, ask the agent on a port for its pool, or start
  an agent.  The flag set exits with 0 after the help text and with 2 after an error.
\<close>

datatype invocation = ExitWith int | ShowVersion string | ShowStatus int | StartAgent Config

definition flag_exit :: "flag_error \<Rightarrow> int" where
  "flag_exit e = (case e of HelpRequested \<Rightarrow> 0 | BadFlag \<Rightarrow> 2)"

definition potluck_main :: "string \<Rightarrow> string \<Rightarrow> string list \<Rightarrow> invocation" where
  "potluck_main modelsDir version args =
     (let tab = flag_table modelsDir; o1 = default_options modelsDir
      in if args \<noteq> [] \<and> hd args = ''status'' then
           (case parse_flags tab (tl args) o1 of
              Inl e \<Rightarrow> ExitWith (flag_exit e)
            | Inr (o2, rest) \<Rightarrow> ShowStatus (cfg_Port (op_cfg o2)))
         else
           (case parse_flags tab args o1 of
              Inl e \<Rightarrow> ExitWith (flag_exit e)
            | Inr (o2, rest) \<Rightarrow>
                if op_version o2 then ShowVersion (''potluck '' @ version @ [CHR 0x0A])
                else StartAgent ((op_cfg o2)\<lparr>cfg_Version := version\<rparr>)))"

text \<open>
  \<^verbatim>\<open>Run\<close> up to the loops: the own state is filed before anything reads it, then the node is announced.
  \<open>register\<close> is \<^verbatim>\<open>zeroconf.Register\<close>.
\<close>

definition Run_start ::
  "(string \<Rightarrow> string \<Rightarrow> string \<Rightarrow> int \<Rightarrow> string list \<Rightarrow> 'err option) \<Rightarrow> instant \<Rightarrow> machine \<Rightarrow> (string \<Rightarrow> http_get)
    \<Rightarrow> string list \<Rightarrow> Agent \<Rightarrow> 'err + Agent" where
  "Run_start register now mc get order a =
     (let a' = refreshSelf now mc get order a; cfg = ag_cfg a'
      in case Advertise register (ag_id a') (cfg_Name cfg) (cfg_Pool cfg) (cfg_Port cfg) (cfg_Version cfg) of
           Some e \<Rightarrow> Inl e
         | None \<Rightarrow> Inr a')"

section \<open>What is parsed back\<close>

lemma dec_digits_leading: "0 < n \<Longrightarrow> hd (dec_digits n) \<noteq> CHR ''0''"
proof (induction n rule: dec_digits.induct)
  case (1 n)
  show ?case
  proof (cases "n < 10")
    case True
    have "(of_char (char_of (48 + n) :: char) :: nat) = 48 + n" using True by simp
    moreover have "(of_char CHR ''0'' :: nat) = 48" by simp
    ultimately have "(char_of (48 + n) :: char) \<noteq> CHR ''0''" using 1(2) by (metis add_cancel_left_right not_gr0)
    then show ?thesis using True by (subst dec_digits.simps) simp
  next
    case False
    with 1 have "hd (dec_digits (n div 10)) \<noteq> CHR ''0''" by simp
    then show ?thesis using False by (subst dec_digits.simps) simp
  qed
qed

lemma foldl_digits_mono: "m \<le> foldl (\<lambda>n c. 10 * n + digit_value c) m xs"
proof (induction xs arbitrary: m)
  case (Cons a xs)
  from Cons [of "10 * m + digit_value a"] show ?case by simp
qed simp

lemma base_loop_digits:
  assumes "\<forall>c \<in> set s. is_digit c" and "foldl (\<lambda>n c. 10 * n + digit_value c) n s < 2 ^ 64"
  shows "base_loop 10 n s = Some (foldl (\<lambda>n c. 10 * n + digit_value c) n s)"
  using assms
proof (induction s arbitrary: n)
  case (Cons c cs)
  have "10 * n + digit_value c < 2 ^ 64"
    using foldl_digits_mono [of "10 * n + digit_value c" cs] Cons.prems(2) by simp
  moreover have "c \<noteq> CHR ''_''" "digit_value c < 10" using Cons.prems(1) by (auto simp: is_digit_def digit_value_def)
  ultimately show ?case using Cons by (simp add: base_digit_def)
qed simp

lemma ParseUint0_dec_digits:
  assumes "n < 2 ^ 64"
  shows "ParseUint0 (dec_digits n) = Some n"
proof (cases "n = 0")
  case True
  have "dec_digits 0 = ''0''" by code_simp
  with True show ?thesis by (simp add: ParseUint0_def)
next
  case False
  have "base_loop 10 0 (dec_digits n) = Some n"
    using base_loop_digits [of "dec_digits n" 0] dec_digits_all [of n] dec_value_dec_digits [of n] assms
    by (simp add: dec_value_def)
  moreover have "CHR ''_'' \<notin> set (dec_digits n)"
    using dec_digits_all [of n] by (auto simp: is_digit_def)
  moreover have "hd (dec_digits n) \<noteq> CHR ''0''" using False dec_digits_leading by blast
  ultimately show ?thesis by (simp add: ParseUint0_def)
qed

text \<open>The \<^verbatim>\<open>int\<close>s.\<close>

definition fits_int :: "int \<Rightarrow> bool" where
  "fits_int i \<longleftrightarrow> - (2 ^ 63) \<le> i \<and> i < 2 ^ 63"

lemma is_digit_sign: "\<not> is_digit (CHR ''-'')" "\<not> is_digit (CHR ''+'')"
  by (simp_all add: is_digit_def)

lemma ParseInt0_Itoa: "fits_int i \<Longrightarrow> ParseInt0 (Itoa i) = Some i"
proof -
  assume i: "fits_int i"
  have "is_digit (hd (dec_digits n))" for n
    using dec_digits_all hd_in_set [OF dec_digits_neq_Nil] by blast
  then have hd: "hd (dec_digits n) \<noteq> CHR ''-''" "hd (dec_digits n) \<noteq> CHR ''+''" for n
    by (metis is_digit_sign)+
  show ?thesis
  proof (cases "i < 0")
    case True
    then have "nat (- i) < 2 ^ 64" "nat (- i) \<le> 2 ^ 63" using i by (auto simp: fits_int_def nat_le_iff)
    with True show ?thesis by (simp add: ParseInt0_def Itoa_def ParseUint0_dec_digits)
  next
    case False
    then have "nat i < 2 ^ 64" "nat i < 2 ^ 63" using i by (auto simp: fits_int_def nat_less_iff)
    with False hd show ?thesis by (simp add: ParseInt0_def Itoa_def ParseUint0_dec_digits)
  qed
qed

text \<open>A setting, with one dash or two, its value in the same argument or in the next.\<close>

definition setting :: "bool \<Rightarrow> bool \<Rightarrow> string \<Rightarrow> string \<Rightarrow> string list" where
  "setting double separate name v =
     (let d = (if double then ''--'' else ''-'') @ name in if separate then [d, v] else [d @ ''='' @ v])"

lemma Cut_no: "c \<notin> set s \<Longrightarrow> Cut s c = None"
  by (induction s) auto

lemma parseOne_flag:
  assumes "name \<noteq> []" and "CHR ''='' \<notin> set name" and "hd name \<noteq> CHR ''-''" and "dash = ''-'' \<or> dash = ''--''"
  shows "parseOne tab ((dash @ name @ CHR ''='' # v) # args) o1 = flag_step tab name (Some v) args o1"
    and "parseOne tab ((dash @ name) # args) o1 = flag_step tab name None args o1"
proof -
  obtain c cs where name: "name = c # cs" "c \<noteq> CHR ''-''" "c \<noteq> CHR ''=''" using assms(1-3) by (cases name) auto
  have op: "\<not> is_operand (dash @ name @ xs)" "dash @ name @ xs \<noteq> terminator" for xs
    using assms(4) name by (auto simp: is_operand_def terminator_def)
  have cut: "Cut (name @ CHR ''='' # v) (CHR ''='') = Some (name, v)" "Cut name (CHR ''='') = None"
    using assms(2) by (simp_all add: Cut_append Cut_no)
  have body: "split_flag (dash @ name @ xs) =
      Some (case Cut (name @ xs) (CHR ''='') of None \<Rightarrow> (name @ xs, None) | Some (name, v) \<Rightarrow> (name, Some v))" for xs
  proof -
    have e: "(if (dash @ name @ xs) ! 1 = CHR ''-'' then drop 2 (dash @ name @ xs) else tl (dash @ name @ xs)) = name @ xs"
      using assms(4) name by auto
    have "name \<noteq> []" "hd name \<noteq> CHR ''-''" "hd name \<noteq> CHR ''=''" using name by simp_all
    then show ?thesis unfolding split_flag_def e Let_def by simp
  qed
  show "parseOne tab ((dash @ name @ CHR ''='' # v) # args) o1 = flag_step tab name (Some v) args o1"
    using op [of "CHR ''='' # v"] body [of "CHR ''='' # v"] cut(1) by (simp add: parseOne_def)
  show "parseOne tab ((dash @ name) # args) o1 = flag_step tab name None args o1"
    using op [of "[]"] body [of "[]"] cut(2) by (simp add: parseOne_def)
qed

lemma parse_setting:
  assumes "map_of tab name = Some f" and "name \<noteq> []" and "CHR ''='' \<notin> set name" and "hd name \<noteq> CHR ''-''"
    and "separate \<longrightarrow> \<not> is_bool f" and "set_flag f v o1 = Some o2"
  shows "parse_flags tab (setting double separate name v @ rest) o1 = parse_flags tab rest o2"
proof -
  define dash where "dash = (if double then ''--'' else ''-'')"
  then have "dash = ''-'' \<or> dash = ''--''" by simp
  note one = parseOne_flag [OF assms(2-4) this]
  have "parseOne tab (setting double separate name v @ rest) o1 = Parsed o2 rest"
    using assms(1,5,6) one
    by (cases separate) (simp_all add: setting_def flag_step_def with_value_def Let_def flip: dash_def)
  then show ?thesis by (simp add: parse_flags.simps)
qed

lemma parseOne_append:
  assumes "parseOne tab argv o1 = Parsed o2 rest"
  shows "parseOne tab (argv @ ys) o1 = Parsed o2 (rest @ ys)"
  using assms
proof (rule parseOne_ParsedD)
  fix s args name val
  assume "argv = s # args" "\<not> is_operand s" "s \<noteq> terminator" "split_flag s = Some (name, val)"
    and "flag_step tab name val args o1 = Parsed o2 rest"
  then show ?thesis using flag_step_Parsed [of tab name val args o1 o2 rest ys] by (simp add: parseOne_def)
qed

lemma parseOne_Stopped:
  assumes "parseOne tab argv o1 = Stopped rest" and "is_operand s"
  shows "\<exists>rest'. parseOne tab (argv @ s # ys) o1 = Stopped rest'"
  using assms by (cases argv) (auto simp: parseOne_def flag_step_not_Stopped split: if_splits option.splits prod.splits)

lemma parse_flags_operand:
  assumes "parse_flags tab argv o1 = Inr (o2, rest)" and "is_operand s"
  shows "\<exists>rest'. parse_flags tab (argv @ s # ys) o1 = Inr (o2, rest')"
  using assms(1)
proof (induction tab argv o1 rule: parse_flags.induct)
  case (1 tab argv o1)
  show ?case
  proof (cases "parseOne tab argv o1")
    case (Stopped rest1)
    with 1(2) parseOne_Stopped [OF Stopped assms(2), of ys] show ?thesis by (auto simp: parse_flags.simps)
  next
    case (Failed e)
    with 1(2) show ?thesis by (simp add: parse_flags.simps)
  next
    case (Parsed o3 rest1)
    with 1 have "\<exists>rest'. parse_flags tab (rest1 @ s # ys) o3 = Inr (o2, rest')" by (simp add: parse_flags.simps [of tab argv])
    with parseOne_append [OF Parsed, of "s # ys"] show ?thesis by (simp add: parse_flags.simps [of tab "argv @ s # ys"])
  qed
qed

section \<open>Properties\<close>

text \<open>A configuration as settings, in the order of the flag definitions.\<close>

definition config_settings :: "Config \<Rightarrow> (string \<times> string) list" where
  "config_settings c =
     [(''name'', cfg_Name c), (''port'', Itoa (cfg_Port c)), (''ollama'', cfg_OllamaURL c), (''pool'', cfg_Pool c),
      (''token'', cfg_Token c), (''share'', if cfg_Share c then ''true'' else ''false''),
      (''rpc-server-bin'', cfg_RPCServerBin c), (''llama-server-bin'', cfg_LlamaServerBin c),
      (''rpc-port'', Itoa (cfg_RPCPort c)), (''ctx'', Itoa (cfg_CtxSize c)), (''models-dir'', cfg_ModelsDir c)]"

definition command_line :: "(string \<Rightarrow> bool) \<Rightarrow> (string \<Rightarrow> bool) \<Rightarrow> Config \<Rightarrow> string list" where
  "command_line double separate c =
     concat (map (\<lambda>(name, v). setting (double name) (separate name \<and> name \<noteq> ''share'') name v) (config_settings c))"

lemma default_options_simps:
  "default_options d =
     \<lparr>op_cfg = \<lparr>cfg_Name = [], cfg_Port = 11444, cfg_OllamaURL = ''http://127.0.0.1:11434'', cfg_Pool = ''default'',
        cfg_Token = [], cfg_Share = True, cfg_Version = [], cfg_RPCServerBin = [], cfg_LlamaServerBin = [],
        cfg_RPCPort = 50752, cfg_CtxSize = 4096, cfg_ModelsDir = d\<rparr>, op_version = False\<rparr>"
  by (simp add: default_options_def flag_table_def store_default_def zero_options_def cfg_var_def)

lemma flag_simps [simp]:
  "is_bool (StringVar d g) = False" "is_bool (IntVar i h) = False" "is_bool (BoolVar b k) = True"
  "set_flag (StringVar d g) v o1 = Some (g v o1)"
  "set_flag (IntVar i h) v o1 = map_option (\<lambda>i. h i o1) (ParseInt0 v)"
  "set_flag (BoolVar b k) v o1 = map_option (\<lambda>b. k b o1) (ParseBool v)"
  by (simp_all add: is_bool_def set_flag_def)

lemma parse_string_setting:
  assumes "map_of tab name = Some (StringVar d g)" and "name \<noteq> [] \<and> CHR ''='' \<notin> set name \<and> hd name \<noteq> CHR ''-''"
  shows "parse_flags tab (setting double separate name v @ rest) o1 = parse_flags tab rest (g v o1)"
  using assms(2) by (intro parse_setting [OF assms(1)]) simp_all

lemma parse_int_setting:
  assumes "map_of tab name = Some (IntVar d g)" and "name \<noteq> [] \<and> CHR ''='' \<notin> set name \<and> hd name \<noteq> CHR ''-''"
    and "fits_int k"
  shows "parse_flags tab (setting double separate name (Itoa k) @ rest) o1 = parse_flags tab rest (g k o1)"
  using assms(2,3) by (intro parse_setting [OF assms(1)]) (simp_all add: ParseInt0_Itoa)

lemma parse_bool_setting:
  assumes "map_of tab name = Some (BoolVar d g)" and "name \<noteq> [] \<and> CHR ''='' \<notin> set name \<and> hd name \<noteq> CHR ''-''"
  shows "parse_flags tab (setting double False name (if b then ''true'' else ''false'') @ rest) o1 = parse_flags tab rest (g b o1)"
  using assms(2) by (cases b; intro parse_setting [OF assms(1)]) (auto simp: ParseBool_def)

lemma flag_lookup:
  "map_of (flag_table d) ''name'' = Some (StringVar [] (cfg_var cfg_Name_update))"
  "map_of (flag_table d) ''port'' = Some (IntVar 11444 (cfg_var cfg_Port_update))"
  "map_of (flag_table d) ''ollama'' = Some (StringVar ''http://127.0.0.1:11434'' (cfg_var cfg_OllamaURL_update))"
  "map_of (flag_table d) ''pool'' = Some (StringVar ''default'' (cfg_var cfg_Pool_update))"
  "map_of (flag_table d) ''token'' = Some (StringVar [] (cfg_var cfg_Token_update))"
  "map_of (flag_table d) ''share'' = Some (BoolVar True (cfg_var cfg_Share_update))"
  "map_of (flag_table d) ''rpc-server-bin'' = Some (StringVar [] (cfg_var cfg_RPCServerBin_update))"
  "map_of (flag_table d) ''llama-server-bin'' = Some (StringVar [] (cfg_var cfg_LlamaServerBin_update))"
  "map_of (flag_table d) ''rpc-port'' = Some (IntVar 50752 (cfg_var cfg_RPCPort_update))"
  "map_of (flag_table d) ''ctx'' = Some (IntVar 4096 (cfg_var cfg_CtxSize_update))"
  "map_of (flag_table d) ''models-dir'' = Some (StringVar d (cfg_var cfg_ModelsDir_update))"
  by (simp_all add: flag_table_def)

lemma parse_command_line:
  assumes "fits_int (cfg_Port c)" "fits_int (cfg_RPCPort c)" "fits_int (cfg_CtxSize c)"
  shows "parse_flags (flag_table d) (command_line double separate c @ rest) o1
    = parse_flags (flag_table d) rest (o1\<lparr>op_cfg := c\<lparr>cfg_Version := cfg_Version (op_cfg o1)\<rparr>\<rparr>)"
proof -
  have all_set: "g\<lparr>cfg_Name := cfg_Name c, cfg_Port := cfg_Port c, cfg_OllamaURL := cfg_OllamaURL c, cfg_Pool := cfg_Pool c,
      cfg_Token := cfg_Token c, cfg_Share := cfg_Share c, cfg_RPCServerBin := cfg_RPCServerBin c,
      cfg_LlamaServerBin := cfg_LlamaServerBin c, cfg_RPCPort := cfg_RPCPort c, cfg_CtxSize := cfg_CtxSize c,
      cfg_ModelsDir := cfg_ModelsDir c\<rparr> = c\<lparr>cfg_Version := cfg_Version g\<rparr>" for g :: Config
    by (cases g; cases c) simp
  show ?thesis
    unfolding command_line_def config_settings_def list.map concat.simps prod.case append_assoc append_Nil
    by (simp add: flag_lookup assms parse_string_setting parse_int_setting parse_bool_setting cfg_var_def all_set)
qed

text \<open>
  C40.  Every configuration can be given on the command line: with one dash or two, values behind an equals
  sign or as arguments of their own, whatever characters the values contain (dashes, equals signs and
  nothing at all included), the agent starts with exactly that configuration.
\<close>

theorem command_line_roundtrip:
  assumes "fits_int (cfg_Port c)" and "fits_int (cfg_RPCPort c)" and "fits_int (cfg_CtxSize c)"
  shows "potluck_main d version (command_line double separate c) = StartAgent (c\<lparr>cfg_Version := version\<rparr>)"
proof -
  have "parse_flags (flag_table d) [] o1 = Inr (o1, [])" for o1
    by (simp add: parse_flags.simps parseOne_def)
  with parse_command_line [OF assms, of d double separate "[]" "default_options d"]
  have p: "parse_flags (flag_table d) (command_line double separate c) (default_options d)
      = Inr ((default_options d)\<lparr>op_cfg := c\<lparr>cfg_Version := []\<rparr>\<rparr>, [])"
    by (simp add: default_options_simps)
  have "hd (hd (command_line double separate c)) = CHR ''-''" "command_line double separate c \<noteq> []"
    by (simp_all add: command_line_def config_settings_def setting_def Let_def)
  then have not_status: "\<not> (command_line double separate c \<noteq> [] \<and> hd (command_line double separate c) = ''status'')" by auto
  show ?thesis
    unfolding potluck_main_def Let_def if_not_P [OF not_status] p by (simp add: default_options_simps)
qed

theorem command_line_roundtrip_witness:
  "potluck_main ''/m'' ''v1'' (command_line (\<lambda>f. f = ''pool'') (\<lambda>f. True) (example_config\<lparr>cfg_Token := ''-x=y'', cfg_Share := False\<rparr>))
     = StartAgent (example_config\<lparr>cfg_Token := ''-x=y'', cfg_Share := False, cfg_Version := ''v1''\<rparr>)"
  using command_line_roundtrip [of "example_config\<lparr>cfg_Token := ''-x=y'', cfg_Share := False\<rparr>" "''/m''" "''v1''"
      "\<lambda>f. f = ''pool''" "\<lambda>f. True"]
  by (simp add: example_config_def fits_int_def)

text \<open>
  The first argument that is not a flag ends the flags: whatever follows is ignored, without an
  error.  A boolean flag takes no argument of its own, so \<^verbatim>\<open>-share false -token secret\<close> starts a node
  that shares, and without a token.
\<close>

theorem operand_ends_flags:
  assumes "argv \<noteq> []" and "is_operand s" and "\<And>code. potluck_main d version argv \<noteq> ExitWith code"
  shows "potluck_main d version (argv @ s # ys) = potluck_main d version argv"
proof (cases "hd argv = ''status''")
  case True
  obtain o2 rest where p: "parse_flags (flag_table d) (tl argv) (default_options d) = Inr (o2, rest)"
    using assms(1,3) True unfolding potluck_main_def
    by (cases "parse_flags (flag_table d) (tl argv) (default_options d)") auto
  from parse_flags_operand [OF this assms(2), of ys] obtain rest'
    where "parse_flags (flag_table d) (tl argv @ s # ys) (default_options d) = Inr (o2, rest')" by blast
  with p True assms(1) show ?thesis unfolding potluck_main_def by simp
next
  case False
  obtain o2 rest where p: "parse_flags (flag_table d) argv (default_options d) = Inr (o2, rest)"
    using assms(3) False unfolding potluck_main_def
    by (cases "parse_flags (flag_table d) argv (default_options d)") auto
  from parse_flags_operand [OF this assms(2), of ys] obtain rest'
    where "parse_flags (flag_table d) (argv @ s # ys) (default_options d) = Inr (o2, rest')" by blast
  with p False assms(1) show ?thesis unfolding potluck_main_def by simp
qed

lemma main_share: "potluck_main d version [''-share''] = StartAgent (op_cfg (default_options d)\<lparr>cfg_Version := version\<rparr>)"
proof -
  have "parseOne (flag_table d) [''-share''] o1 = Parsed (cfg_var cfg_Share_update True o1) []" for o1
    using parseOne_flag(2) [of "''share''" "''-''" "flag_table d" "[]" o1]
    by (simp add: flag_step_def flag_lookup with_value_def ParseBool_def)
  then show ?thesis
    by (simp add: potluck_main_def parse_flags.simps parseOne_def [of _ "[]"] default_options_simps cfg_var_def)
qed

theorem operand_ends_flags_witness:
  "\<exists>cfg. potluck_main ''/m'' ''v1'' [''-share'', ''false'', ''-token'', ''secret''] = StartAgent cfg \<and>
     cfg_Share cfg \<and> cfg_Token cfg = []"
proof -
  have "is_operand ''false''" by (simp add: is_operand_def)
  with operand_ends_flags [of "[''-share'']" "''false''" "''/m''" "''v1''" "[''-token'', ''secret'']"]
  show ?thesis by (simp add: main_share default_options_simps)
qed

section \<open>Joining a pool\<close>

lemma NewAgent_config:
  assumes "NewAgent hostname env files parse lookPath config = (files', Some a)"
    and "\<And>buf. ie_rand env = Some buf \<Longrightarrow> buf \<noteq> []"
  shows "ag_cfg a = default_name hostname config" and "ag_id a \<noteq> []" and "Active (ag_gw a) = 0"
    and "mg_pipelines (ag_pipelines a) = Map.empty"
proof -
  have "hex_EncodeToString buf \<noteq> []" if "buf \<noteq> []" for buf
    using that hex_length [of buf] by (metis length_0_conv mult_is_0 zero_neq_numeral)
  then have nonempty: "k \<noteq> []" if "loadOrCreateID env files = (files1, Some k)" for files1 k
    using that assms(2)
    by (auto simp: loadOrCreateID_def stored_id_def Let_def split: option.splits if_splits)
  show "ag_cfg a = default_name hostname config" "ag_id a \<noteq> []" "Active (ag_gw a) = 0"
    "mg_pipelines (ag_pipelines a) = Map.empty"
    using assms(1) nonempty
    by (auto simp: NewAgent_def NewGateway_def NewManager_def Active_def Let_def split: prod.splits option.splits)
qed

lemma default_name_simps [simp]:
  "cfg_Port (default_name h c) = cfg_Port c" "cfg_Pool (default_name h c) = cfg_Pool c"
  "cfg_Share (default_name h c) = cfg_Share c" "cfg_RPCPort (default_name h c) = cfg_RPCPort c"
  "cfg_OllamaURL (default_name h c) = cfg_OllamaURL c"
  by (simp_all add: default_name_def split: option.split)

lemma parse_announced:
  "i \<noteq> [] \<Longrightarrow> parseEntry \<lparr>se_Text = txt_records i name pool version, se_AddrIPv4 = ip # ips, se_AddrIPv6 = v6, se_Port = port\<rparr>
     = (\<lparr>hint_ID = i, hint_Name = name, hint_Pool = pool, hint_Addr = ip @ '':'' @ Itoa port\<rparr>, True)"
  by (simp add: parseEntry_def txt_records_def read_record_def zero_hint_def)

text \<open>
  C37.  A node that has started is in the pool: it registers records from which every other node of the same
  pool obtains its identifier and the address under which the next poll fetches the state it has filed
  about itself, so that the peer's registry then holds it with its name, pool, consent and models.
\<close>

theorem announced_node_joins:
  assumes "NewAgent hostname env files parse lookPath config = (files', Some a)"
    and "\<And>buf. ie_rand env = Some buf \<Longrightarrow> buf \<noteq> []"
    and "Run_start register t0 mc get [] a = Inr a'"
    and "0 \<le> mc_NumCPU mc" and "mc_NumCPU mc < 2 ^ 63" and "0 \<le> cfg_RPCPort config" and "cfg_RPCPort config < 2 ^ 63"
    and "cfg_Pool (ag_cfg b) = cfg_Pool config" and "ag_id b \<noteq> ag_id a" and "reg_inv (ag_reg b)"
    and "\<And>t. pe_pt penv (tt t) = Some t"
    and "pe_get penv (ag_id a) (''http://'' @ ip @ '':'' @ Itoa (cfg_Port config) @ ''/api/state'')
      = GetStatus (rp_Status (handleState tt a')) (rp_Body (handleState tt a'))"
  shows "\<exists>records h. register (instanceName (cfg_Name (ag_cfg a)) (ag_id a)) Service mdns_domain (cfg_Port config) records = None \<and>
    browse_loop (ag_id b) (cfg_Pool (ag_cfg b)) (Suc sends)
      [\<lparr>se_Text = records, se_AddrIPv4 = ip # ips, se_AddrIPv6 = v6, se_Port = cfg_Port config\<rparr>] = [h] \<and>
    (\<exists>n. Get (ag_reg (poll_peer penv (hint_ID h, hint_Addr h) (collectHint h b))) (ag_id a) = Some n \<and>
       \<not> ns_Self n \<and> ns_Name n = cfg_Name (ag_cfg a) \<and> ns_Pool n = cfg_Pool config \<and> ns_Addr n = hint_Addr h \<and>
       ns_Sharing n = cfg_Share config \<and> ns_Models n = os_Models (ProbeOllama get (cfg_OllamaURL config)))"
proof -
  let ?cfg = "ag_cfg a" and ?addr = "ip @ '':'' @ Itoa (cfg_Port config)"
  let ?records = "txt_records (ag_id a) (cfg_Name ?cfg) (cfg_Pool ?cfg) (cfg_Version ?cfg)"
  let ?h = "\<lparr>hint_ID = ag_id a, hint_Name = cfg_Name ?cfg, hint_Pool = cfg_Pool ?cfg, hint_Addr = ?addr\<rparr>"
  let ?n = "(self_state mc get [] a)\<lparr>ns_UpdatedAt := t0\<rparr>"
  note new = NewAgent_config [OF assms(1,2)]
  have a': "a' = refreshSelf t0 mc get [] a"
    and reg: "register (instanceName (cfg_Name ?cfg) (ag_id a)) Service mdns_domain (cfg_Port config) ?records = None"
    using assms(3) new(1) by (auto simp: Run_start_def Advertise_def refreshSelf_def Let_def split: option.splits)
  have "node_ok (self_state mc get [] a)"
    using assms(4-7) new by (intro self_state_ok) (simp_all add: Active_def iter_order_def states_named_def)
  then have "node_ok ?n" by (simp add: node_ok_def)
  moreover have "Get (ag_reg a') (ag_id a') = Some ?n"
    by (simp add: a' refreshSelf_def Get_def Upsert_def self_state_def Let_def)
  ultimately have "fetchState (pe_pt penv) (pe_get penv (ag_id a)) ?addr = Some ?n"
    using assms(12) by (intro fetchState_json [where tt = tt] assms(11)) (simp_all add: handleState_Some json_reply_def)
  then have "polled_state penv (ag_id a, ?addr) = Some (?n\<lparr>ns_Self := False, ns_Addr := ?addr\<rparr>)"
    by (simp add: polled_state_def)
  moreover have "browse_loop (ag_id b) (cfg_Pool (ag_cfg b)) (Suc sends)
      [\<lparr>se_Text = ?records, se_AddrIPv4 = ip # ips, se_AddrIPv6 = v6, se_Port = cfg_Port config\<rparr>] = [?h]"
    using assms(8,9) new(1) parse_announced [OF new(2), of _ _ _ ip ips v6] by simp
  moreover note reg
  ultimately show ?thesis
    using assms(9,10) new(1) reg.get_upsert [OF assms(10)]
    by (intro exI [of _ ?records] exI [of _ ?h]) (simp add: poll_peer_def collectHint_def self_state_def Let_def)
qed

theorem announced_node_joins_witness:
  "\<exists>h. Get (ag_reg (poll_peer \<lparr>pe_now = (\<lambda>k. 3),
       pe_get = (\<lambda>k u. let a' = refreshSelf 1 example_machine example_ollama [] example_agent
         in GetStatus (rp_Status (handleState Itoa a')) (rp_Body (handleState Itoa a'))), pe_pt = example_pt\<rparr>
     (hint_ID h, hint_Addr h) (collectHint h (example_agent\<lparr>ag_id := ''other''\<rparr>)))) ''0102030405060708'' \<noteq> None"
proof -
  obtain files where new: "NewAgent None (example_id_env [1, 2, 3, 4, 5, 6, 7, 8]) Map.empty
      (\<lambda>u. Some (gw_ollama example_gateway)) (\<lambda>b. None) example_config = (files, Some example_agent)"
    using example_agent_new by blast
  let ?a = "refreshSelf 1 example_machine example_ollama [] example_agent" and ?b = "example_agent\<lparr>ag_id := ''other''\<rparr>"
  let ?env = "\<lparr>pe_now = (\<lambda>k. 3), pe_get = (\<lambda>k u. let a' = ?a in GetStatus (rp_Status (handleState Itoa a')) (rp_Body (handleState Itoa a'))),
    pe_pt = example_pt\<rparr>"
  have run: "Run_start (\<lambda>i s d p r. None :: unit option) 1 example_machine example_ollama [] example_agent = Inr ?a"
    by (simp add: Run_start_def Advertise_def Let_def)
  have rand: "ie_rand (example_id_env [1, 2, 3, 4, 5, 6, 7, 8]) = Some buf \<Longrightarrow> buf \<noteq> []" for buf by (auto simp: example_id_env_def)
  have cpus: "0 \<le> mc_NumCPU example_machine" "mc_NumCPU example_machine < 2 ^ 63" by (simp_all add: example_machine_def)
  have port: "0 \<le> cfg_RPCPort example_config" "cfg_RPCPort example_config < 2 ^ 63" by (simp_all add: example_config_def)
  have peer: "cfg_Pool (ag_cfg ?b) = cfg_Pool example_config" "ag_id ?b \<noteq> ag_id example_agent" "reg_inv (ag_reg ?b)"
    by (simp_all add: example_agent_def New_inv)
  have instants: "pe_pt ?env (Itoa t) = Some t" for t by (simp add: example_pt_Itoa)
  have answer: "pe_get ?env (ag_id example_agent) (''http://'' @ ''10.0.0.2'' @ '':'' @ Itoa (cfg_Port example_config) @ ''/api/state'')
      = GetStatus (rp_Status (handleState Itoa ?a)) (rp_Body (handleState Itoa ?a))" by (simp add: Let_def)
  have "ag_id example_agent = ''0102030405060708''" by (simp add: example_agent_def)
  then show ?thesis
    using announced_node_joins [OF new rand run cpus port peer instants answer, of 0 "[]" "[]"] by auto
qed

end
