(* ===== verification/TwoNodes.thy ===== *)
theory TwoNodes
  imports Routes
begin

text \<open>
  Two agents in one request: what a client sends to one agent, from the multiplexer of that agent through
  the network and the multiplexer of a peer to the peer's Ollama, and back.  The network is
  ideal: a request that is sent arrives, and the reply arrives as one piece (\<open>wire\<close>).
\<close>

section \<open>The network\<close>

definition wire :: "reply \<Rightarrow> upstream" where
  "wire rep = Answer (rp_Status rep) (map (\<lambda>(k, v). (k, [v])) (rp_Headers rep)) [(rp_Body rep, True, True)]"

lemma copyHeaders_wire: "copyHeaders [] (map (\<lambda>(k, v). (k, [v])) hs) = hs"
  by (induction hs) (auto simp: copyHeaders_def)

lemma stream_wire: "(case wire rep of Unreachable err \<Rightarrow> f err | Answer code hdrs reads \<Rightarrow> stream_answer code hdrs reads) = rep"
  by (cases rep) (simp add: wire_def stream_answer_def copyHeaders_wire)

section \<open>Paths\<close>

lemma inference_clean:
  assumes "path \<in> set inference_paths"
  shows "cleanPath path = path" "cleanPath (''/proxy/ollama'' @ path) = ''/proxy/ollama'' @ path" "HasPrefix path ''/''"
proof -
  have "list_all (\<lambda>p. cleanPath p = p \<and> cleanPath (''/proxy/ollama'' @ p) = ''/proxy/ollama'' @ p \<and> HasPrefix p ''/'') inference_paths"
    by code_simp
  with assms show "cleanPath path = path" "cleanPath (''/proxy/ollama'' @ path) = ''/proxy/ollama'' @ path" "HasPrefix path ''/''"
    by (auto simp: list_all_iff)
qed

lemma dispatch_inference:
  assumes "path \<in> set inference_paths"
  shows "dispatch agent_routes ''POST'' path = Handle Inference"
proof -
  have "path \<notin> {''/proxy/ollama'', ''/proxy/llama''}" using assms by (auto simp: inference_paths_def)
  from dispatch_spec [OF inference_clean(1) [OF assms] this] assms show ?thesis by (simp add: post_endpoint_def)
qed

lemma dispatch_proxied:
  assumes "path \<in> set inference_paths"
  shows "dispatch agent_routes ''POST'' (''/proxy/ollama'' @ path) = Handle OllamaProxy"
proof -
  let ?p = "''/proxy/ollama'' @ path"
  have ne: "?p \<notin> {''/proxy/ollama'', ''/proxy/llama''}" "?p \<notin> set inference_paths"
    using assms by (auto simp: inference_paths_def)
  have "HasPrefix ?p ''/proxy/ollama/''" using inference_clean(3) [OF assms] by (auto simp: HasPrefix_iff)
  with ne have "post_endpoint ?p = Some OllamaProxy" by (simp add: post_endpoint_def)
  with dispatch_spec [OF inference_clean(2) [OF assms] ne(1)] show ?thesis by simp
qed

section \<open>A request served by a peer\<close>

lemma serve_proxied:
  assumes "path \<in> set inference_paths" and "header_get hs TokenHeader = gw_token (ag_gw b)" and "url_Path (gw_ollama (ag_gw b)) = []"
  shows "serve env \<lparr>hr_Method = ''POST'', hr_Path = ''/proxy/ollama'' @ path, hr_Headers = hs, hr_Body = Some body\<rparr> b =
    (b\<lparr>ag_gw := end_job (begin_job (ag_gw b))\<rparr>, None,
     ge_proxy (sn_gw env) (URL_String (gw_ollama (ag_gw b)) @ path)
       \<lparr>hr_Method = ''POST'', hr_Path = path, hr_Headers = hs, hr_Body = Some body\<rparr>)"
proof -
  let ?r = "\<lparr>hr_Method = ''POST'', hr_Path = path, hr_Headers = hs, hr_Body = Some body\<rparr>"
  have "reverse_proxy (agent_gw_env env b) (gw_ollama (ag_gw b)) ?r =
      ge_proxy (sn_gw env) (URL_String (gw_ollama (ag_gw b)) @ path) ?r"
    using reverse_proxy_root [of ?r "gw_ollama (ag_gw b)" "agent_gw_env env b"] inference_clean(3) [OF assms(1)] assms(3)
    by (simp add: agent_gw_env_def)
  moreover have "TrimPrefix (''/proxy/ollama'' @ path) ''/proxy/ollama'' = path" by (rule TrimPrefix_append)
  ultimately show ?thesis
    using dispatch_proxied [OF assms(1)] assms(2)
    by (simp add: serve_def handle_def handleProxy_def token_ok_def Let_def)
qed

text \<open>
  C17.  A pooled request: a client posts to one agent, the scheduler chooses a peer, and the client gets
  back exactly what the peer's Ollama answers to that path and that body.  The peer counts the
  request as served; the first agent does not, but records it under the peer's name.
\<close>

theorem pooled_request:
  assumes "genv = agent_gw_env env a" and "hr_Method r = ''POST''" and "hr_Path r \<in> set inference_paths"
    and "hr_Body r = Some body" and "extractModel (take maxBodyBytes body) = model" and "model \<noteq> []"
    and "\<And>p. HasPrefix (hr_Path r) ''/v1/'' \<Longrightarrow> PlanSplit (ge_platform genv) (ge_now genv) (ge_nodes genv) model \<noteq> Inr (Some p)"
    and "Pick (ge_now genv) (ge_order genv) (ge_nodes genv) model = Inr n" and "ns_ID n \<noteq> ag_id a"
    and "ge_bad_url genv = (\<lambda>u. None)"
    and "\<And>p hs bd. ge_do genv \<lparr>ur_URL = ''http://'' @ ns_Addr n @ p, ur_Headers = hs, ur_Body = bd\<rparr>
      = wire (snd (snd (serve env' \<lparr>hr_Method = ''POST'', hr_Path = p, hr_Headers = hs, hr_Body = Some bd\<rparr> b)))"
    and "gw_token (ag_gw b) = gw_token (ag_gw a)" and "url_Path (gw_ollama (ag_gw b)) = []"
  shows "\<exists>a' b' rep sent.
    hr_Body sent = Some (take maxBodyBytes body) \<and> hr_Path sent = hr_Path r \<and>
    serve env r a = (a', None, rep) \<and>
    serve env' (sent\<lparr>hr_Path := ''/proxy/ollama'' @ hr_Path r\<rparr>) b = (b', None, rep) \<and>
    rep = ge_proxy (sn_gw env') (URL_String (gw_ollama (ag_gw b)) @ hr_Path r) sent \<and>
    TotalServed (ag_gw b') = TotalServed (ag_gw b) + 1 \<and> Active (ag_gw b') = Active (ag_gw b) \<and>
    TotalServed (ag_gw a') = TotalServed (ag_gw a) \<and> Active (ag_gw a') = Active (ag_gw a) \<and>
    (\<exists>e. hd (History (ag_gw a')) = e \<and> rr_Node e = ns_Name n \<and> rr_Model e = model \<and> rr_Status e = rp_Status rep)"
proof -
  let ?hs = "json_type # token_headers (ag_gw a)" and ?g = "ag_gw a"
  let ?sent = "\<lparr>hr_Method = ''POST'', hr_Path = hr_Path r, hr_Headers = ?hs, hr_Body = Some (take maxBodyBytes body)\<rparr>"
  let ?rep = "ge_proxy (sn_gw env') (URL_String (gw_ollama (ag_gw b)) @ hr_Path r) ?sent"
  let ?b' = "b\<lparr>ag_gw := end_job (begin_job (ag_gw b))\<rparr>"
  have peer: "serve env' (?sent\<lparr>hr_Path := ''/proxy/ollama'' @ hr_Path r\<rparr>) b = (?b', None, ?rep)"
    using serve_proxied [OF assms(3), of ?hs b] assms(12,13) by simp
  have self: "ge_self genv = ag_id a" by (simp add: assms(1) agent_gw_env_def SelfID_def)
  have "forward genv r n (take maxBodyBytes body) ?g = (?g, ?rep)"
    using assms(9-11) peer by (simp add: forward_def forward_target_def self stream_wire)
  moreover have "(if HasPrefix (hr_Path r) ''/v1/'' then (case PlanSplit (ge_platform genv) (ge_now genv) (ge_nodes genv) model of
      Inr p \<Rightarrow> p | Inl planErr \<Rightarrow> None) else None) = None"
    using assms(7) by (cases "PlanSplit (ge_platform genv) (ge_now genv) (ge_nodes genv) model") (auto intro: option.exhaust)
  ultimately have inf: "handleInference genv runner r ?g a = (finish genv (hr_Path r) model (ns_Name n) (rp_Status ?rep) ?g, a, ?rep)" for runner
    using assms(4-6,8) by (cases "HasPrefix (hr_Path r) ''/v1/''") (simp_all add: handleInference_def Let_def)
  let ?a' = "a\<lparr>ag_gw := finish genv (hr_Path r) model (ns_Name n) (rp_Status ?rep) ?g\<rparr>"
  have "serve env r a = (?a', None, ?rep)"
    using dispatch_inference [OF assms(3)] assms(2) inf by (simp add: serve_def handle_def Let_def flip: assms(1))
  with peer show ?thesis
    by (intro exI [of _ ?a'] exI [of _ ?b'] exI [of _ ?rep] exI [of _ ?sent])
      (simp add: TotalServed_def Active_def History_def finish_def record_request_def begin_job_def end_job_def keep_def Let_def)
qed

definition far_serve :: serve_env where
  "far_serve = example_serve\<lparr>sn_nodes_order := [''peer''], sn_gw := example_gw_env\<lparr>ge_now := 4,
     ge_do := (\<lambda>u. wire (snd (snd (serve example_serve \<lparr>hr_Method = ''POST'',
       hr_Path = drop (length (''http://'' @ example_addr)) (ur_URL u), hr_Headers = ur_Headers u, hr_Body = Some (ur_Body u)\<rparr>
       example_agent))))\<rparr>\<rparr>"

theorem pooled_request_witness:
  "\<exists>a' rep. serve far_serve example_chat polled_agent = (a', None, rep) \<and> rp_Status rep = 200 \<and>
     rp_Body rep = ''http://127.0.0.1:11434/api/chat''"
proof -
  let ?n = "example_peer\<lparr>ns_Self := False, ns_Addr := example_addr, ns_UpdatedAt := 3\<rparr>"
  let ?env = "agent_gw_env far_serve polled_agent"
  have env: "ge_nodes ?env = [?n]" "ge_now ?env = 4"
    using polled_nodes by (simp_all add: agent_gw_env_def far_serve_def example_serve_def example_gw_env_def example_platform_def)
  have ready: "eligible 4 ?n" "HasModel ?n ''m''"
    by (simp_all add: eligible_def StaleAfter_def HasModel_def model_matches_refl example_peer_def example_defs example_model_def)
  then have pick: "Pick (ge_now ?env) (ge_order ?env) (ge_nodes ?env) ''m'' = Inr ?n"
    unfolding env by (simp add: Pick_def candidates_def SliceStable_def insertionSort_def)
  have chat: "hr_Method example_chat = ''POST''" "hr_Path example_chat \<in> set inference_paths"
    "\<not> HasPrefix (hr_Path example_chat) ''/v1/''"
    by (simp_all add: example_chat_def inference_paths_def HasPrefix_def)
  have far: "ns_ID ?n \<noteq> ag_id polled_agent" "ge_bad_url ?env = (\<lambda>u. None)"
    by (simp_all add: example_peer_def example_defs polled_agent_def example_agent_def agent_gw_env_def far_serve_def example_gw_env_def)
  have net: "ge_do ?env \<lparr>ur_URL = ''http://'' @ ns_Addr ?n @ p, ur_Headers = hs, ur_Body = bd\<rparr>
      = wire (snd (snd (serve example_serve \<lparr>hr_Method = ''POST'', hr_Path = p, hr_Headers = hs, hr_Body = Some bd\<rparr> example_agent)))"
    for p hs bd by (simp add: agent_gw_env_def far_serve_def)
  have peer: "gw_token (ag_gw example_agent) = gw_token (ag_gw polled_agent)" "url_Path (gw_ollama (ag_gw example_agent)) = []"
    by (simp_all add: polled_agent_def example_agent_def example_gateway_def)
  have proxy: "ge_proxy (sn_gw example_serve) u r = \<lparr>rp_Status = 200, rp_Headers = [], rp_Body = u\<rparr>" for u r
    by (simp add: example_serve_def example_gw_env_def)
  have url: "URL_String (gw_ollama (ag_gw example_agent)) = ''http://127.0.0.1:11434''"
    by (simp add: URL_String_def example_agent_def example_gateway_def)
  have path: "hr_Path example_chat = ''/api/chat''" by (simp add: example_chat_def)
  show ?thesis
    using pooled_request [OF refl chat(1,2) example_chat_model _ _ pick far net peer] chat(3)
    unfolding proxy url path by fastforce
qed


section \<open>A request served by a split pipeline\<close>

lemma split_clean:
  assumes "path \<in> set inference_paths"
  shows "cleanPath (''/proxy/llama'' @ path) = ''/proxy/llama'' @ path"
proof -
  have "list_all (\<lambda>p. cleanPath (''/proxy/llama'' @ p) = ''/proxy/llama'' @ p) inference_paths" by code_simp
  with assms show ?thesis by (auto simp: list_all_iff)
qed

lemma dispatch_llama:
  assumes "path \<in> set inference_paths"
  shows "dispatch agent_routes ''POST'' (''/proxy/llama'' @ path) = Handle LlamaProxy"
proof -
  let ?p = "''/proxy/llama'' @ path"
  have ne: "?p \<notin> {''/proxy/ollama'', ''/proxy/llama''}" "?p \<notin> set inference_paths" "\<not> HasPrefix ?p ''/proxy/ollama/''"
    using assms by (auto simp: inference_paths_def HasPrefix_def)
  have "HasPrefix ?p ''/proxy/llama/''" using inference_clean(3) [OF assms] by (auto simp: HasPrefix_iff)
  with ne have "post_endpoint ?p = Some LlamaProxy" by (simp add: post_endpoint_def)
  with dispatch_spec [OF split_clean [OF assms] ne(1)] show ?thesis by simp
qed

lemma dispatch_ensure: "dispatch agent_routes ''POST'' ''/api/pipeline/ensure'' = Handle PipelineEnsure"
proof -
  have "cleanPath ''/api/pipeline/ensure'' = ''/api/pipeline/ensure''" by code_simp
  from dispatch_spec [OF this] show ?thesis by (simp add: post_endpoint_def inference_paths_def HasPrefix_def)
qed

definition ensure_body :: "string \<Rightarrow> Plan \<Rightarrow> string" where
  "ensure_body model p = encode_EnsureRequest \<lparr>er_Model = model, er_Workers = map ns_Addr (plan_Workers p)\<rparr>"

definition ensure_call :: "Agent \<Rightarrow> string \<Rightarrow> Plan \<Rightarrow> http_request" where
  "ensure_call a model p =
     \<lparr>hr_Method = ''POST'', hr_Path = ''/api/pipeline/ensure'', hr_Headers = json_type # token_headers (ag_gw a),
      hr_Body = Some (ensure_body model p)\<rparr>"

definition pipeline_call :: "Agent \<Rightarrow> string \<Rightarrow> string \<Rightarrow> string \<Rightarrow> http_request" where
  "pipeline_call a model path body =
     \<lparr>hr_Method = ''POST'', hr_Path = path, hr_Headers = json_type # (ModelHeader, model) # token_headers (ag_gw a),
      hr_Body = Some body\<rparr>"

lemma handleLlamaProxy_runner:
  "handleLlamaProxy genv (Some (agent_runner env now)) = handleLlamaProxy genv (Some (agent_runner env' now))"
  by (intro ext) (simp add: handleLlamaProxy_def agent_runner_def Let_def split: option.split)

text \<open>The two calls at the driver, one after the other.\<close>

lemma driver_serves:
  assumes "serve env1 (ensure_call a model p) b = (b1, killed, rep1)" and "rp_Status rep1 = 200"
    and "length (ensure_body model p) \<le> 2 ^ 20" and "\<not> loading (ag_pipelines b) model"
    and "gw_token (ag_gw a) = cfg_Token (ag_cfg b)" and "gw_token (ag_gw b) = cfg_Token (ag_cfg b)"
    and "path \<in> set inference_paths"
  shows "\<exists>port b2. PipelinePort model b1 = Some port \<and>
    serve env2 (pipeline_call a model (''/proxy/llama'' @ path) body) b1 =
      (b2, None, ge_proxy (sn_gw env2) (local_url port @ path) (pipeline_call a model path body))"
proof -
  let ?r = "pipeline_call a model (''/proxy/llama'' @ path) body"
  have E: "handlePipelineEnsure (sn_drive env1) (ensure_call a model p) b = (b1, rep1)"
    using assms(1) dispatch_ensure by (auto simp: serve_def handle_def ensure_call_def Let_def split: prod.splits)
  have r: "?r = \<lparr>hr_Method = ''POST'', hr_Path = ''/proxy/llama'' @ path,
      hr_Headers = ur_Headers (split_request (ag_gw a) [] model body), hr_Body = Some body\<rparr>"
    by (simp add: pipeline_call_def split_request_def)
  obtain port where port: "PipelinePort model b1 = Some port"
    and L: "handleLlamaProxy (agent_gw_env env2 b1) (Some (agent_runner (sn_drive env2) (sn_now env2))) ?r (ag_gw b1) b1 =
      (end_job (begin_job (ag_gw b1)), TouchPipeline (sn_now env2) model b1,
       ge_proxy (agent_gw_env env2 b1) (local_url port @ path) (?r\<lparr>hr_Path := path\<rparr>))"
    using remote_pipeline_serves [OF assms(5,6) E [unfolded ensure_call_def ensure_body_def] assms(2) assms(3) [unfolded ensure_body_def]
        assms(4) inference_clean(3) [OF assms(7)] r]
    unfolding handleLlamaProxy_runner [of _ "sn_drive env2" _ "sn_drive env1"] by blast
  have "hr_Method ?r = ''POST''" "hr_Path ?r = ''/proxy/llama'' @ path" by (simp_all add: pipeline_call_def)
  then have "serve env2 ?r b1 = (TouchPipeline (sn_now env2) model b1\<lparr>ag_gw := end_job (begin_job (ag_gw b1))\<rparr>, None,
      ge_proxy (sn_gw env2) (local_url port @ path) (pipeline_call a model path body))"
    using dispatch_llama [OF assms(7)] L
    by (simp add: serve_def handle_def agent_gw_env_def pipeline_call_def Let_def)
  with port show ?thesis by blast
qed

text \<open>
  C7.  A split request: a client posts to one agent, the planner chooses a driver, and the driver is asked
  first to bring the pipeline up on the chosen workers and then to serve the request.  The client gets an
  error when the driver cannot bring it up, and otherwise exactly what the \<^verbatim>\<open>llama-server\<close> on the port of
  the ready pipeline answers to that path and that body; either way the request is recorded once, under
  the driver and its workers.
\<close>

theorem split_request_served:
  assumes "genv = agent_gw_env env a" and "hr_Method r = ''POST''" and "hr_Path r \<in> set inference_paths"
    and "HasPrefix (hr_Path r) ''/v1/''"
    and "hr_Body r = Some body" and "extractModel (take maxBodyBytes body) = model" and "model \<noteq> []"
    and "PlanSplit (ge_platform genv) (ge_now genv) (ge_nodes genv) model = Inr (Some p)"
    and "ns_ID (plan_Driver p) \<noteq> ag_id a" and "ge_bad_url genv = (\<lambda>u. None)"
    and "length (ensure_body model p) \<le> 2 ^ 20" and "\<not> loading (ag_pipelines b) model"
    and "gw_token (ag_gw a) = cfg_Token (ag_cfg b)" and "gw_token (ag_gw b) = cfg_Token (ag_cfg b)"
    and "serve env1 (ensure_call a model p) b = (b1, killed, rep1)"
    and "\<And>hs bd. ge_do genv \<lparr>ur_URL = ''http://'' @ ns_Addr (plan_Driver p) @ ''/api/pipeline/ensure'', ur_Headers = hs, ur_Body = bd\<rparr>
      = wire (snd (snd (serve env1 \<lparr>hr_Method = ''POST'', hr_Path = ''/api/pipeline/ensure'', hr_Headers = hs, hr_Body = Some bd\<rparr> b)))"
    and "\<And>q hs bd. ge_do genv \<lparr>ur_URL = ''http://'' @ ns_Addr (plan_Driver p) @ ''/proxy/llama'' @ q, ur_Headers = hs, ur_Body = bd\<rparr>
      = wire (snd (snd (serve env2 \<lparr>hr_Method = ''POST'', hr_Path = ''/proxy/llama'' @ q, hr_Headers = hs, hr_Body = Some bd\<rparr> b1)))"
  shows "\<exists>a' rep. serve env r a = (a', None, rep) \<and>
    (\<exists>e. hd (History (ag_gw a')) = e \<and> rr_Node e = split_display p \<and> rr_Status e = rp_Status rep) \<and>
    (if rp_Status rep1 = 200
     then \<exists>port. PipelinePort model b1 = Some port \<and>
       rep = ge_proxy (sn_gw env2) (local_url port @ hr_Path r) (pipeline_call a model (hr_Path r) (take maxBodyBytes body))
     else rp_Status rep = 502)"
proof -
  let ?body = "take maxBodyBytes body" and ?g = "ag_gw a"
  have self: "ge_self genv = ag_id a" by (simp add: assms(1) agent_gw_env_def SelfID_def)
  have ensure: "ge_do genv \<lparr>ur_URL = ''http://'' @ ns_Addr (plan_Driver p) @ ''/api/pipeline/ensure'',
      ur_Headers = json_type # token_headers ?g, ur_Body = ensure_body model p\<rparr> = wire rep1"
    using assms(15,16) by (simp add: ensure_call_def)
  define rep where "rep runner = snd (snd (forwardSplit genv runner r p model ?body ?g a))" for runner :: "Agent split_runner option"
  have split: "forwardSplit genv runner r p model ?body ?g a = (a, split_display p, rep runner)" for runner
    using assms(9) by (simp add: rep_def forwardSplit_def self Let_def split: option.split)
  have rep: "if rp_Status rep1 = 200
     then \<exists>port. PipelinePort model b1 = Some port \<and>
       rep runner = ge_proxy (sn_gw env2) (local_url port @ hr_Path r) (pipeline_call a model (hr_Path r) ?body)
     else rp_Status (rep runner) = 502" for runner
  proof (cases "rp_Status rep1 = 200")
    case True
    have "ensureRemote genv ?g (ns_Addr (plan_Driver p)) model (map ns_Addr (plan_Workers p)) = None"
      using ensure True assms(10) by (simp add: ensureRemote_def wire_def ensure_body_def Let_def)
    then have "rep runner = send_split genv ?g (''http://'' @ ns_Addr (plan_Driver p) @ ''/proxy/llama'' @ hr_Path r) model ?body"
      using assms(9) by (simp add: rep_def forwardSplit_def self Let_def)
    also have "\<dots> = snd (snd (serve env2 (pipeline_call a model (''/proxy/llama'' @ hr_Path r) ?body) b1))"
      using assms(10,17) by (simp add: send_split_def split_request_def stream_wire pipeline_call_def)
    finally show ?thesis
      using driver_serves [OF assms(15) True assms(11-14,3), of env2 ?body] True by auto
  next
    case False
    then have "\<exists>err. ensureRemote genv ?g (ns_Addr (plan_Driver p)) model (map ns_Addr (plan_Workers p)) = Some err"
      using ensure assms(10) by (simp add: ensureRemote_def wire_def ensure_body_def Let_def)
    then show ?thesis
      using False assms(9) by (auto simp: rep_def forwardSplit_def self httpError_def Let_def)
  qed
  let ?runner = "Some (agent_runner (sn_drive env) (sn_now env))"
  let ?a' = "a\<lparr>ag_gw := finish genv (hr_Path r) model (split_display p) (rp_Status (rep ?runner)) ?g\<rparr>"
  have "handleInference genv ?runner r ?g a =
      (finish genv (hr_Path r) model (split_display p) (rp_Status (rep ?runner)) ?g, a, rep ?runner)"
    using assms(4-8) split [of ?runner] by (simp add: handleInference_def Let_def)
  then have "serve env r a = (?a', None, rep ?runner)"
    using dispatch_inference [OF assms(3)] assms(2) by (simp add: serve_def handle_def Let_def flip: assms(1))
  with rep [of ?runner] show ?thesis
    by (intro exI [of _ ?a'] exI [of _ "rep ?runner"])
      (simp add: History_def finish_def record_request_def keep_def Let_def)
qed

text \<open>A pool of three nodes that one agent knows, at the driver of which the example agent runs.\<close>

definition far_node :: "NodeState \<Rightarrow> NodeState" where
  "far_node n = n\<lparr>ns_Addr := ''10.0.0.2:11444'', ns_UpdatedAt := 100\<rparr>"

definition far_plan :: Plan where
  "far_plan = example_plan\<lparr>plan_Driver := far_node (plan_Driver example_plan),
     plan_Workers := map far_node (plan_Workers example_plan)\<rparr>"

definition planning_agent :: Agent where
  "planning_agent = example_agent\<lparr>ag_id := ''me'', ag_reg := fold (Upsert 100) (map far_node example_split_pool) New\<rparr>"

definition split_chat :: http_request where
  "split_chat = \<lparr>hr_Method = ''POST'', hr_Path = ''/v1/chat/completions'', hr_Headers = [],
     hr_Body = Some (encode_json (JObj [(''model'', JStr ''big'')]))\<rparr>"

definition split_serve :: serve_env where
  "split_serve = example_serve\<lparr>sn_nodes_order := [''driver'', ''w1'', ''w2''], sn_gw := example_gw_env\<lparr>
     ge_do := (\<lambda>u. let url = drop (length ''http://10.0.0.2:11444'') (ur_URL u);
         b = (if url = ''/api/pipeline/ensure'' then driving_agent
              else fst (serve example_serve (ensure_call planning_agent ''big'' far_plan) driving_agent))
       in wire (snd (snd (serve example_serve \<lparr>hr_Method = ''POST'', hr_Path = url, hr_Headers = ur_Headers u,
            hr_Body = Some (ur_Body u)\<rparr> b))))\<rparr>\<rparr>"

lemma far_node_simps [simp]:
  "ns_ID (far_node n) = ns_ID n" "ns_Name (far_node n) = ns_Name n" "ns_Addr (far_node n) = ''10.0.0.2:11444''"
  "ns_Resources (far_node n) = ns_Resources n" "ns_Models (far_node n) = ns_Models n" "ns_Split (far_node n) = ns_Split n"
  "ns_Self (far_node n) = ns_Self n" "(far_node n)\<lparr>ns_UpdatedAt := 100\<rparr> = far_node n"
  "eligible 100 (far_node n) = (ns_Sharing n \<and> ns_OllamaOK n)"
  by (simp_all add: far_node_def eligible_def StaleAfter_def)

lemma split_node_flags [simp]:
  "\<not> ns_Self (split_node name free sz w d)" "ns_Sharing (split_node name free sz w d)" "ns_OllamaOK (split_node name free sz w d)"
  by (simp_all add: split_node_def example_defs)

lemma far_pool: "Nodes insertionSort [''driver'', ''w1'', ''w2''] planning_agent = map far_node example_split_pool"
  by (simp add: Nodes_def Snapshot_def planning_agent_def example_split_pool_def Upsert_def New_def map_values_def
      List.map_filter_simps insertionSort_def snapshot_less_def)

lemma far_PlanSplit: "PlanSplit example_platform 100 (map far_node example_split_pool) ''big'' = Inr (Some far_plan)"
  by (simp add: plan_eval example_split_pool_def example_plan_def far_plan_def)

lemma far_ensure:
  "length (ensure_body ''big'' far_plan) \<le> 2 ^ 20"
  "\<exists>b1. serve example_serve (ensure_call planning_agent ''big'' far_plan) driving_agent = (b1, None, port_reply 11500)"
proof -
  let ?rq = "\<lparr>er_Model = ''big'', er_Workers = replicate (Suc 1) ''10.0.0.2:11444''\<rparr>"
  have body: "ensure_body ''big'' far_plan = encode_EnsureRequest ?rq"
    by (simp add: ensure_body_def far_plan_def example_plan_def)
  show len: "length (ensure_body ''big'' far_plan) \<le> 2 ^ 20"
    unfolding body
    by (simp add: encode_EnsureRequest_def json_object_def json_field_def encode_string_def encode_strings_def encode_char_def)
  let ?r = "ensure_call planning_agent ''big'' far_plan"
  have "take (2 ^ 20) (encode_EnsureRequest ?rq) = encode_EnsureRequest ?rq" using len unfolding body by simp
  then have "Option.bind (map_option (take (2 ^ 20)) (hr_Body ?r)) decode_EnsureRequest = Some ?rq"
    by (simp only: ensure_call_def body http_request.simps option.map Option.bind.bind_lunit decode_encode_EnsureRequest)
  moreover have "agent_token_ok driving_agent ?r"
    by (simp add: agent_token_ok_def token_ok_def driving_agent_def example_agent_def example_config_def)
  moreover obtain b1 where "EnsureLocal example_drive ''big'' (replicate (Suc 1) ''10.0.0.2:11444'') driving_agent = (b1, Inr 11500)"
    using example_EnsureLocal by blast
  ultimately have "handlePipelineEnsure example_drive ?r driving_agent = (b1, port_reply 11500)"
    by (simp add: handlePipelineEnsure_def Let_def del: replicate_Suc)
  then show "\<exists>b1. serve example_serve ?r driving_agent = (b1, None, port_reply 11500)"
    using dispatch_ensure by (simp add: serve_def handle_def ensure_call_def example_serve_def Let_def)
qed

theorem split_request_served_witness:
  "\<exists>a' rep port. serve split_serve split_chat planning_agent = (a', None, rep) \<and> rp_Status rep = 200 \<and>
     rp_Body rep = local_url port @ ''/v1/chat/completions''"
proof -
  let ?env = "agent_gw_env split_serve planning_agent" and ?j = "JObj [(''model'', JStr ''big'')]"
  obtain b1 where b1: "serve example_serve (ensure_call planning_agent ''big'' far_plan) driving_agent = (b1, None, port_reply 11500)"
    using far_ensure(2) by blast
  have env: "ge_nodes ?env = map far_node example_split_pool" "ge_now ?env = 100" "ge_platform ?env = example_platform"
    using far_pool by (simp_all add: agent_gw_env_def split_serve_def example_serve_def example_gw_env_def example_platform_def)
  have chat: "hr_Method split_chat = ''POST''" "hr_Path split_chat \<in> set inference_paths" "HasPrefix (hr_Path split_chat) ''/v1/''"
    by (simp_all add: split_chat_def inference_paths_def HasPrefix_def)
  have "plain_json ?j" by (auto intro!: plain_json.intros)
  then have "Unmarshal (encode_json ?j) = Some ?j" by (rule Unmarshal_encode)
  moreover have "length (encode_json ?j) \<le> maxBodyBytes" by (simp add: maxBodyBytes_def encode_string_def encode_char_def)
  moreover have "fold_name ''model'' = ''model''" by code_simp
  ultimately have model: "extractModel (take maxBodyBytes (encode_json ?j)) = ''big''"
    by (simp add: extractModel_def string_field_def del: encode_json.simps)
  have body: "hr_Body split_chat = Some (encode_json ?j)" by (simp add: split_chat_def)
  have plan: "PlanSplit (ge_platform ?env) (ge_now ?env) (ge_nodes ?env) ''big'' = Inr (Some far_plan)"
    unfolding env by (rule far_PlanSplit)
  have driver: "ns_ID (plan_Driver far_plan) \<noteq> ag_id planning_agent" "ge_bad_url ?env = (\<lambda>u. None)"
    by (simp_all add: far_plan_def example_plan_def planning_agent_def agent_gw_env_def split_serve_def example_gw_env_def)
  have idle: "\<not> loading (ag_pipelines driving_agent) ''big''" by (simp add: loading_def driving_agent_def NewManager_def)
  have tokens: "gw_token (ag_gw planning_agent) = cfg_Token (ag_cfg driving_agent)" "gw_token (ag_gw driving_agent) = cfg_Token (ag_cfg driving_agent)"
    by (simp_all add: planning_agent_def driving_agent_def example_agent_def example_config_def)
  have addr: "ns_Addr (plan_Driver far_plan) = ''10.0.0.2:11444''" by (simp add: far_plan_def)
  have net: "ge_do ?env \<lparr>ur_URL = ''http://'' @ ns_Addr (plan_Driver far_plan) @ ''/api/pipeline/ensure'', ur_Headers = hs, ur_Body = bd\<rparr>
      = wire (snd (snd (serve example_serve \<lparr>hr_Method = ''POST'', hr_Path = ''/api/pipeline/ensure'', hr_Headers = hs, hr_Body = Some bd\<rparr> driving_agent)))"
    "ge_do ?env \<lparr>ur_URL = ''http://'' @ ns_Addr (plan_Driver far_plan) @ ''/proxy/llama'' @ q, ur_Headers = hs, ur_Body = bd\<rparr>
      = wire (snd (snd (serve example_serve \<lparr>hr_Method = ''POST'', hr_Path = ''/proxy/llama'' @ q, hr_Headers = hs, hr_Body = Some bd\<rparr> b1)))"
    for q hs bd unfolding addr by (simp_all add: agent_gw_env_def split_serve_def b1)
  have "rp_Status (port_reply 11500) = 200" by (simp add: port_reply_def json_reply_def)
  moreover have "ge_proxy (sn_gw example_serve) u r = \<lparr>rp_Status = 200, rp_Headers = [], rp_Body = u\<rparr>" for u r
    by (simp add: example_serve_def example_gw_env_def)
  moreover have "hr_Path split_chat = ''/v1/chat/completions''" by (simp add: split_chat_def)
  ultimately show ?thesis
    using split_request_served [OF refl chat body model _ plan driver far_ensure(1) idle tokens b1 net] by auto
qed

end
