(* ===== verification/AgentLife.thy ===== *)
theory AgentLife
  imports AgentServe CommandLine TwoNodes
begin

text \<open>
  The life of the process: from \<^verbatim>\<open>main\<close> (\<^verbatim>\<open>cmd/potluck/main.go\<close>) through the loops and requests of \<^verbatim>\<open>Run\<close>
  (\<^verbatim>\<open>internal/agent/agent.go\<close>) to its exit.  The end of the context, the goroutine that then stops the children and
  closes the server, and the return of \<^verbatim>\<open>ListenAndServe\<close> are steps of their own, so that requests
  and loops interleave with them (\<open>process_step\<close>).
\<close>

section \<open>The ticker loops\<close>

text \<open>What a turn of the \<^verbatim>\<open>select\<close> finds; the turns that have not come yet are not in the list.\<close>

datatype selected = Tick | CtxDone

fun agent_loop :: "(nat \<Rightarrow> 'a \<Rightarrow> 'a) \<Rightarrow> nat \<Rightarrow> selected list \<Rightarrow> 'a \<Rightarrow> 'a option" where
  "agent_loop fn i [] s = None"
| "agent_loop fn i (Tick # turns) s = agent_loop fn (Suc i) turns (fn i s)"
| "agent_loop fn i (CtxDone # turns) s = Some s"

text \<open>A loop returns exactly when the end of the context is selected, after one call for each tick before it.\<close>

lemma agent_loop_ends:
  "agent_loop fn i turns s =
     (if CtxDone \<in> set turns then Some (fold fn [i..<i + length (takeWhile ((=) Tick) turns)] s) else None)"
proof (induction turns arbitrary: i s)
  case (Cons turn turns)
  have "[i..<i + Suc n] = i # [Suc i..<Suc i + n]" for n by (simp add: upt_rec)
  with Cons show ?case by (cases turn) simp_all
qed simp

section \<open>The process\<close>

text \<open>Where the goroutine is that waits for the end of the context.\<close>

datatype closer = Awaiting | StoppingPipelines "string list" | CallingShutdown | ServerClosed

datatype process = Serving | Exited nat

record life_sys =
  lf_node :: agent_sys
  lf_ended :: bool
  lf_closer :: closer
  lf_killed :: "nat set"
  lf_process :: process

definition start_process :: "Agent \<Rightarrow> instant \<Rightarrow> life_sys" where
  "start_process a t =
     \<lparr>lf_node = start_sys a t, lf_ended = False, lf_closer = Awaiting, lf_killed = {}, lf_process = Serving\<rparr>"

text \<open>\<^verbatim>\<open>main\<close> once the flags are parsed: the exit code, or the process with its loops and its server started.\<close>

definition main_start ::
  "string option \<Rightarrow> id_env \<Rightarrow> (string \<rightharpoonup> string) \<Rightarrow> (string \<Rightarrow> URL option) \<Rightarrow> (string \<Rightarrow> string option) \<Rightarrow>
    (string \<Rightarrow> string \<Rightarrow> string \<Rightarrow> int \<Rightarrow> string list \<Rightarrow> 'err option) \<Rightarrow> instant \<Rightarrow> machine \<Rightarrow> (string \<Rightarrow> http_get) \<Rightarrow>
    Config \<Rightarrow> (string \<rightharpoonup> string) \<times> (nat + life_sys)" where
  "main_start hostname env files parse lookPath register now mc get cfg =
     (case NewAgent hostname env files parse lookPath cfg of
        (files', None) \<Rightarrow> (files', Inl 1)
      | (files', Some a) \<Rightarrow>
          (files', (case Run_start register now mc get [] a of
                      Inl e \<Rightarrow> Inl 1
                    | Inr a' \<Rightarrow> Inr (start_process a' now))))"

datatype life_event = Live "instant \<times> node_event" | Ending | Closer | ServerEnd

definition set_pipelines :: "Manager \<Rightarrow> agent_sys \<Rightarrow> agent_sys" where
  "set_pipelines m s = s\<lparr>sy_agent := (sy_agent s)\<lparr>ag_pipelines := m\<rparr>\<rparr>"

text \<open>
  The processes that a step of the node kills: those of the pipelines the collector stops, and the
  \<^verbatim>\<open>rpc-server\<close> that a request stops.  The server of a failed attempt, which \<open>Ensure\<close> kills within a request, is
  not recorded; the theorems on the exit need it nowhere.
\<close>

definition event_kills :: "agent_sys \<Rightarrow> instant \<times> node_event \<Rightarrow> nat set" where
  "event_kills s ev =
     (case snd ev of
        Collection order \<Rightarrow> set (snd (gc_tick (fst ev) order (ag_pipelines (sy_agent s))))
      | Request env r \<Rightarrow> set_option (fst (snd (serve env r (sy_agent s))))
      | _ \<Rightarrow> {})"

text \<open>
  \<open>live\<close>: the node goes on until the process exits.  \<open>ending\<close>: a signal.  \<open>stop_all\<close>, \<open>stop_one\<close>, \<open>stop_worker\<close>:
  \<^verbatim>\<open>StopAll\<close> and \<^verbatim>\<open>worker.Stop\<close>, then \<^verbatim>\<open>srv.Shutdown\<close>, at which \<^verbatim>\<open>ListenAndServe\<close> returns \<^verbatim>\<open>ErrServerClosed\<close>, \<^verbatim>\<open>Run\<close>
  returns \<^verbatim>\<open>nil\<close> and \<^verbatim>\<open>main\<close> ends (\<open>closed\<close>).  \<open>failed\<close>: any other error of the server.
\<close>

inductive process_step :: "life_sys \<Rightarrow> life_event \<Rightarrow> life_sys \<Rightarrow> bool" where
  live: "lf_process l = Serving \<Longrightarrow> node_step (lf_node l) ev s \<Longrightarrow>
    process_step l (Live ev) (l\<lparr>lf_node := s, lf_killed := lf_killed l \<union> event_kills (lf_node l) ev\<rparr>)"
| ending: "lf_process l = Serving \<Longrightarrow> process_step l Ending (l\<lparr>lf_ended := True\<rparr>)"
| stop_all: "lf_process l = Serving \<Longrightarrow> lf_ended l \<Longrightarrow> lf_closer l = Awaiting \<Longrightarrow>
    iter_order (mg_pipelines (ag_pipelines (sy_agent (lf_node l)))) order \<Longrightarrow>
    process_step l Closer (l\<lparr>lf_closer := StoppingPipelines order\<rparr>)"
| stop_one: "lf_process l = Serving \<Longrightarrow> lf_closer l = StoppingPipelines (model # models) \<Longrightarrow>
    stop_section model (ag_pipelines (sy_agent (lf_node l))) = (m, victim) \<Longrightarrow>
    process_step l Closer (l\<lparr>lf_node := set_pipelines m (lf_node l), lf_killed := lf_killed l \<union> set_option victim,
      lf_closer := StoppingPipelines models\<rparr>)"
| stop_worker: "lf_process l = Serving \<Longrightarrow> lf_closer l = StoppingPipelines [] \<Longrightarrow>
    process_step l Closer (l\<lparr>lf_killed := lf_killed l \<union> set_option (Stop (ag_worker (sy_agent (lf_node l)))),
      lf_closer := CallingShutdown\<rparr>)"
| close_server: "lf_process l = Serving \<Longrightarrow> lf_closer l = CallingShutdown \<Longrightarrow>
    process_step l Closer (l\<lparr>lf_closer := ServerClosed\<rparr>)"
| closed: "lf_process l = Serving \<Longrightarrow> lf_closer l = ServerClosed \<Longrightarrow>
    process_step l ServerEnd (l\<lparr>lf_process := Exited 0\<rparr>)"
| failed: "lf_process l = Serving \<Longrightarrow> lf_closer l \<noteq> ServerClosed \<Longrightarrow>
    process_step l ServerEnd (l\<lparr>lf_process := Exited 1\<rparr>)"

inductive process_run :: "life_sys \<Rightarrow> life_event list \<Rightarrow> life_sys \<Rightarrow> bool" for l0 where
  process_nil: "process_run l0 [] l0"
| process_snoc: "process_run l0 evs l \<Longrightarrow> process_step l ev l' \<Longrightarrow> process_run l0 (evs @ [ev]) l'"

inductive_cases process_stepE: "process_step l ev l'"

section \<open>A clean end\<close>

definition quiet :: "life_event list \<Rightarrow> bool" where
  "quiet evs \<longleftrightarrow> (\<forall>t env r. Live (t, Request env r) \<notin> set evs)"

text \<open>A child ended by itself, and its reaper noticed.\<close>

definition gone :: "nat \<Rightarrow> life_event list \<Rightarrow> bool" where
  "gone pid evs \<longleftrightarrow> (\<exists>t model. Live (t, PipelineExit pid model) \<in> set evs)"

definition worker_gone :: "nat \<Rightarrow> life_event list \<Rightarrow> bool" where
  "worker_gone pid evs \<longleftrightarrow> (\<exists>t. Live (t, WorkerExit pid) \<in> set evs)"

abbreviation pipes :: "life_sys \<Rightarrow> string \<rightharpoonup> pipeline" where
  "pipes l \<equiv> mg_pipelines (ag_pipelines (sy_agent (lf_node l)))"

abbreviation rpc_cmd :: "life_sys \<Rightarrow> nat option" where
  "rpc_cmd l \<equiv> wk_cmd (ag_worker (sy_agent (lf_node l)))"

definition accounted_for :: "life_sys \<Rightarrow> life_event list \<Rightarrow> life_sys \<Rightarrow> bool" where
  "accounted_for l0 evs l \<longleftrightarrow>
     (\<forall>model p. pipes l0 model = Some p \<longrightarrow>
        pipes l model = Some p \<or> pl_cmd p \<in> lf_killed l \<or> gone (pl_cmd p) evs) \<and>
     (\<forall>pid. rpc_cmd l0 = Some pid \<longrightarrow> rpc_cmd l = Some pid \<or> worker_gone pid evs)"

definition closing_inv :: "life_sys \<Rightarrow> life_event list \<Rightarrow> life_sys \<Rightarrow> bool" where
  "closing_inv l0 evs l \<longleftrightarrow>
     (lf_closer l \<noteq> Awaiting \<longrightarrow> lf_ended l) \<and> (lf_process l = Exited 0 \<longrightarrow> lf_closer l = ServerClosed) \<and>
     (\<forall>models. lf_closer l = StoppingPipelines models \<longrightarrow> dom (pipes l) \<subseteq> set models) \<and>
     (lf_closer l \<in> {CallingShutdown, ServerClosed} \<longrightarrow> pipes l = Map.empty \<and> set_option (rpc_cmd l) \<subseteq> lf_killed l) \<and>
     accounted_for l0 evs l"

lemma gone_append [simp]:
  "gone pid (evs @ evs') = (gone pid evs \<or> gone pid evs')"
  "worker_gone pid (evs @ evs') = (worker_gone pid evs \<or> worker_gone pid evs')"
  by (auto simp: gone_def worker_gone_def)

lemma accounted_mono:
  assumes "accounted_for l0 evs l" and "lf_node l' = lf_node l" and "lf_killed l \<subseteq> lf_killed l'"
  shows "accounted_for l0 (evs @ [ev]) l'"
  using assms by (fastforce simp: accounted_for_def)

lemma quiet_node_step:
  assumes "node_step s (t, e) s'" and "\<nexists>env r. e = Request env r"
  shows "mg_pipelines (ag_pipelines (sy_agent s')) \<subseteq>\<^sub>m mg_pipelines (ag_pipelines (sy_agent s))"
    and "mg_pipelines (ag_pipelines (sy_agent s)) model = Some p \<Longrightarrow>
      mg_pipelines (ag_pipelines (sy_agent s')) model = Some p \<or> pl_cmd p \<in> event_kills s (t, e) \<or> gone (pl_cmd p) [Live (t, e)]"
    and "wk_cmd (ag_worker (sy_agent s')) = wk_cmd (ag_worker (sy_agent s)) \<or>
      wk_cmd (ag_worker (sy_agent s')) = None \<and> (\<exists>pid. e = WorkerExit pid \<and> wk_cmd (ag_worker (sy_agent s)) = Some pid)"
  using assms turn_parts [of s t _ s']
  by (auto elim!: node_stepE simp: map_le_def dom_def gone_def reap_def gc_tick_def stop_each_manager stop_each_victims
      event_kills_def fold_stop worker_reap_def split: option.splits if_splits)

lemma closing_live:
  assumes "node_step (lf_node l) (t, e) s" and "\<nexists>env r. e = Request env r" and "closing_inv l0 evs l"
    and "lf_process l = Serving"
  shows "closing_inv l0 (evs @ [Live (t, e)]) (l\<lparr>lf_node := s, lf_killed := lf_killed l \<union> event_kills (lf_node l) (t, e)\<rparr>)"
proof -
  let ?l = "l\<lparr>lf_node := s, lf_killed := lf_killed l \<union> event_kills (lf_node l) (t, e)\<rparr>" and ?evs = "evs @ [Live (t, e)]"
  note step = quiet_node_step [OF assms(1,2)]
  have sub: "dom (pipes ?l) \<subseteq> dom (pipes l)" using map_le_implies_dom_le [OF step(1)] by simp
  have "lf_closer l = StoppingPipelines models \<Longrightarrow> dom (pipes ?l) \<subseteq> set models" for models
    using assms(3) sub by (auto simp: closing_inv_def)
  moreover have "lf_closer l \<in> {CallingShutdown, ServerClosed} \<Longrightarrow> pipes ?l = Map.empty \<and> set_option (rpc_cmd ?l) \<subseteq> lf_killed ?l"
    using assms(3) sub step(3) by (auto simp: closing_inv_def)
  moreover have "accounted_for l0 ?evs ?l"
  proof -
    have "accounted_for l0 evs l" using assms(3) by (simp add: closing_inv_def)
    then show ?thesis using step(2,3) by (fastforce simp: accounted_for_def worker_gone_def)
  qed
  ultimately show ?thesis using assms(3,4) by (simp add: closing_inv_def)
qed

lemma closing_inv_step:
  assumes "process_step l ev l'" and "quiet [ev]" and "closing_inv l0 evs l"
  shows "closing_inv l0 (evs @ [ev]) l'"
  using assms(1)
proof (cases rule: process_step.cases)
  case (live ev' s)
  obtain t e where ev': "ev' = (t, e)" by (cases ev')
  from live assms(2) ev' have "\<nexists>env r. e = Request env r" by (auto simp: quiet_def)
  from closing_live [OF live(4) [unfolded ev'] this assms(3) live(3)] show ?thesis by (simp add: live ev')
next
  case (stop_one model models m victim)
  have m: "mg_pipelines m = (pipes l)(model := None)" "victim = map_option pl_cmd (pipes l model)"
    using stop_one(5) by (auto simp: stop_section_def)
  have "dom (pipes l) \<subseteq> insert model (set models)" using assms(3) stop_one(4) by (simp add: closing_inv_def)
  then have "dom (mg_pipelines m) \<subseteq> set models" by (auto simp: m)
  moreover have "accounted_for l0 evs l" using assms(3) by (simp add: closing_inv_def)
  then have "accounted_for l0 (evs @ [ev]) l'"
    by (fastforce simp: accounted_for_def stop_one(2) set_pipelines_def m)
  ultimately show ?thesis
    using assms(3) stop_one by (simp add: closing_inv_def set_pipelines_def)
qed (use assms(3) accounted_mono [of l0 evs l l' ev] in \<open>auto simp: closing_inv_def iter_order_def Stop_def\<close>)

lemma closing_inv_run:
  assumes "process_run l0 evs l" and "quiet evs" and "lf_closer l0 = Awaiting" and "lf_process l0 = Serving"
  shows "closing_inv l0 evs l"
  using assms(1,2)
proof (induction rule: process_run.induct)
  case process_nil
  with assms(3,4) show ?case by (simp add: closing_inv_def accounted_for_def)
next
  case (process_snoc evs l ev l')
  from process_snoc.prems have "quiet evs" "quiet [ev]" by (auto simp: quiet_def)
  with process_snoc show ?case by (blast intro: closing_inv_step)
qed

text \<open>
  C19.  A clean end: once no request is served any more, the process exits with code 0 only after a signal,
  with no pipeline left, and every \<^verbatim>\<open>llama-server\<close> and the \<^verbatim>\<open>rpc-server\<close> it held have been killed, by the
  collector of idle pipelines or at the end, unless that very child had exited by itself.
\<close>

theorem clean_exit:
  assumes "process_run l0 evs l" and "lf_process l = Exited 0" and "quiet evs"
    and "lf_closer l0 = Awaiting" and "lf_process l0 = Serving"
  shows "lf_ended l \<and> pipes l = Map.empty \<and>
    (\<forall>model p. pipes l0 model = Some p \<longrightarrow> pl_cmd p \<in> lf_killed l \<or> gone (pl_cmd p) evs) \<and>
    (\<forall>pid. rpc_cmd l0 = Some pid \<longrightarrow> pid \<in> lf_killed l \<or> worker_gone pid evs)"
proof -
  have inv: "closing_inv l0 evs l" by (rule closing_inv_run [OF assms(1,3-5)])
  with assms(2) have c: "lf_closer l = ServerClosed" "lf_ended l" by (auto simp: closing_inv_def)
  with inv have empty: "pipes l = Map.empty" "set_option (rpc_cmd l) \<subseteq> lf_killed l" by (simp_all add: closing_inv_def)
  with inv c(2) show ?thesis by (force simp: closing_inv_def accounted_for_def)
qed

text \<open>The goroutine that ends a node with at most one pipeline, from the signal to the call of \<^verbatim>\<open>srv.Shutdown\<close>.\<close>

lemma closer_run:
  assumes "process_run l0 evs l" and "lf_process l = Serving" and "lf_closer l = Awaiting"
    and "iter_order (pipes l) models" and "l' = l\<lparr>lf_ended := True, lf_closer := StoppingPipelines models\<rparr>"
  shows "process_run l0 (evs @ [Ending, Closer]) l'"
proof -
  have "process_run l0 ((evs @ [Ending]) @ [Closer]) l'"
    using assms by (intro process_snoc [OF process_snoc [OF _ ending]]) (auto intro: process_step.intros)
  then show ?thesis by simp
qed

lemma stop_one_run:
  assumes "process_run l0 evs l" and "lf_process l = Serving" and "lf_closer l = StoppingPipelines (model # models)"
    and "l' = l\<lparr>lf_node := set_pipelines (fst (stop_section model (ag_pipelines (sy_agent (lf_node l))))) (lf_node l),
      lf_killed := lf_killed l \<union> set_option (snd (stop_section model (ag_pipelines (sy_agent (lf_node l))))),
      lf_closer := StoppingPipelines models\<rparr>"
  shows "process_run l0 (evs @ [Closer]) l'"
  using process_step.stop_one [OF assms(2,3) surjective_pairing] assms(1,4) by (simp add: process_snoc)

lemma server_end_run:
  assumes "process_run l0 evs l" and "lf_process l = Serving" and "lf_closer l = StoppingPipelines []"
    and "l' = l\<lparr>lf_killed := lf_killed l \<union> set_option (Stop (ag_worker (sy_agent (lf_node l)))),
      lf_closer := ServerClosed, lf_process := Exited 0\<rparr>"
  shows "process_run l0 (evs @ [Closer, Closer, ServerEnd]) l'"
proof -
  let ?l1 = "l\<lparr>lf_killed := lf_killed l \<union> set_option (Stop (ag_worker (sy_agent (lf_node l)))), lf_closer := CallingShutdown\<rparr>"
  have "process_run l0 (evs @ [Closer]) ?l1" using assms(1-3) by (blast intro: process_snoc stop_worker)
  then have "process_run l0 ((evs @ [Closer]) @ [Closer]) (?l1\<lparr>lf_closer := ServerClosed\<rparr>)"
    by (rule process_snoc) (rule close_server, simp_all add: assms(2))
  then have "process_run l0 (((evs @ [Closer]) @ [Closer]) @ [ServerEnd]) (?l1\<lparr>lf_closer := ServerClosed, lf_process := Exited 0\<rparr>)"
    by (rule process_snoc) (use closed [of "?l1\<lparr>lf_closer := ServerClosed\<rparr>"] assms(2) in simp)
  then show ?thesis by (simp add: assms(4))
qed

text \<open>A driver that a peer has asked for a pipeline, and its end.\<close>

lemma serve_ensure_request:
  assumes "handlePipelineEnsure example_drive ensure_request driving_agent = (a, rep)"
  shows "serve example_serve ensure_request driving_agent = (a, None, rep)"
  using assms dispatch_ensure by (simp add: serve_def handle_def ensure_request_def example_serve_def Let_def)

theorem clean_exit_witness:
  "\<exists>a p evs l. handlePipelineEnsure example_drive ensure_request driving_agent = (a, port_reply 11500) \<and>
     mg_pipelines (ag_pipelines a) ''m'' = Some p \<and> process_run (start_process a 1) evs l \<and> lf_process l = Exited 0 \<and>
     pipes l = Map.empty \<and> pl_cmd p \<in> lf_killed l"
proof -
  obtain a p where h: "handlePipelineEnsure example_drive ensure_request driving_agent = (a, port_reply 11500)"
    and m: "mg_pipelines (ag_pipelines a) = [''m'' \<mapsto> p]" using example_driver_up by metis
  let ?l0 = "start_process a 1" and ?sec = "stop_section ''m'' (ag_pipelines a)"
  let ?l1 = "?l0\<lparr>lf_ended := True, lf_closer := StoppingPipelines [''m'']\<rparr>"
  let ?l2 = "?l1\<lparr>lf_node := set_pipelines (fst ?sec) (start_sys a 1), lf_killed := set_option (snd ?sec), lf_closer := StoppingPipelines []\<rparr>"
  let ?l3 = "?l2\<lparr>lf_killed := set_option (snd ?sec) \<union> set_option (Stop (ag_worker a)), lf_closer := ServerClosed, lf_process := Exited 0\<rparr>"
  let ?evs = "((([] @ [Ending, Closer]) @ [Closer]) @ [Closer, Closer, ServerEnd]) :: life_event list"
  have "process_run ?l0 ([] @ [Ending, Closer]) ?l1"
    by (rule closer_run [OF process_nil]) (simp_all add: start_process_def start_sys_def iter_order_def m)
  then have "process_run ?l0 (([] @ [Ending, Closer]) @ [Closer]) ?l2"
    by (rule stop_one_run) (simp_all add: start_process_def start_sys_def)
  then have run: "process_run ?l0 ?evs ?l3"
    by (rule server_end_run) (simp_all add: start_process_def start_sys_def set_pipelines_def)
  have "quiet ?evs" and gone: "\<not> gone (pl_cmd p) ?evs" by (simp_all add: quiet_def gone_def)
  then have final: "pipes ?l3 = Map.empty \<and> (\<forall>model p. pipes ?l0 model = Some p \<longrightarrow> pl_cmd p \<in> lf_killed ?l3 \<or> gone (pl_cmd p) ?evs)"
    using clean_exit [OF run] by (simp add: start_process_def del: append.simps)
  have "pipes ?l0 ''m'' = Some p" by (simp add: start_process_def start_sys_def m)
  with final gone have "pl_cmd p \<in> lf_killed ?l3" by blast
  moreover have "lf_process ?l3 = Exited 0" "mg_pipelines (ag_pipelines a) ''m'' = Some p" by (simp_all add: m)
  ultimately show ?thesis using final h run by blast
qed

text \<open>
  Exits that leave a server behind.  A request that is served between the list \<^verbatim>\<open>StopAll\<close> takes and the exit
  starts a \<^verbatim>\<open>llama-server\<close> that nobody stops; and when the server fails, \<^verbatim>\<open>Run\<close> returns at once,
  without a signal, so that no child is stopped at all.
\<close>

lemma driver_serving:
  assumes "lf_process l = Serving" and "sy_agent (lf_node l) = driving_agent" and "sy_clock (lf_node l) \<le> 1"
  obtains s p where "process_step l (Live (1, Request example_serve ensure_request)) (l\<lparr>lf_node := s\<rparr>)"
    and "mg_pipelines (ag_pipelines (sy_agent s)) = [''m'' \<mapsto> p]" and "Port (ag_pipelines (sy_agent s)) ''m'' = Some (pl_port p)"
    and "wk_cmd (ag_worker (sy_agent s)) = None"
proof -
  obtain a p where a: "handlePipelineEnsure example_drive ensure_request driving_agent = (a, port_reply 11500)"
    "a = driving_agent\<lparr>ag_pipelines := ag_pipelines a\<rparr>" "mg_pipelines (ag_pipelines a) = [''m'' \<mapsto> p]"
    "PipelinePort ''m'' a = Some (pl_port p)" using example_driver_up by metis
  let ?s = "(lf_node l)\<lparr>sy_agent := a, sy_clock := 1\<rparr>"
  have "node_step (lf_node l) (1, Request example_serve ensure_request) ?s"
    using assms(2,3) serve_ensure_request [OF a(1)] by (intro node_step.request) simp_all
  from live [OF assms(1) this] have "process_step l (Live (1, Request example_serve ensure_request)) (l\<lparr>lf_node := ?s\<rparr>)"
    using serve_ensure_request [OF a(1)] assms(2) by (simp add: event_kills_def)
  moreover have "wk_cmd (ag_worker a) = None"
    by (subst a(2)) (simp add: driving_agent_def example_agent_def NewWorker_def)
  ultimately show thesis using that a(3,4) by (simp add: PipelinePort_def)
qed

theorem exit_leaves_server:
  "(\<exists>evs l p. process_run (start_process driving_agent 0) evs l \<and> lf_process l = Exited 0 \<and> pipes l = [''m'' \<mapsto> p] \<and>
      lf_killed l = {} \<and> \<not> gone (pl_cmd p) evs) \<and>
   (\<exists>evs l p. process_run (start_process driving_agent 0) evs l \<and> lf_process l = Exited 1 \<and> pipes l = [''m'' \<mapsto> p] \<and>
      lf_killed l = {} \<and> \<not> gone (pl_cmd p) evs)"
proof (intro conjI)
  let ?l0 = "start_process driving_agent 0"
  let ?l1 = "?l0\<lparr>lf_ended := True, lf_closer := StoppingPipelines []\<rparr>"
  have none: "pipes ?l0 = Map.empty"
    by (simp add: start_process_def start_sys_def driving_agent_def NewManager_def)
  have run1: "process_run ?l0 ([] @ [Ending, Closer]) ?l1"
    by (rule closer_run [OF process_nil]) (simp_all add: none iter_order_def, simp_all add: start_process_def)
  obtain s p where step: "process_step ?l1 (Live (1, Request example_serve ensure_request)) (?l1\<lparr>lf_node := s\<rparr>)"
    and s: "mg_pipelines (ag_pipelines (sy_agent s)) = [''m'' \<mapsto> p]" "wk_cmd (ag_worker (sy_agent s)) = None"
    by (rule driver_serving [of ?l1]) (simp_all add: start_process_def start_sys_def)
  let ?l2 = "?l1\<lparr>lf_node := s, lf_closer := ServerClosed, lf_process := Exited 0\<rparr>"
  have "process_run ?l0 ((([] @ [Ending, Closer]) @ [Live (1, Request example_serve ensure_request)]) @ [Closer, Closer, ServerEnd]) ?l2"
    by (rule server_end_run [OF process_snoc [OF run1 step]]) (simp_all add: start_process_def Stop_def s)
  moreover have "lf_killed ?l2 = {}" "pipes ?l2 = [''m'' \<mapsto> p]" "lf_process ?l2 = Exited 0" by (simp_all add: start_process_def s)
  ultimately show "\<exists>evs l p. process_run ?l0 evs l \<and> lf_process l = Exited 0 \<and> pipes l = [''m'' \<mapsto> p] \<and>
      lf_killed l = {} \<and> \<not> gone (pl_cmd p) evs"
    by (intro exI conjI) (assumption+, simp add: gone_def)
  obtain s' p' where step': "process_step ?l0 (Live (1, Request example_serve ensure_request)) (?l0\<lparr>lf_node := s'\<rparr>)"
    and s': "mg_pipelines (ag_pipelines (sy_agent s')) = [''m'' \<mapsto> p']"
    by (rule driver_serving [of ?l0]) (simp_all add: start_process_def start_sys_def)
  let ?exit = "?l0\<lparr>lf_node := s'\<rparr>\<lparr>lf_process := Exited 1\<rparr>"
  have "process_step (?l0\<lparr>lf_node := s'\<rparr>) ServerEnd ?exit"
    by (rule process_step.failed) (simp_all add: start_process_def)
  then have "process_run ?l0 (([] @ [Live (1, Request example_serve ensure_request)]) @ [ServerEnd]) ?exit"
    by (rule process_snoc [OF process_snoc [OF process_nil step']])
  moreover have "lf_killed ?exit = {}" "pipes ?exit = [''m'' \<mapsto> p']" "lf_process ?exit = Exited 1" by (simp_all add: start_process_def s')
  ultimately show "\<exists>evs l p. process_run ?l0 evs l \<and> lf_process l = Exited 1 \<and> pipes l = [''m'' \<mapsto> p] \<and>
      lf_killed l = {} \<and> \<not> gone (pl_cmd p) evs"
    by (intro exI conjI) (assumption+, simp add: gone_def)
qed

end
