(* ===== verification/GatewayPool.thy ===== *)
theory GatewayPool
  imports GatewaySplit
begin

text \<open>
  What a gateway needs of its pool (the interface \<^verbatim>\<open>Pool\<close> of \<^verbatim>\<open>gateway/gateway.go\<close>): the nodes, which of them
  is this one, and that every other one has an address that was announced.  From this alone: serving
  an inference request asks no one else.  That a handler asks only certain addresses is
  stated as independence: its result is the same whatever the answers from elsewhere are.
\<close>

section \<open>The interface\<close>

locale gateway_pool =
  fixes pool_nodes :: "'p \<Rightarrow> NodeState list" and pool_self :: "'p \<Rightarrow> string"
    and announced :: "'p \<Rightarrow> string \<Rightarrow> bool" and good :: "'p \<Rightarrow> bool"
  assumes peer_announced: "good p \<Longrightarrow> n \<in> set (pool_nodes p) \<Longrightarrow> ns_ID n \<noteq> pool_self p \<Longrightarrow> announced p (ns_Addr n)"

text \<open>The URLs of this node's Ollama, of its own pipelines, and of the addresses that are \<open>known\<close>.\<close>

definition contacts :: "(string \<Rightarrow> bool) \<Rightarrow> Gateway \<Rightarrow> string \<Rightarrow> bool" where
  "contacts known g url \<longleftrightarrow>
     (\<exists>path. HasPrefix path ''/'' \<and>
        (url = URL_String (gw_ollama g) @ path \<or> (\<exists>port. url = local_url port @ path) \<or>
         (\<exists>addr. known addr \<and> url = ''http://'' @ addr @ path)))"

lemma contacts_known: "known addr \<Longrightarrow> HasPrefix path ''/'' \<Longrightarrow> contacts known g (''http://'' @ addr @ path)"
  by (auto simp: contacts_def)

definition runners_agree :: "(string \<Rightarrow> bool) \<Rightarrow> 'd split_runner \<Rightarrow> 'd split_runner \<Rightarrow> bool" where
  "runners_agree known sr sr' \<longleftrightarrow>
     (\<forall>model ws d. list_all known ws \<longrightarrow> sr_EnsureLocal sr model ws d = sr_EnsureLocal sr' model ws d)"

lemma forward_cong:
  assumes "ge_do env \<lparr>ur_URL = forward_target env g n (hr_Path r), ur_Headers = json_type # token_headers g, ur_Body = body\<rparr>
    = f \<lparr>ur_URL = forward_target env g n (hr_Path r), ur_Headers = json_type # token_headers g, ur_Body = body\<rparr>"
  shows "forward (env\<lparr>ge_do := f\<rparr>) r n body g = forward env r n body g"
  using assms by (simp add: forward_def forward_target_def Let_def)

lemma send_split_cong:
  assumes "ge_do env (split_request g target model body) = f (split_request g target model body)"
  shows "send_split (env\<lparr>ge_do := f\<rparr>) g target model body = send_split env g target model body"
  using assms by (simp add: send_split_def)

lemma ensureRemote_cong:
  assumes "\<And>u. ur_URL u = ''http://'' @ addr @ ''/api/pipeline/ensure'' \<Longrightarrow> ge_do env u = f u"
  shows "ensureRemote (env\<lparr>ge_do := f\<rparr>) g addr model ws = ensureRemote env g addr model ws"
  by (simp add: ensureRemote_def assms Let_def cong: option.case_cong)

lemma plan_workers_apart:
  assumes "platform_ok P" and "PlanSplit P now ns model = Inr (Some p)"
  shows "\<forall>w \<in> set (plan_Workers p). ns_ID w \<noteq> ns_ID (plan_Driver p)"
  using PlanSplit_SomeD [OF assms(2)] recruited_workers [of P now ns model] set_worker_candidates [OF assms(1)] by fastforce

lemma finish_ge_do [simp]: "finish (env\<lparr>ge_do := f\<rparr>) = finish env"
  by (simp add: finish_def fun_eq_iff)

section \<open>What a gateway asks\<close>

context gateway_pool
begin

lemma forward_known:
  assumes "good p" and "n \<in> set (pool_nodes p)" and "ge_self env = pool_self p" and "HasPrefix path ''/''"
  shows "contacts (announced p) g (forward_target env g n path)"
proof (cases "ns_ID n = pool_self p")
  case True
  with assms(3,4) show ?thesis by (auto simp: forward_target_def contacts_def)
next
  case False
  then have "announced p (ns_Addr n)" using peer_announced assms(1,2) by blast
  with contacts_known [of "announced p" "ns_Addr n" "''/proxy/ollama'' @ path" g] False assms(3) show ?thesis
    by (simp add: forward_target_def HasPrefix_def)
qed

lemma forwardSplit_known:
  assumes "good p" and "ge_self env = pool_self p" and "HasPrefix (hr_Path r) ''/''"
    and "plan_Driver plan \<in> set (pool_nodes p)" and "set (plan_Workers plan) \<subseteq> set (pool_nodes p)"
    and "\<forall>w \<in> set (plan_Workers plan). ns_ID w \<noteq> ns_ID (plan_Driver plan)"
    and "\<And>u. contacts (announced p) g (ur_URL u) \<Longrightarrow> ge_do env u = f u" and "runners_agree (announced p) sr sr'"
  shows "forwardSplit (env\<lparr>ge_do := f\<rparr>) (Some sr') r plan model body g d = forwardSplit env (Some sr) r plan model body g d"
proof (cases "ns_ID (plan_Driver plan) = pool_self p")
  case True
  then have "list_all (announced p) (map ns_Addr (plan_Workers plan))"
    using peer_announced [OF assms(1)] assms(5,6) by (auto simp: list_all_iff)
  then have "sr_EnsureLocal sr' model (map ns_Addr (plan_Workers plan)) d = sr_EnsureLocal sr model (map ns_Addr (plan_Workers plan)) d"
    using assms(8) by (simp add: runners_agree_def)
  moreover have "contacts (announced p) g (local_url port @ hr_Path r)" for port
    using assms(3) by (auto simp: contacts_def)
  then have "send_split (env\<lparr>ge_do := f\<rparr>) g (local_url port @ hr_Path r) model body
      = send_split env g (local_url port @ hr_Path r) model body" for port
    using assms(7) by (intro send_split_cong) (simp add: split_request_def)
  ultimately show ?thesis using True assms(2) by (simp add: forwardSplit_def Let_def split: prod.split sum.split)
next
  case False
  then have known: "announced p (ns_Addr (plan_Driver plan))" using peer_announced assms(1,4) by blast
  have "send_split (env\<lparr>ge_do := f\<rparr>) g (''http://'' @ ns_Addr (plan_Driver plan) @ ''/proxy/llama'' @ hr_Path r) model body
      = send_split env g (''http://'' @ ns_Addr (plan_Driver plan) @ ''/proxy/llama'' @ hr_Path r) model body"
    using contacts_known [of "announced p", OF known, of "''/proxy/llama'' @ hr_Path r" g] assms(7)
    by (intro send_split_cong) (simp add: split_request_def HasPrefix_def)
  moreover have "ensureRemote (env\<lparr>ge_do := f\<rparr>) g (ns_Addr (plan_Driver plan)) model ws
      = ensureRemote env g (ns_Addr (plan_Driver plan)) model ws" for ws
    using contacts_known [of "announced p", OF known, of "''/api/pipeline/ensure''" g] assms(7)
    by (intro ensureRemote_cong) (simp add: HasPrefix_def)
  ultimately show ?thesis using False assms(2) by (simp add: forwardSplit_def Let_def split: option.split)
qed

lemma handleInference_known:
  assumes "good p" and "ge_nodes env = pool_nodes p" and "ge_self env = pool_self p" and "platform_ok (ge_platform env)"
    and "HasPrefix (hr_Path r) ''/''"
    and "\<And>u. contacts (announced p) g (ur_URL u) \<Longrightarrow> ge_do env u = f u" and "runners_agree (announced p) sr sr'"
  shows "handleInference (env\<lparr>ge_do := f\<rparr>) (Some sr') r g d = handleInference env (Some sr) r g d"
proof (cases "hr_Body r")
  case (Some b)
  let ?body = "take maxBodyBytes b"
  have split: "forwardSplit (env\<lparr>ge_do := f\<rparr>) (Some sr') r plan (extractModel ?body) ?body g d
      = forwardSplit env (Some sr) r plan (extractModel ?body) ?body g d"
    if "PlanSplit (ge_platform env) (ge_now env) (ge_nodes env) (extractModel ?body) = Inr (Some plan)" for plan
    using PlanSplit_eligible [OF assms(4) that] plan_workers_apart [OF assms(4) that] assms(2)
    by (intro forwardSplit_known [OF assms(1,3,5) _ _ _ assms(6,7)]) auto
  have whole: "forward (env\<lparr>ge_do := f\<rparr>) r n ?body g = forward env r n ?body g"
    if "Pick (ge_now env) (ge_order env) (ge_nodes env) (extractModel ?body) = Inr n" for n
    using forward_known [OF assms(1) _ assms(3,5)] Pick_eligible(1) [OF that] assms(2,6) by (intro forward_cong) simp
  show ?thesis
    using Some split whole
    by (auto simp: handleInference_def Let_def split: sum.split option.split)
qed (simp add: handleInference_def)

end

end
