(* ===== verification/AgentAddresses.thy ===== *)
theory AgentAddresses
  imports AgentServe GatewayPool TwoNodes
begin

text \<open>
  Whom a node asks on behalf of a client.  The agent is the pool of its gateway: the interface
  \<open>gateway_pool\<close> is interpreted on its registry, where each entry that is not its own has the
  address of an announcement (\<open>addressed\<close>).
\<close>

section \<open>The agent as a pool\<close>

definition from_pool :: "scan_turn list \<Rightarrow> Agent \<Rightarrow> string \<Rightarrow> bool" where
  "from_pool scans a addr \<longleftrightarrow> (\<exists>h \<in> set (fst (Browse (ag_id a) (cfg_Pool (ag_cfg a)) scans)). hint_Addr h = addr)"

definition addressed :: "scan_turn list \<Rightarrow> Agent \<Rightarrow> bool" where
  "addressed scans a \<longleftrightarrow> (\<forall>n \<in> ran (nodes (ag_reg a)). ns_ID n \<noteq> ag_id a \<longrightarrow> from_pool scans a (ns_Addr n))"

interpretation pool: gateway_pool "Nodes srt order" SelfID "from_pool scans"
  "\<lambda>a. slice_sort srt \<and> iter_order (nodes (ag_reg a)) order \<and> addressed scans a"
  for srt order scans
  by unfold_locales (auto simp: addressed_def SelfID_def Nodes_def Snapshot_set)

lemma node_addressed:
  assumes "NewAgent hostname env files parse lookPath config = (files', Some a)" and "node_run (start_sys a t0) evs s"
    and "{h. \<exists>t. (t, Turn (EvHint h)) \<in> set evs} \<subseteq> set (fst (Browse (ag_id a) (cfg_Pool (ag_cfg a)) scans))"
  shows "addressed scans (sy_agent s)" and "from_pool scans (sy_agent s) = from_pool scans a"
    and "gw_ollama (ag_gw (sy_agent s)) = gw_ollama (ag_gw a)"
proof -
  obtain evs' where run: "agent_run (start_sys a t0) evs' s" and heard: "heard evs' = {h. \<exists>t. (t, Turn (EvHint h)) \<in> set evs}"
    using node_run_loops [OF assms(2)] by blast
  have I: "agent_inv a evs' s" using NewAgent_fresh [OF assms(1)] by (intro agent_inv_run [OF run]) simp_all
  then have same: "ag_id (sy_agent s) = ag_id a" "ag_cfg (sy_agent s) = ag_cfg a" by (simp_all add: agent_inv_def)
  then show "from_pool scans (sy_agent s) = from_pool scans a" by (simp add: from_pool_def fun_eq_iff)
  show "addressed scans (sy_agent s)"
    unfolding addressed_def
  proof (intro ballI impI)
    fix n assume n: "n \<in> ran (nodes (ag_reg (sy_agent s)))" "ns_ID n \<noteq> ag_id (sy_agent s)"
    with I have "filed_ok a evs' n" by (auto simp: agent_inv_def)
    with n(2) same obtain h where "h \<in> heard evs'" "hint_Addr h = ns_Addr n"
      by (auto simp: filed_ok_def known_addr_def split: if_splits)
    with assms(3) heard same show "from_pool scans (sy_agent s) (ns_Addr n)" by (auto simp: from_pool_def)
  qed
  show "gw_ollama (ag_gw (sy_agent s)) = gw_ollama (ag_gw a)"
    using node_inv_run [OF assms(2) node_inv_start [OF assms(1)]] by (simp add: node_inv_def parts_kept_def)
qed

section \<open>The agent as a driver\<close>

lemma recruitWorker_known:
  assumes "known addr" and "\<And>u. contacts known g (ur_URL u) \<Longrightarrow> dv_do env u = f u"
  shows "recruitWorker (env\<lparr>dv_do := f\<rparr>) a addr = recruitWorker env a addr"
proof -
  have "contacts known g (''http://'' @ addr @ ''/api/rpc/start'')"
    by (rule contacts_known [of known, OF assms(1)]) (simp add: HasPrefix_def)
  with assms(2) have "dv_do env u = f u" if "ur_URL u = ''http://'' @ addr @ ''/api/rpc/start''" for u using that by simp
  then show ?thesis by (simp add: recruitWorker_def Let_def cong: option.case_cong)
qed

lemma runner_known:
  assumes "\<And>u. contacts known g (ur_URL u) \<Longrightarrow> dv_do env u = f u"
  shows "runners_agree known (agent_runner env now) (agent_runner (env\<lparr>dv_do := f\<rparr>) now)"
proof -
  have "recruit_all (env\<lparr>dv_do := f\<rparr>) a ws = recruit_all env a ws" if "list_all known ws" for a ws
    using that recruitWorker_known [of known _ g env f, OF _ assms]
    by (induction ws) (simp_all split: sum.split)
  then have "EnsureLocal (env\<lparr>dv_do := f\<rparr>) model ws a = EnsureLocal env model ws a" if "list_all known ws" for model ws a
    using that by (simp add: EnsureLocal_def Let_def split: sum.split)
  then show ?thesis
    by (simp add: runners_agree_def agent_runner_def ensure_text_def)
qed

text \<open>
  C22.  Whom a node asks: whatever its loops and the requests it has served before, an inference request
  sends only to this node's Ollama, to its own pipelines, and to addresses that nodes of its pool announced to it.  Answers
  from anywhere else make no difference to what it does and replies.
\<close>

theorem inference_addresses:
  assumes "NewAgent hostname idenv files parse lookPath config = (files', Some a)" and "node_run (start_sys a t0) evs s"
    and "{h. \<exists>t. (t, Turn (EvHint h)) \<in> set evs} \<subseteq> set (fst (Browse (ag_id a) (cfg_Pool (ag_cfg a)) scans))"
    and "platform_ok (ge_platform (sn_gw env))" and "iter_order (nodes (ag_reg (sy_agent s))) (sn_nodes_order env)"
    and "hr_Method r = ''POST''" and "hr_Path r \<in> set inference_paths"
    and "\<And>u. contacts (from_pool scans a) (ag_gw a) (ur_URL u) \<Longrightarrow> ge_do (sn_gw env) u = f u \<and> dv_do (sn_drive env) u = h u"
  shows "serve (env\<lparr>sn_gw := (sn_gw env)\<lparr>ge_do := f\<rparr>, sn_drive := (sn_drive env)\<lparr>dv_do := h\<rparr>\<rparr>) r (sy_agent s)
    = serve env r (sy_agent s)"
proof -
  let ?b = "sy_agent s" and ?srt = "sort_nodes (ge_platform (sn_gw env))"
  let ?sr = "agent_runner (sn_drive env) (sn_now env)" and ?sr' = "agent_runner ((sn_drive env)\<lparr>dv_do := h\<rparr>) (sn_now env)"
  note N = node_addressed [OF assms(1-3)]
  have contacts: "contacts (from_pool scans ?b) (ag_gw ?b) = contacts (from_pool scans a) (ag_gw a)"
    unfolding N(2) by (simp add: contacts_def fun_eq_iff N(3))
  have root: "HasPrefix (hr_Path r) ''/''" using assms(7) by (auto simp: inference_paths_def HasPrefix_def)
  have "handleInference ((agent_gw_env env ?b)\<lparr>ge_do := f\<rparr>) (Some ?sr') r (ag_gw ?b) ?b
      = handleInference (agent_gw_env env ?b) (Some ?sr) r (ag_gw ?b) ?b"
  proof (rule pool.handleInference_known [where srt = ?srt and order = "sn_nodes_order env" and scans = scans and p = ?b])
    show "slice_sort ?srt \<and> iter_order (nodes (ag_reg ?b)) (sn_nodes_order env) \<and> addressed scans ?b"
      using assms(4,5) N(1) by (simp add: platform_ok_def)
    show "runners_agree (from_pool scans ?b) ?sr ?sr'"
      using assms(8) contacts by (intro runner_known [of _ "ag_gw ?b"]) simp
  qed (use assms(4,8) root contacts in \<open>simp_all add: agent_gw_env_def\<close>)
  moreover have "dispatch agent_routes (hr_Method r) (hr_Path r) = Handle Inference"
    using dispatch_inference assms(6,7) by simp
  moreover have "agent_gw_env (env\<lparr>sn_gw := (sn_gw env)\<lparr>ge_do := f\<rparr>, sn_drive := (sn_drive env)\<lparr>dv_do := h\<rparr>\<rparr>) ?b
      = (agent_gw_env env ?b)\<lparr>ge_do := f\<rparr>"
    by (cases "sn_gw env") (simp add: agent_gw_env_def)
  ultimately show ?thesis by (simp add: serve_def handle_def Let_def)
qed

text \<open>A node that has heard of a peer and fetched its state; answers from elsewhere are replaced.\<close>

definition example_scan :: scan_turn where
  "example_scan = \<lparr>turn_cancelled = False, turn_resolver = True, turn_scan = True,
     turn_entries = [\<lparr>se_Text = [''id=peer'', ''name=p'', ''pool=home''], se_AddrIPv4 = [''10.0.0.2''], se_AddrIPv6 = [],
       se_Port = 11444\<rparr>],
     turn_sends = 1, turn_ctx_err = False, turn_wait_cancelled = False\<rparr>"

lemma example_browse: "fst (Browse (ag_id example_agent) ''home'' [example_scan]) = [example_hint]"
proof -
  have "parseEntry \<lparr>se_Text = [''id=peer'', ''name=p'', ''pool=home''], se_AddrIPv4 = [''10.0.0.2''], se_AddrIPv6 = [],
      se_Port = 11444\<rparr> = (example_hint, True)"
    by (simp add: parseEntry_def read_record_def zero_hint_def example_hint_def example_addr_def)
  moreover have "hint_ID example_hint \<noteq> ag_id example_agent" "hint_Pool example_hint = ''home''"
    by (simp_all add: example_hint_def example_agent_def)
  ultimately show ?thesis by (simp add: example_scan_def browseOnce_def)
qed

lemma turns_are_node_run:
  "agent_run s0 evs s \<Longrightarrow> \<forall>(t, e) \<in> set evs. is_turn e \<Longrightarrow> node_run s0 (map (\<lambda>(t, e). (t, Turn e)) evs) s"
  by (induction rule: agent_run.induct) (auto intro!: node_nil node_snoc node_step.turn)

definition mute :: "(upstream_request \<Rightarrow> upstream) \<Rightarrow> upstream_request \<Rightarrow> upstream" where
  "mute answers u = (if contacts (from_pool [example_scan] example_agent) (ag_gw example_agent) (ur_URL u) then answers u
     else Unreachable ''elsewhere'')"

theorem inference_addresses_witness:
  "serve (example_serve\<lparr>sn_nodes_order := [''peer''],
       sn_gw := (sn_gw example_serve)\<lparr>ge_do := mute (ge_do (sn_gw example_serve))\<rparr>,
       sn_drive := (sn_drive example_serve)\<lparr>dv_do := mute (dv_do (sn_drive example_serve))\<rparr>\<rparr>) example_chat polled_agent
     = serve (example_serve\<lparr>sn_nodes_order := [''peer'']\<rparr>) example_chat polled_agent"
proof -
  let ?env = "example_serve\<lparr>sn_nodes_order := [''peer'']\<rparr>" and ?evs = "map (\<lambda>(t, e). (t, Turn e)) example_trace"
  obtain files where new: "NewAgent None (example_id_env [1, 2, 3, 4, 5, 6, 7, 8]) Map.empty
      (\<lambda>u. Some (gw_ollama example_gateway)) (\<lambda>b. None) example_config = (files, Some example_agent)"
    using example_agent_new by blast
  have run: "node_run (start_sys example_agent 0) ?evs (start_sys polled_agent 3)"
    by (rule turns_are_node_run [OF example_run]) (simp add: example_trace_def)
  have "cfg_Pool (ag_cfg example_agent) = ''home''" by (simp add: example_agent_def example_config_def)
  then have hints: "{h. \<exists>t. (t, Turn (EvHint h)) \<in> set ?evs}
      \<subseteq> set (fst (Browse (ag_id example_agent) (cfg_Pool (ag_cfg example_agent)) [example_scan]))"
    by (auto simp: example_browse example_trace_def simp del: Browse.simps)
  have env: "platform_ok (ge_platform (sn_gw ?env))" "hr_Method example_chat = ''POST''" "hr_Path example_chat \<in> set inference_paths"
    "iter_order (nodes (ag_reg (sy_agent (start_sys polled_agent 3)))) (sn_nodes_order ?env)"
    using polled_order
    by (simp_all add: example_serve_def example_gw_env_def example_chat_def inference_paths_def start_sys_def)
  show ?thesis
    using inference_addresses [OF new run hints env(1,4,2,3), of "mute (ge_do (sn_gw ?env))" "mute (dv_do (sn_drive ?env))"]
    by (simp add: mute_def start_sys_def)
qed

end
