(* ===== verification/PoolNet.thy ===== *)
theory PoolNet
  imports AgentServe
begin

text \<open>
  A pool: any number of nodes that start, run and leave, and poll each other (\<open>pool_step\<close>).  Every node is a
  \<open>node_step\<close> system; the only assumption on the network is that whoever answers a poll with a state is a node of
  the pool, at any address, which may be reassigned at any time.  The nodes share one clock.
\<close>

section \<open>The pool\<close>

text \<open>The nodes by identifier, the clock, and what each node has ever filed of itself.\<close>

record pool_sys =
  ps_nodes :: "string \<rightharpoonup> agent_sys"
  ps_clock :: instant
  ps_said :: "string \<Rightarrow> NodeState set"

definition empty_pool :: pool_sys where
  "empty_pool = \<lparr>ps_nodes = Map.empty, ps_clock = 0, ps_said = (\<lambda>k. {})\<rparr>"

datatype pool_event = Joins Agent | Leaves | Runs node_event

text \<open>A poll fails, is answered by something that is no state, or by the handler of some node.\<close>

definition answered :: "(instant \<Rightarrow> string) \<Rightarrow> pool_sys \<Rightarrow> poll_env \<Rightarrow> string \<times> string \<Rightarrow> bool" where
  "answered tt net env tgt \<longleftrightarrow>
     polled_state env tgt = None \<or>
     (\<exists>k s. ps_nodes net k = Some s \<and>
        pe_get env (fst tgt) (''http://'' @ snd tgt @ ''/api/state'')
          = GetStatus (rp_Status (handleState tt (sy_agent s))) (rp_Body (handleState tt (sy_agent s))))"

text \<open>Time stamps are read as they are written; the number of processors is one of Go's; a map is ranged over once.\<close>

fun possible :: "(instant \<Rightarrow> string) \<Rightarrow> pool_sys \<Rightarrow> agent_sys \<Rightarrow> node_event \<Rightarrow> bool" where
  "possible tt net s (Turn (EvRefresh mc get order)) \<longleftrightarrow>
     0 \<le> mc_NumCPU mc \<and> mc_NumCPU mc < 2 ^ 63 \<and> iter_order (mg_pipelines (ag_pipelines (sy_agent s))) order"
| "possible tt net s (Turn (EvPollTurn tgt env)) \<longleftrightarrow> (\<forall>t. pe_pt env (tt t) = Some t) \<and> answered tt net env tgt"
| "possible tt net s e \<longleftrightarrow> True"

definition hear :: "pool_sys \<Rightarrow> string \<Rightarrow> node_event \<Rightarrow> agent_sys \<Rightarrow> string \<Rightarrow> NodeState set" where
  "hear net k e s =
     (case e of
        Turn (EvRefresh mc get order) \<Rightarrow>
          (ps_said net)(k := ps_said net k \<union> set_option (Get (ag_reg (sy_agent s)) (ag_id (sy_agent s))))
      | _ \<Rightarrow> ps_said net)"

inductive pool_step :: "(instant \<Rightarrow> string) \<Rightarrow> pool_sys \<Rightarrow> string \<times> instant \<times> pool_event \<Rightarrow> pool_sys \<Rightarrow> bool" for tt where
  joins: "ps_clock net \<le> t \<Longrightarrow> ps_nodes net (ag_id a) = None \<Longrightarrow>
    NewAgent hostname env files parse lookPath config = (files', Some a) \<Longrightarrow> 0 \<le> cfg_RPCPort config \<Longrightarrow> cfg_RPCPort config < 2 ^ 63 \<Longrightarrow>
    pool_step tt net (ag_id a, t, Joins a) (net\<lparr>ps_nodes := (ps_nodes net)(ag_id a \<mapsto> start_sys a t), ps_clock := t\<rparr>)"
| leaves: "ps_clock net \<le> t \<Longrightarrow>
    pool_step tt net (k, t, Leaves) (net\<lparr>ps_nodes := (ps_nodes net)(k := None), ps_clock := t\<rparr>)"
| runs: "ps_clock net \<le> t \<Longrightarrow> ps_nodes net k = Some s \<Longrightarrow> node_step s (t, e) s' \<Longrightarrow> possible tt net s e \<Longrightarrow>
    pool_step tt net (k, t, Runs e)
      (net\<lparr>ps_nodes := (ps_nodes net)(k \<mapsto> s'), ps_clock := t, ps_said := hear net k e s'\<rparr>)"

inductive pool_run :: "(instant \<Rightarrow> string) \<Rightarrow> pool_sys \<Rightarrow> (string \<times> instant \<times> pool_event) list \<Rightarrow> pool_sys \<Rightarrow> bool" for tt net0 where
  pool_nil: "pool_run tt net0 [] net0"
| pool_snoc: "pool_run tt net0 evs net \<Longrightarrow> pool_step tt net ev net' \<Longrightarrow> pool_run tt net0 (evs @ [ev]) net'"

section \<open>Every entry was said\<close>

text \<open>The fields that the reader of a state writes itself.\<close>

definition relabelled :: "NodeState \<Rightarrow> NodeState \<Rightarrow> bool" where
  "relabelled m n \<longleftrightarrow> n = m\<lparr>ns_Self := ns_Self n, ns_Addr := ns_Addr n, ns_UpdatedAt := ns_UpdatedAt n\<rparr> \<and>
     ns_UpdatedAt m \<le> ns_UpdatedAt n"

definition told :: "pool_sys \<Rightarrow> string \<Rightarrow> NodeState \<Rightarrow> bool" where
  "told net k n \<longleftrightarrow> ns_UpdatedAt n \<le> ps_clock net \<and> (\<exists>m \<in> ps_said net k. relabelled m n)"

definition node_sound :: "pool_sys \<Rightarrow> string \<Rightarrow> agent_sys \<Rightarrow> bool" where
  "node_sound net k s \<longleftrightarrow>
     ag_id (sy_agent s) = k \<and> 0 \<le> cfg_RPCPort (ag_cfg (sy_agent s)) \<and> cfg_RPCPort (ag_cfg (sy_agent s)) < 2 ^ 63 \<and>
     gw_active (ag_gw (sy_agent s)) = 0 \<and> states_named (ag_pipelines (sy_agent s)) \<and> reg_inv (ag_reg (sy_agent s)) \<and>
     (\<forall>j n. nodes (ag_reg (sy_agent s)) j = Some n \<longrightarrow> told net j n)"

definition pool_inv :: "pool_sys \<Rightarrow> bool" where
  "pool_inv net \<longleftrightarrow>
     (\<forall>k s. ps_nodes net k = Some s \<longrightarrow> node_sound net k s) \<and> (\<forall>k. \<forall>m \<in> ps_said net k. ns_ID m = k \<and> node_ok m)"

lemma relabelled_refl [simp]: "relabelled m m"
  by (simp add: relabelled_def)

lemma relabelled_ok: "relabelled m n \<Longrightarrow> node_ok n = node_ok m \<and> ns_ID n = ns_ID m"
  by (cases m; cases n) (auto simp: relabelled_def node_ok_def)

lemma relabelled_again:
  "relabelled m n \<Longrightarrow> ns_UpdatedAt n \<le> t \<Longrightarrow> relabelled m (n\<lparr>ns_Self := b, ns_Addr := addr, ns_UpdatedAt := t\<rparr>)"
  by (cases m; cases n) (simp add: relabelled_def)

lemma told_mono:
  "told net k n \<Longrightarrow> ps_clock net \<le> ps_clock net' \<Longrightarrow> ps_said net k \<subseteq> ps_said net' k \<Longrightarrow> told net' k n"
  by (auto simp: told_def)

lemma node_sound_mono:
  "node_sound net k s \<Longrightarrow> ps_clock net \<le> ps_clock net' \<Longrightarrow> (\<And>j. ps_said net j \<subseteq> ps_said net' j) \<Longrightarrow> node_sound net' k s"
  unfolding node_sound_def using told_mono by blast

lemma hear_mono: "ps_said net j \<subseteq> hear net k e s j"
  by (auto simp: hear_def split: node_event.split agent_event.split)

text \<open>What a node answers is its own entry, and what a poll files was said.\<close>

lemma answered_state:
  assumes "pool_inv net" and "answered tt net env tgt" and "\<And>t. pe_pt env (tt t) = Some t" and "polled_state env tgt = Some st"
    and "ps_clock net \<le> t"
  shows "\<exists>m \<in> ps_said net (ns_ID st). relabelled m (st\<lparr>ns_UpdatedAt := t\<rparr>)"
proof -
  from assms(2,4) obtain k s where s: "ps_nodes net k = Some s" and get: "pe_get env (fst tgt) (''http://'' @ snd tgt @ ''/api/state'')
      = GetStatus (rp_Status (handleState tt (sy_agent s))) (rp_Body (handleState tt (sy_agent s)))"
    by (auto simp: answered_def)
  from assms(4) obtain n where n: "fetchState (pe_pt env) (pe_get env (fst tgt)) (snd tgt) = Some n"
    and st: "st = n\<lparr>ns_Self := False, ns_Addr := snd tgt\<rparr>" by (auto simp: polled_state_def)
  have sound: "node_sound net k s" using assms(1) s by (simp add: pool_inv_def)
  then have k: "ag_id (sy_agent s) = k" by (simp add: node_sound_def)
  obtain n' where n': "Get (ag_reg (sy_agent s)) k = Some n'"
    using n get k by (cases "Get (ag_reg (sy_agent s)) k") (simp_all add: handleState_def text_error_def fetchState_def)
  with sound have told: "told net k n'" by (simp add: node_sound_def Get_def)
  then obtain m where m: "m \<in> ps_said net k" "relabelled m n'" and t: "ns_UpdatedAt n' \<le> ps_clock net" by (auto simp: told_def)
  with assms(1) have "node_ok n'" "ns_ID n' = k" using relabelled_ok [OF m(2)] by (simp_all add: pool_inv_def)
  then have "fetchState (pe_pt env) (pe_get env (fst tgt)) (snd tgt) = Some n'"
    using get n' k by (intro fetchState_json [where tt = tt] assms(3)) (simp_all add: handleState_Some json_reply_def)
  with n st have st: "st = n'\<lparr>ns_Self := False, ns_Addr := snd tgt\<rparr>" by simp
  with \<open>ns_ID n' = k\<close> m(1) relabelled_again [OF m(2), where t = t and b = False and addr = "snd tgt"] t assms(5) show ?thesis
    by (intro bexI [of _ m]) simp_all
qed

text \<open>The registry after a turn, entry by entry.\<close>

lemma turn_told:
  assumes "pool_inv net" and "ps_nodes net k = Some s" and "agent_step s (t, e) s'" and "possible tt net s (Turn e)"
    and "ps_clock net \<le> t" and "net' = net\<lparr>ps_nodes := ps, ps_clock := t, ps_said := hear net k (Turn e) s'\<rparr>"
    and "nodes (ag_reg (sy_agent s')) j = Some n" and "is_turn e"
  shows "told net' j n"
proof -
  have sound: "node_sound net k s" using assms(1,2) by (simp add: pool_inv_def)
  have old: "told net' j n" if "nodes (ag_reg (sy_agent s)) j = Some n" for j n
  proof -
    have "told net j n" using sound that by (simp add: node_sound_def)
    then show ?thesis by (rule told_mono) (simp_all add: assms(5,6) hear_mono)
  qed
  consider (up) m where "turn_state s e = Some m" "ag_reg (sy_agent s') = Upsert t m (ag_reg (sy_agent s))"
    | (prune) "ag_reg (sy_agent s') = pruned t (StaleAfter * 2) (ag_reg (sy_agent s))"
    | (same) "ag_reg (sy_agent s') = ag_reg (sy_agent s)"
    using agent_step_registry [OF assms(3)] by (auto simp: turn_state_def split: agent_event.splits option.splits)
  then show ?thesis
  proof cases
    case up
    have new: "told net' (ns_ID m) (m\<lparr>ns_UpdatedAt := t\<rparr>)"
    proof (cases e)
      case (EvRefresh mc get order)
      with up(1) have "ns_ID m = ag_id (sy_agent s)" by (auto simp: turn_state_def self_state_def Let_def)
      moreover have "ag_id (sy_agent s') = ag_id (sy_agent s)" using agent_step_identity [OF assms(3)] by simp
      moreover have "ag_id (sy_agent s) = k" using sound by (simp add: node_sound_def)
      ultimately have "m\<lparr>ns_UpdatedAt := t\<rparr> \<in> hear net k (Turn e) s' (ns_ID m)"
        by (simp add: hear_def EvRefresh up(2) Get_def Upsert_def)
      then show ?thesis unfolding told_def assms(6) by (auto intro: bexI [of _ "m\<lparr>ns_UpdatedAt := t\<rparr>"])
    next
      case (EvPollTurn tgt env)
      with up(1) have "polled_state env tgt = Some m" by (simp add: turn_state_def split: if_splits)
      with EvPollTurn assms(1,4,5) obtain m' where "m' \<in> ps_said net (ns_ID m)" "relabelled m' (m\<lparr>ns_UpdatedAt := t\<rparr>)"
        using answered_state [of net tt env tgt m t] by auto
      then show ?thesis using hear_mono [of net "ns_ID m" k "Turn e" s'] by (auto simp: told_def assms(6))
    qed (use up(1) in \<open>simp_all add: turn_state_def\<close>)
    with up(2) assms(7) old show ?thesis by (auto simp: Upsert_def split: if_splits)
  next
    case prune
    with assms(7) old show ?thesis by (auto simp: pruned_nodes split: option.splits if_splits)
  next
    case same
    with assms(7) old show ?thesis by simp
  qed
qed

lemma framed_parts:
  assumes "framed a b"
  shows "ag_id b = ag_id a" "ag_cfg b = ag_cfg a" "ag_reg b = ag_reg a" "gw_active (ag_gw b) = gw_active (ag_gw a)"
    and "states_named (ag_pipelines a) \<Longrightarrow> states_named (ag_pipelines b)"
    and "wk_bin (ag_worker b) = wk_bin (ag_worker a)" "mg_bin (ag_pipelines b) = mg_bin (ag_pipelines a)"
  using assms by (auto simp: framed_def gw_framed_def mgr_kept_def worker_kept_def)

lemma node_sound_step:
  assumes "pool_inv net" and "ps_nodes net k = Some s" and "node_step s (t, e) s'" and "possible tt net s e"
    and "ps_clock net \<le> t" and "net' = net\<lparr>ps_nodes := ps, ps_clock := t, ps_said := hear net k e s'\<rparr>"
  shows "node_sound net' k s'"
proof -
  have sound: "node_sound net k s" using assms(1,2) by (simp add: pool_inv_def)
  from assms(3) show ?thesis
  proof (cases rule: node_step_cases)
    case (turn e')
    have "reg_inv (ag_reg (sy_agent s'))"
      using agent_step_registry [OF turn(3)] sound
      by (auto simp: node_sound_def step_inv split: agent_event.splits option.splits)
    moreover have "told net' j n" if "nodes (ag_reg (sy_agent s')) j = Some n" for j n
      using turn_told [OF assms(1,2) turn(3) _ assms(5) _ that turn(2)] assms(4,6) turn(1) by simp
    ultimately show ?thesis
      using sound agent_step_identity [OF turn(3)] turn_parts [OF turn(3,2)] by (simp add: node_sound_def)
  next
    case framed
    have "told net' j n" if "nodes (ag_reg (sy_agent s)) j = Some n" for j n
    proof -
      have "told net j n" using sound that by (simp add: node_sound_def)
      then show ?thesis by (rule told_mono) (simp_all add: assms(5,6) hear_mono)
    qed
    with sound framed_parts [OF framed(2)] show ?thesis by (simp add: node_sound_def)
  qed
qed

lemma said_step:
  assumes "pool_inv net" and "ps_nodes net k = Some s" and "node_step s (t, e) s'" and "possible tt net s e"
    and "m \<in> hear net k e s' j"
  shows "ns_ID m = j \<and> node_ok m"
proof (cases "m \<in> ps_said net j")
  case True
  with assms(1) show ?thesis by (simp add: pool_inv_def)
next
  case False
  with assms(5) obtain mc get order where e: "e = Turn (EvRefresh mc get order)" and j: "j = k"
    and m: "Get (ag_reg (sy_agent s')) (ag_id (sy_agent s')) = Some m"
    by (auto simp: hear_def split: node_event.splits agent_event.splits if_splits)
  have sound: "node_sound net k s" using assms(1,2) by (simp add: pool_inv_def)
  have s': "sy_agent s' = refreshSelf t mc get order (sy_agent s)"
    using assms(3) unfolding e by (auto elim!: node_stepE agent_stepE)
  have m: "m = (self_state mc get order (sy_agent s))\<lparr>ns_UpdatedAt := t\<rparr>"
    using m by (simp add: s' refreshSelf_def Get_def Upsert_def self_state_def Let_def)
  have "node_ok (self_state mc get order (sy_agent s))"
    using sound assms(4) unfolding e node_sound_def by (intro self_state_ok) simp_all
  then have "node_ok m" by (simp add: m node_ok_def)
  moreover have "ns_ID m = k" using sound by (simp add: m self_state_def node_sound_def Let_def)
  ultimately show ?thesis using j by simp
qed

lemma new_node_sound:
  assumes "NewAgent hostname env files parse lookPath config = (files', Some a)"
    and "0 \<le> cfg_RPCPort config" and "cfg_RPCPort config < 2 ^ 63"
  shows "node_sound net (ag_id a) (start_sys a t)"
proof -
  have "cfg_RPCPort (ag_cfg a) = cfg_RPCPort config" and "gw_active (ag_gw a) = 0"
    using assms(1)
    by (auto simp: NewAgent_def default_name_def NewGateway_def Let_def split: prod.splits option.splits if_splits)
  moreover have "ag_reg a = New" "states_named (ag_pipelines a)"
    using NewAgent_fresh [OF assms(1)] NewAgent_parts(2) [OF assms(1)] by (simp_all add: NewManager_def states_named_def)
  ultimately show ?thesis
    using assms(2,3) New_inv by (simp add: node_sound_def start_sys_def) (simp add: New_def)
qed

lemma pool_inv_step:
  assumes "pool_step tt net ev net'" and I: "pool_inv net"
  shows "pool_inv net'"
  using assms(1)
proof cases
  case (joins t a hostname env files parse lookPath config files')
  with I new_node_sound [OF joins(5-7)] node_sound_mono [of net _ _ net'] show ?thesis by (auto simp: pool_inv_def)
next
  case (leaves t k)
  with I node_sound_mono [of net _ _ net'] show ?thesis by (auto simp: pool_inv_def)
next
  case (runs t k s e s')
  have "node_sound net' k s'" by (rule node_sound_step [OF I runs(4-6,3,2)])
  moreover have "node_sound net' j r" if "node_sound net j r" for j r
    using that by (rule node_sound_mono) (simp_all add: runs(2,3) hear_mono)
  moreover have "\<forall>j. \<forall>m \<in> ps_said net' j. ns_ID m = j \<and> node_ok m"
    using said_step [OF I runs(4-6)] by (simp add: runs(2))
  ultimately show ?thesis using I unfolding pool_inv_def by (auto simp: runs(2))
qed

lemma pool_inv_run: "pool_run tt empty_pool evs net \<Longrightarrow> pool_inv net"
proof (induction rule: pool_run.induct)
  case pool_nil
  show ?case by (simp add: pool_inv_def empty_pool_def)
qed (rule pool_inv_step)

section \<open>What was said comes from a refresh\<close>

text \<open>A node that joined: what it was configured with and the binaries it found.\<close>

definition joined :: "(string \<times> instant \<times> pool_event) list \<Rightarrow> string \<Rightarrow> Agent \<Rightarrow> bool" where
  "joined evs k b \<longleftrightarrow>
     (\<exists>t a. (k, t, Joins a) \<in> set evs \<and> ag_cfg a = ag_cfg b \<and> RPCServer (ag_bins a) = wk_bin (ag_worker b) \<and>
        LlamaServer (ag_bins a) = mg_bin (ag_pipelines b))"

definition refreshed :: "(string \<times> instant \<times> pool_event) list \<Rightarrow> string \<Rightarrow> NodeState \<Rightarrow> bool" where
  "refreshed evs k m \<longleftrightarrow>
     (\<exists>t mc get order a. (k, t, Runs (Turn (EvRefresh mc get order))) \<in> set evs \<and> joined evs k a \<and>
        m = (self_state mc get order a)\<lparr>ns_UpdatedAt := t\<rparr>)"

definition trace_inv :: "(string \<times> instant \<times> pool_event) list \<Rightarrow> pool_sys \<Rightarrow> bool" where
  "trace_inv evs net \<longleftrightarrow>
     (\<forall>k s. ps_nodes net k = Some s \<longrightarrow> joined evs k (sy_agent s)) \<and>
     (\<forall>k. \<forall>m \<in> ps_said net k. refreshed evs k m)"

lemma joined_snoc: "joined evs k a \<Longrightarrow> joined (evs @ [ev]) k a"
  by (fastforce simp: joined_def)

lemma refreshed_snoc: "refreshed evs k m \<Longrightarrow> refreshed (evs @ [ev]) k m"
  unfolding refreshed_def using joined_snoc by fastforce

lemma node_step_joined:
  assumes "node_step s (t, e) s'" and "joined evs k (sy_agent s)"
  shows "joined evs k (sy_agent s')"
  using assms(1)
proof (cases rule: node_step_cases)
  case (turn e')
  with assms(2) agent_step_identity [OF turn(3)] turn_parts [OF turn(3,2)] show ?thesis by (simp add: joined_def)
next
  case framed
  with assms(2) framed_parts [OF framed(2)] show ?thesis by (simp add: joined_def)
qed

lemma trace_inv_step:
  assumes "pool_step tt net ev net'" and "trace_inv evs net"
  shows "trace_inv (evs @ [ev]) net'"
proof -
  have old: "joined (evs @ [ev]) k (sy_agent s)" if "ps_nodes net k = Some s" for k s
    using assms(2) that joined_snoc by (auto simp: trace_inv_def)
  have said: "refreshed (evs @ [ev]) k m" if "m \<in> ps_said net k" for k m
    using assms(2) that refreshed_snoc by (auto simp: trace_inv_def)
  from assms(1) show ?thesis
  proof cases
    case (joins t a hostname env files parse lookPath config files')
    then have "joined (evs @ [ev]) (ag_id a) a"
      using NewAgent_parts [OF joins(5)] by (auto simp: joined_def NewWorker_def NewManager_def)
    with joins(2) old said show ?thesis by (auto simp: trace_inv_def start_sys_def)
  next
    case (leaves t k)
    with old said show ?thesis by (auto simp: trace_inv_def)
  next
    case (runs t k s e s')
    have new: "joined (evs @ [ev]) k (sy_agent s')" by (rule node_step_joined [OF runs(5) old [OF runs(4)]])
    have "refreshed (evs @ [ev]) j m" if "m \<in> hear net k e s' j" for j m
    proof (cases "m \<in> ps_said net j")
      case False
      with that obtain mc get order where e: "e = Turn (EvRefresh mc get order)" and j: "j = k"
        and m: "Get (ag_reg (sy_agent s')) (ag_id (sy_agent s')) = Some m"
        by (auto simp: hear_def split: node_event.splits agent_event.splits if_splits)
      have s': "sy_agent s' = refreshSelf t mc get order (sy_agent s)"
        using runs(5) unfolding e by (auto elim!: node_stepE agent_stepE)
      then have "m = (self_state mc get order (sy_agent s))\<lparr>ns_UpdatedAt := t\<rparr>"
        using m by (simp add: refreshSelf_def Get_def Upsert_def self_state_def Let_def)
      with old [OF runs(4)] show ?thesis unfolding refreshed_def runs(1) e j by fastforce
    qed (rule said)
    with runs(2) old new show ?thesis by (auto simp: trace_inv_def)
  qed
qed

lemma trace_inv_run: "pool_run tt empty_pool evs net \<Longrightarrow> trace_inv evs net"
proof (induction rule: pool_run.induct)
  case pool_nil
  show ?case by (simp add: trace_inv_def empty_pool_def)
qed (rule trace_inv_step)

lemma entry_refreshed:
  assumes "pool_run tt empty_pool evs net" and "ps_nodes net k = Some s"
    and "slice_sort srt" and "iter_order (nodes (ag_reg (sy_agent s))) order" and "n \<in> set (Nodes srt order (sy_agent s))"
  obtains m where "refreshed evs (ns_ID n) m" and "relabelled m n"
proof -
  have "pool_inv net" by (rule pool_inv_run [OF assms(1)])
  then have sound: "node_sound net k s" using assms(2) by (simp add: pool_inv_def)
  from assms(5) obtain j where j: "nodes (ag_reg (sy_agent s)) j = Some n"
    using Snapshot_set [OF assms(3,4)] by (auto simp: Nodes_def ran_def)
  with sound have "told net j n" "ns_ID n = j" by (auto simp: node_sound_def reg_inv_ID)
  then obtain m where "m \<in> ps_said net (ns_ID n)" "relabelled m n" by (auto simp: told_def)
  with trace_inv_run [OF assms(1)] have "refreshed evs (ns_ID n) m" by (simp add: trace_inv_def)
  then show thesis using \<open>relabelled m n\<close> by (rule that)
qed

text \<open>What an entry shows of the start and of a refresh of its node.\<close>

definition vouched :: "(string \<times> instant \<times> pool_event) list \<Rightarrow> NodeState \<Rightarrow> Agent \<Rightarrow> (string \<Rightarrow> http_get) \<Rightarrow> bool" where
  "vouched evs n a get \<longleftrightarrow>
     (\<exists>t0. (ns_ID n, t0, Joins a) \<in> set evs) \<and>
     (\<exists>t mc order. (ns_ID n, t, Runs (Turn (EvRefresh mc get order))) \<in> set evs \<and> t \<le> ns_UpdatedAt n)"

lemma entry_vouched:
  assumes "refreshed evs (ns_ID n) m" and "relabelled m n"
  obtains a get where "vouched evs n a get" and "ns_Sharing n = cfg_Share (ag_cfg a)"
    and "ns_OllamaOK n = os_OK (ProbeOllama get (cfg_OllamaURL (ag_cfg a)))"
    and "ns_Models n = os_Models (ProbeOllama get (cfg_OllamaURL (ag_cfg a)))"
    and "ss_Worker (ns_Split n) = (RPCServer (ag_bins a) \<noteq> [])" and "ss_Driver (ns_Split n) = (LlamaServer (ag_bins a) \<noteq> [])"
proof -
  from assms(1) obtain t mc get order b t0 a where ev: "(ns_ID n, t, Runs (Turn (EvRefresh mc get order))) \<in> set evs"
    "(ns_ID n, t0, Joins a) \<in> set evs" and a: "ag_cfg a = ag_cfg b" "RPCServer (ag_bins a) = wk_bin (ag_worker b)"
      "LlamaServer (ag_bins a) = mg_bin (ag_pipelines b)"
    and m: "m = (self_state mc get order b)\<lparr>ns_UpdatedAt := t\<rparr>" by (auto simp: refreshed_def joined_def)
  note fields = assms(2) [unfolded relabelled_def m]
  have "ns_UpdatedAt m \<le> ns_UpdatedAt n" using assms(2) by (simp add: relabelled_def)
  then have "vouched evs n a get" using ev by (auto simp: vouched_def m)
  then show thesis
    by (rule that; insert fields; cases n; simp add: self_state_def worker_Available_def Available_def a Let_def)
qed

text \<open>
  C4.  No request is routed on hearsay: in a pool of any nodes that join, leave, run and poll each other in any
  order, the node a gateway picks is one that was started to share, and whose own Ollama answered its probe and
  listed the model at some refresh of that node, before the entry that was picked was filed, less than twenty
  seconds ago.
\<close>

theorem pool_routing_authentic:
  assumes "pool_run tt empty_pool evs net" and "ps_nodes net k = Some s"
    and "slice_sort srt" and "iter_order (nodes (ag_reg (sy_agent s))) order"
    and "Pick now names (Nodes srt order (sy_agent s)) model = Inr n"
  shows "\<exists>t0 a t mc get rorder. (ns_ID n, t0, Joins a) \<in> set evs \<and> (ns_ID n, t, Runs (Turn (EvRefresh mc get rorder))) \<in> set evs \<and>
    t \<le> ns_UpdatedAt n \<and> now - ns_UpdatedAt n < StaleAfter \<and> cfg_Share (ag_cfg a) \<and>
    os_OK (ProbeOllama get (cfg_OllamaURL (ag_cfg a))) \<and>
    (\<exists>md \<in> set (os_Models (ProbeOllama get (cfg_OllamaURL (ag_cfg a)))). model_matches (model_Name md) model)"
proof -
  note P = Pick_eligible [OF assms(5)]
  obtain m where "refreshed evs (ns_ID n) m" "relabelled m n" by (rule entry_refreshed [OF assms(1-4) P(1)])
  then obtain a get where v: "vouched evs n a get" and n: "ns_Sharing n = cfg_Share (ag_cfg a)"
    "ns_OllamaOK n = os_OK (ProbeOllama get (cfg_OllamaURL (ag_cfg a)))"
    "ns_Models n = os_Models (ProbeOllama get (cfg_OllamaURL (ag_cfg a)))" by (rule entry_vouched)
  from P(2,3) n have "cfg_Share (ag_cfg a) \<and> os_OK (ProbeOllama get (cfg_OllamaURL (ag_cfg a))) \<and> now - ns_UpdatedAt n < StaleAfter \<and>
      (\<exists>md \<in> set (os_Models (ProbeOllama get (cfg_OllamaURL (ag_cfg a)))). model_matches (model_Name md) model)"
    by (simp add: eligible_def HasModel_iff)
  with v show ?thesis unfolding vouched_def by blast
qed

text \<open>
  C5.  No plan on hearsay either: the driver a gateway plans with is a node of the pool that was started to share and had
  found a \<^verbatim>\<open>llama-server\<close>, and whose own Ollama listed the model; each worker it recruits was started to
  share and had found an \<^verbatim>\<open>rpc-server\<close>.
\<close>

theorem pool_plan_authentic:
  assumes "pool_run tt empty_pool evs net" and "ps_nodes net k = Some s"
    and "platform_ok P" and "iter_order (nodes (ag_reg (sy_agent s))) order"
    and "PlanSplit P now (Nodes (sort_nodes P) order (sy_agent s)) model = Inr (Some p)"
  shows "(\<exists>a get. vouched evs (plan_Driver p) a get \<and> cfg_Share (ag_cfg a) \<and> LlamaServer (ag_bins a) \<noteq> [] \<and>
      (\<exists>md \<in> set (os_Models (ProbeOllama get (cfg_OllamaURL (ag_cfg a)))). model_matches (model_Name md) model)) \<and>
    (\<forall>w \<in> set (plan_Workers p). \<exists>a get. vouched evs w a get \<and> cfg_Share (ag_cfg a) \<and> RPCServer (ag_bins a) \<noteq> [])"
proof (intro conjI ballI)
  let ?ns = "Nodes (sort_nodes P) order (sy_agent s)"
  have srt: "slice_sort (sort_nodes P)" using assms(3) by (simp add: platform_ok_def)
  note D = PlanSplit_SomeD [OF assms(5)] and E = PlanSplit_eligible [OF assms(3,5)]
  obtain m where "refreshed evs (ns_ID (plan_Driver p)) m" "relabelled m (plan_Driver p)"
    by (rule entry_refreshed [OF assms(1,2) srt assms(4) E(1)])
  then obtain a get where v: "vouched evs (plan_Driver p) a get" and n: "ns_Sharing (plan_Driver p) = cfg_Share (ag_cfg a)"
    "ns_Models (plan_Driver p) = os_Models (ProbeOllama get (cfg_OllamaURL (ag_cfg a)))"
    "ss_Driver (ns_Split (plan_Driver p)) = (LlamaServer (ag_bins a) \<noteq> [])" by (rule entry_vouched)
  have "ss_Driver (ns_Split (plan_Driver p))" using plan_driver_mem(4) [OF assms(3) D(5)] D(1) by simp
  with v n E(2,3) show "\<exists>a get. vouched evs (plan_Driver p) a get \<and> cfg_Share (ag_cfg a) \<and> LlamaServer (ag_bins a) \<noteq> [] \<and>
      (\<exists>md \<in> set (os_Models (ProbeOllama get (cfg_OllamaURL (ag_cfg a)))). model_matches (model_Name md) model)"
    by (intro exI [of _ a] exI [of _ get]) (simp add: eligible_def HasModel_iff)
  fix w assume w: "w \<in> set (plan_Workers p)"
  then have "w \<in> set ?ns" "eligible now w" "ss_Worker (ns_Split w)"
    using D(2) recruited_workers [of P now ?ns model] set_worker_candidates [OF assms(3)] by auto
  moreover obtain m where "refreshed evs (ns_ID w) m" "relabelled m w"
    by (rule entry_refreshed [OF assms(1,2) srt assms(4) \<open>w \<in> set ?ns\<close>])
  then obtain b bget where "vouched evs w b bget" "ns_Sharing w = cfg_Share (ag_cfg b)"
    "ss_Worker (ns_Split w) = (RPCServer (ag_bins b) \<noteq> [])" by (rule entry_vouched)
  ultimately show "\<exists>a get. vouched evs w a get \<and> cfg_Share (ag_cfg a) \<and> RPCServer (ag_bins a) \<noteq> []"
    by (auto simp: eligible_def)
qed

section \<open>Two nodes\<close>

text \<open>Both start and refresh; then the second hears of the first and polls it.\<close>

lemma pool_run_node:
  assumes "pool_run tt net0 evs net" and "ps_nodes net k = Some s" and "node_step s (t, e) s'" and "possible tt net s e" and "ps_clock net \<le> t"
  obtains net' where "pool_run tt net0 (evs @ [(k, t, Runs e)]) net'" and "ps_nodes net' = (ps_nodes net)(k \<mapsto> s')" and "ps_clock net' = t"
  by (rule that [OF pool_snoc [OF assms(1) runs [OF assms(5,2,3,4)]]]) simp_all

lemma pool_run_join:
  assumes "pool_run tt net0 evs net" and "\<exists>files'. NewAgent hostname env files parse lookPath config = (files', Some a)"
    and "ps_nodes net (ag_id a) = None" and "0 \<le> cfg_RPCPort config" and "cfg_RPCPort config < 2 ^ 63" and "ps_clock net \<le> t"
  obtains net' where "pool_run tt net0 (evs @ [(ag_id a, t, Joins a)]) net'"
    and "ps_nodes net' = (ps_nodes net)(ag_id a \<mapsto> start_sys a t)" and "ps_clock net' = t"
proof -
  from assms(2) obtain files' where "NewAgent hostname env files parse lookPath config = (files', Some a)" by blast
  from that [OF pool_snoc [OF assms(1) joins [OF assms(6,3) this assms(4,5)]]] show thesis by simp
qed

definition state_of :: "Agent \<Rightarrow> machine \<Rightarrow> (string \<Rightarrow> http_get) \<Rightarrow> NodeState" where
  "state_of a mc get = self_state mc get [] a"

definition polls :: "instant \<Rightarrow> Agent \<Rightarrow> poll_env" where
  "polls t a = \<lparr>pe_now = (\<lambda>k. t), pe_get = (\<lambda>k u. GetStatus (rp_Status (handleState Itoa a)) (rp_Body (handleState Itoa a))),
     pe_pt = example_pt\<rparr>"

definition two_trace :: "Agent \<Rightarrow> machine \<Rightarrow> (string \<Rightarrow> http_get) \<Rightarrow> Agent \<Rightarrow> machine \<Rightarrow> (string \<Rightarrow> http_get) \<Rightarrow> PeerHint
    \<Rightarrow> (string \<times> instant \<times> pool_event) list" where
  "two_trace a ma ga b mb gb h =
     [(ag_id a, 0, Joins a), (ag_id a, 1, Runs (Turn (EvRefresh ma ga []))),
      (ag_id b, 2, Joins b), (ag_id b, 3, Runs (Turn (EvRefresh mb gb []))),
      (ag_id b, 4, Runs (Turn (EvHint h))), (ag_id b, 5, Runs (Turn (EvPollStart [ag_id a]))),
      (ag_id b, 6, Runs (Turn (EvPollTurn (ag_id a, hint_Addr h) (polls 6 (refreshSelf 1 ma ga [] a)))))]"

text \<open>A fresh node with one of Go's numbers of processors.\<close>

definition starts :: "Agent \<Rightarrow> machine \<Rightarrow> bool" where
  "starts a mc \<longleftrightarrow>
     (\<exists>hostname env files parse lookPath config files'. NewAgent hostname env files parse lookPath config = (files', Some a) \<and>
        0 \<le> cfg_RPCPort config \<and> cfg_RPCPort config < 2 ^ 63) \<and> 0 \<le> mc_NumCPU mc \<and> mc_NumCPU mc < 2 ^ 63"

lemma starts_pipelines: "starts a mc \<Longrightarrow> mg_pipelines (ag_pipelines a) = Map.empty"
  unfolding starts_def using NewAgent_parts(2) by (fastforce simp: NewManager_def)

lemma starts_fresh: "starts a mc \<Longrightarrow> ag_reg a = New \<and> ag_addrs a = Map.empty"
  unfolding starts_def using NewAgent_fresh by blast

lemma starts_joins:
  assumes "starts a mc" and "pool_run tt net0 evs net" and "ps_nodes net (ag_id a) = None" and "ps_clock net \<le> t"
  obtains net' where "pool_run tt net0 (evs @ [(ag_id a, t, Joins a)]) net'"
    and "ps_nodes net' = (ps_nodes net)(ag_id a \<mapsto> start_sys a t)" and "ps_clock net' = t"
proof -
  from assms(1) obtain hostname env files parse lookPath config where
    "\<exists>files'. NewAgent hostname env files parse lookPath config = (files', Some a)" "0 \<le> cfg_RPCPort config" "cfg_RPCPort config < 2 ^ 63"
    unfolding starts_def by blast
  from pool_run_join [OF assms(2) this(1) assms(3) this(2,3) assms(4)] that show thesis .
qed

lemma starts_refreshes:
  assumes "starts a mc" and "pool_run tt net0 evs net" and "ps_nodes net (ag_id a) = Some (start_sys a since)" and "since \<le> t"
    and "ps_clock net \<le> t"
  obtains net' where "pool_run tt net0 (evs @ [(ag_id a, t, Runs (Turn (EvRefresh mc get [])))]) net'"
    and "ps_nodes net' = (ps_nodes net)(ag_id a \<mapsto> start_sys (refreshSelf t mc get [] a) t)" and "ps_clock net' = t"
proof -
  have "node_step (start_sys a since) (t, Turn (EvRefresh mc get [])) (start_sys (refreshSelf t mc get [] a) t)"
    using agent_step.refresh [of "start_sys a since" t] assms(4) by (intro node_step.turn) (simp_all add: start_sys_def)
  moreover have "possible tt net (start_sys a since) (Turn (EvRefresh mc get []))"
    using assms(1) starts_pipelines [OF assms(1)] by (simp add: starts_def iter_order_def start_sys_def)
  ultimately show thesis using pool_run_node [OF assms(2,3) _ _ assms(5)] that by blast
qed

lemma starts_state_ok: "starts a mc \<Longrightarrow> node_ok (state_of a mc get)"
proof -
  assume a: "starts a mc"
  then obtain hostname env files parse lookPath config files' where
    "NewAgent hostname env files parse lookPath config = (files', Some a)" "0 \<le> cfg_RPCPort config" "cfg_RPCPort config < 2 ^ 63"
    unfolding starts_def by blast
  from new_node_sound [OF this, of empty_pool 0] have "node_sound empty_pool (ag_id a) (start_sys a 0)" .
  with a starts_pipelines [OF a] show ?thesis
    unfolding state_of_def
    by (intro self_state_ok) (simp_all add: starts_def node_sound_def start_sys_def iter_order_def states_named_def)
qed

lemma polls_state:
  assumes "starts a mc"
  shows "polled_state (polls t (refreshSelf t0 mc get [] a)) (k, addr)
    = Some ((state_of a mc get)\<lparr>ns_UpdatedAt := t0, ns_Self := False, ns_Addr := addr\<rparr>)"
proof -
  let ?a = "refreshSelf t0 mc get [] a" and ?st = "(state_of a mc get)\<lparr>ns_UpdatedAt := t0\<rparr>"
  have "Get (ag_reg ?a) (ag_id ?a) = Some ?st"
    by (simp add: state_of_def refreshSelf_def Get_def Upsert_def self_state_def Let_def)
  moreover have "node_ok ?st" using starts_state_ok [OF assms] by (simp add: node_ok_def)
  ultimately have "fetchState example_pt (pe_get (polls t ?a) k) addr = Some ?st"
    by (intro fetchState_json [where tt = Itoa]) (simp_all add: example_pt_Itoa polls_def handleState_Some json_reply_def)
  then show ?thesis by (simp add: polled_state_def polls_def)
qed

lemma two_started:
  assumes "starts a ma" and "starts b mb" and "ag_id a \<noteq> ag_id b"
  obtains net where "pool_run Itoa empty_pool (take 4 (two_trace a ma ga b mb gb h)) net" and "ps_clock net = 3"
    and "ps_nodes net = [ag_id a \<mapsto> start_sys (refreshSelf 1 ma ga [] a) 1, ag_id b \<mapsto> start_sys (refreshSelf 3 mb gb [] b) 3]"
proof -
  let ?a1 = "refreshSelf 1 ma ga [] a" and ?e1 = "(ag_id a, 0, Joins a)" and ?e2 = "(ag_id a, 1, Runs (Turn (EvRefresh ma ga [])))"
  obtain n1 where n1: "pool_run Itoa empty_pool ([] @ [?e1]) n1" "ps_nodes n1 = [ag_id a \<mapsto> start_sys a 0]" "ps_clock n1 = 0"
    by (rule starts_joins [OF assms(1) pool_nil, where t = 0 and tt = Itoa and net = empty_pool]) (simp_all add: empty_pool_def)
  obtain n2 where n2: "pool_run Itoa empty_pool (([] @ [?e1]) @ [?e2]) n2" "ps_nodes n2 = [ag_id a \<mapsto> start_sys ?a1 1]" "ps_clock n2 = 1"
    by (rule starts_refreshes [OF assms(1) n1(1), where since = 0 and t = 1 and get = ga]) (simp_all add: n1)
  define e2 :: "(string \<times> instant \<times> pool_event) list" where "e2 = ([] @ [?e1]) @ [?e2]"
  obtain n3 where n3: "pool_run Itoa empty_pool (e2 @ [(ag_id b, 2, Joins b)]) n3"
    "ps_nodes n3 = [ag_id a \<mapsto> start_sys ?a1 1, ag_id b \<mapsto> start_sys b 2]" "ps_clock n3 = 2"
    by (rule starts_joins [OF assms(2) n2(1) [folded e2_def], where t = 2]) (use assms(3) in \<open>simp_all add: n2\<close>)
  obtain n4 where n4: "pool_run Itoa empty_pool ((e2 @ [(ag_id b, 2, Joins b)]) @ [(ag_id b, 3, Runs (Turn (EvRefresh mb gb [])))]) n4"
    "ps_nodes n4 = [ag_id a \<mapsto> start_sys ?a1 1, ag_id b \<mapsto> start_sys (refreshSelf 3 mb gb [] b) 3]" "ps_clock n4 = 3"
    by (rule starts_refreshes [OF assms(2) n3(1), where since = 2 and t = 3 and get = gb]) (simp_all add: n3)
  then show thesis by (intro that) (simp_all add: two_trace_def e2_def)
qed

lemma two_nodes:
  assumes "starts a ma" and "starts b mb" and "ag_id a \<noteq> ag_id b" and "hint_ID h = ag_id a"
  obtains net s where "pool_run Itoa empty_pool (two_trace a ma ga b mb gb h) net" and "ps_nodes net (ag_id b) = Some s"
    and "ag_reg (sy_agent s) = Upsert 6 ((state_of a ma ga)\<lparr>ns_UpdatedAt := 1, ns_Self := False, ns_Addr := hint_Addr h\<rparr>)
      (Upsert 3 (state_of b mb gb) New)"
proof -
  let ?a1 = "refreshSelf 1 ma ga [] a" and ?b1 = "refreshSelf 3 mb gb [] b"
  let ?b2 = "collectHint h ?b1" and ?tgt = "(ag_id a, hint_Addr h)"
  let ?s5 = "\<lparr>sy_agent = ?b2, sy_targets = [?tgt], sy_clock = 5\<rparr>" and ?b6 = "poll_peer (polls 6 ?a1) ?tgt ?b2"
  define e4 where "e4 = take 4 (two_trace a ma ga b mb gb h)"
  obtain n4 where n4: "pool_run Itoa empty_pool e4 n4" "ps_nodes n4 = [ag_id a \<mapsto> start_sys ?a1 1, ag_id b \<mapsto> start_sys ?b1 3]" "ps_clock n4 = 3"
    unfolding e4_def by (rule two_started [OF assms(1-3)])
  have "node_step (start_sys ?b1 3) (4, Turn (EvHint h)) (start_sys ?b2 4)"
    using agent_step.hint [of "start_sys ?b1 3" 4 h] by (intro node_step.turn) (simp_all add: start_sys_def)
  then obtain n5 where n5: "pool_run Itoa empty_pool (e4 @ [(ag_id b, 4, Runs (Turn (EvHint h)))]) n5"
    "ps_nodes n5 = [ag_id a \<mapsto> start_sys ?a1 1, ag_id b \<mapsto> start_sys ?b2 4]" "ps_clock n5 = 4"
    by (rule pool_run_node [where k = "ag_id b", OF n4(1), rotated 1]) (simp_all add: n4)
  have addrs: "ag_addrs ?b2 = [ag_id a \<mapsto> hint_Addr h]"
    using starts_fresh [OF assms(2)] assms(4) by (simp add: collectHint_def refreshSelf_def)
  then have "poll_targets [ag_id a] ?b2 = [?tgt]" by (simp add: poll_targets_def List.map_filter_simps)
  then have "node_step (start_sys ?b2 4) (5, Turn (EvPollStart [ag_id a])) ?s5"
    using poll_start [of "start_sys ?b2 4" 5 "[ag_id a]"] addrs by (intro node_step.turn) (simp_all add: start_sys_def iter_order_def)
  then obtain n6 where n6: "pool_run Itoa empty_pool ((e4 @ [(ag_id b, 4, Runs (Turn (EvHint h)))]) @ [(ag_id b, 5, Runs (Turn (EvPollStart [ag_id a])))]) n6"
    "ps_nodes n6 = [ag_id a \<mapsto> start_sys ?a1 1, ag_id b \<mapsto> ?s5]" "ps_clock n6 = 5"
    by (rule pool_run_node [where k = "ag_id b", OF n5(1), rotated 1]) (simp_all add: n5)
  have "node_step ?s5 (6, Turn (EvPollTurn ?tgt (polls 6 ?a1))) (start_sys ?b6 6)"
    using poll_turn [of ?s5 6 ?tgt "[]" "polls 6 ?a1"] by (intro node_step.turn) (simp_all add: start_sys_def polls_def)
  moreover have "possible Itoa n6 ?s5 (Turn (EvPollTurn ?tgt (polls 6 ?a1)))"
    using assms(3) n6(2) by (auto simp: answered_def polls_def example_pt_Itoa start_sys_def)
  ultimately obtain net where net: "pool_run Itoa empty_pool (((e4 @ [(ag_id b, 4, Runs (Turn (EvHint h)))]) @ [(ag_id b, 5, Runs (Turn (EvPollStart [ag_id a])))])
      @ [(ag_id b, 6, Runs (Turn (EvPollTurn ?tgt (polls 6 ?a1))))]) net"
    "ps_nodes net = [ag_id a \<mapsto> start_sys ?a1 1, ag_id b \<mapsto> start_sys ?b6 6]"
    by (rule pool_run_node [where k = "ag_id b", OF n6(1), rotated 1]) (simp_all add: n6)
  have "ag_id a \<noteq> ag_id ?b2" using assms(3) by (simp add: collectHint_def refreshSelf_def)
  then have "ag_reg ?b6 = Upsert 6 ((state_of a ma ga)\<lparr>ns_UpdatedAt := 1, ns_Self := False, ns_Addr := hint_Addr h\<rparr>) (ag_reg ?b2)"
    by (simp add: poll_peer_def polls_state [OF assms(1)]) (simp add: polls_def)
  moreover have "ag_reg ?b2 = Upsert 3 (state_of b mb gb) New"
    using starts_fresh [OF assms(2)] by (simp add: collectHint_def refreshSelf_def state_of_def)
  ultimately show thesis
    using net by (intro that [of net "start_sys ?b6 6"]) (simp_all add: two_trace_def e4_def start_sys_def)
qed

text \<open>A node with a \<^verbatim>\<open>llama-server\<close> and a model too big for it, and a bigger one with an \<^verbatim>\<open>rpc-server\<close>.\<close>

definition planner :: Agent where
  "planner = example_agent\<lparr>ag_id := ''0807060504030201'', ag_bins := \<lparr>RPCServer = [], LlamaServer = ''llama-server''\<rparr>,
     ag_pipelines := NewManager ''llama-server'' 11500\<rparr>"

lemma planner_identity: "hex_EncodeToString [8, 7, 6, 5, 4, 3, 2, 1] = ''0807060504030201''"
  by code_simp

lemma planner_new:
  "\<exists>files. NewAgent None (example_id_env [8, 7, 6, 5, 4, 3, 2, 1]) Map.empty
     (\<lambda>u. Some (gw_ollama example_gateway)) (\<lambda>b. if b = ''llama-server'' then Some b else None) example_config = (files, Some planner)"
  by (simp add: NewAgent_def default_name_def loadOrCreateID_def example_id_env_def stored_id_def Let_def
      NewGateway_def Detect_def resolve_def planner_def example_agent_def example_config_def example_gateway_def
      planner_identity [simplified])

definition machine_of :: "u64 \<Rightarrow> machine" where
  "machine_of free = example_machine\<lparr>mc_Memory := Some (free, free), mc_nvidia := None\<rparr>"

definition ollama_of :: "Model list \<Rightarrow> string \<Rightarrow> http_get" where
  "ollama_of ms url =
     (if url = ''u/api/version'' then GetStatus 200 (encode_json (JObj [(''version'', JStr ''0.5.1'')]))
      else if url = ''u/api/tags'' then GetStatus 200 (encode_json (models_json (map tag_json ms)))
      else GetStatus 200 (encode_json (models_json (map (\<lambda>l. JObj [(''name'', JStr l)]) []))))"

lemma ollama_of_probe:
  "ProbeOllama (ollama_of ms) ''u'' = \<lparr>os_OK = True, os_Version = ''0.5.1'', os_Models = ms, os_Loaded = []\<rparr>"
  by (rule conjunct1 [OF ProbeOllama_answers [where get' = "\<lambda>u. GetFailed"]]) (simp_all add: ollama_of_def del: encode_json.simps)

abbreviation lender_ollama :: "string \<Rightarrow> http_get" where
  "lender_ollama \<equiv> ollama_of [example_model ''m'' 7]"

abbreviation planner_ollama :: "string \<Rightarrow> http_get" where
  "planner_ollama \<equiv> ollama_of [example_model ''big'' (40 * gib)]"

definition lender_hint :: PeerHint where
  "lender_hint = \<lparr>hint_ID = ag_id lender, hint_Name = ''box'', hint_Pool = ''home'', hint_Addr = example_addr\<rparr>"

definition lender_trace :: "(string \<times> instant \<times> pool_event) list" where
  "lender_trace = two_trace lender (machine_of (64 * gib)) lender_ollama planner (machine_of (16 * gib)) planner_ollama lender_hint"

definition lender_entry :: NodeState where
  "lender_entry = (state_of lender (machine_of (64 * gib)) lender_ollama)\<lparr>ns_Self := False, ns_Addr := example_addr, ns_UpdatedAt := 6\<rparr>"

definition planner_entry :: NodeState where
  "planner_entry = (state_of planner (machine_of (16 * gib)) planner_ollama)\<lparr>ns_UpdatedAt := 3\<rparr>"

lemma pair_ids [simp]: "ag_id lender = ''0102030405060708''" "ag_id planner = ''0807060504030201''"
  by (simp_all add: lender_def planner_def example_agent_def)

lemma pair_cfg [simp]: "ag_cfg lender = example_config" "ag_cfg planner = example_config"
  by (simp_all add: lender_def planner_def example_agent_def)

lemma lender_entry_fields [simp]:
  "ns_ID lender_entry = ''0102030405060708''" "ns_Self lender_entry = False" "ns_Sharing lender_entry" "ns_OllamaOK lender_entry"
  "ns_Models lender_entry = [example_model ''m'' 7]" "ss_Worker (ns_Split lender_entry)" "\<not> ss_Driver (ns_Split lender_entry)"
  "ns_UpdatedAt lender_entry = 6" "res_MemAvailable (ns_Resources lender_entry) = 64 * gib" "ns_Name lender_entry = ''box''"
  by (simp_all add: lender_entry_def state_of_def self_state_def Let_def ollama_of_probe example_config_def Collect_def
      machine_of_def example_machine_def worker_Available_def Available_def lender_def NewWorker_def example_agent_def NewManager_def)

lemma planner_entry_fields [simp]:
  "ns_ID planner_entry = ''0807060504030201''" "ns_Self planner_entry" "ns_Sharing planner_entry" "ns_OllamaOK planner_entry"
  "ns_Models planner_entry = [example_model ''big'' (40 * gib)]" "\<not> ss_Worker (ns_Split planner_entry)" "ss_Driver (ns_Split planner_entry)"
  "ns_UpdatedAt planner_entry = 3" "res_MemAvailable (ns_Resources planner_entry) = 16 * gib" "ns_Name planner_entry = ''box''"
  by (simp_all add: planner_entry_def state_of_def self_state_def Let_def ollama_of_probe example_config_def Collect_def
      machine_of_def example_machine_def worker_Available_def Available_def planner_def NewWorker_def example_agent_def NewManager_def)

lemma pair_starts: "starts lender (machine_of m)" "starts planner (machine_of m')"
proof -
  have port: "0 \<le> cfg_RPCPort example_config" "cfg_RPCPort example_config < 2 ^ 63" by (simp_all add: example_config_def)
  have cpus: "0 \<le> mc_NumCPU (machine_of m)" "mc_NumCPU (machine_of m) < 2 ^ 63" for m
    by (simp_all add: machine_of_def example_machine_def)
  show "starts lender (machine_of m)" "starts planner (machine_of m')"
    using lender_new planner_new port cpus unfolding starts_def by blast+
qed

lemma lender_run:
  obtains net s where "pool_run Itoa empty_pool lender_trace net" and "ps_nodes net (ag_id planner) = Some s"
    and "iter_order (nodes (ag_reg (sy_agent s))) [ag_id lender, ag_id planner]"
    and "Nodes insertionSort [ag_id lender, ag_id planner] (sy_agent s) = [planner_entry, lender_entry]"
proof -
  obtain net s where run: "pool_run Itoa empty_pool lender_trace net" and s: "ps_nodes net (ag_id planner) = Some s"
    and reg: "ag_reg (sy_agent s) = Upsert 6 ((state_of lender (machine_of (64 * gib)) lender_ollama)
      \<lparr>ns_UpdatedAt := 1, ns_Self := False, ns_Addr := hint_Addr lender_hint\<rparr>)
      (Upsert 3 (state_of planner (machine_of (16 * gib)) planner_ollama) New)"
    unfolding lender_trace_def by (rule two_nodes [OF pair_starts, where h = lender_hint]) (simp_all add: lender_hint_def)
  have ids: "ns_ID (state_of lender mc get) = ag_id lender" "ns_ID (state_of planner mc get) = ag_id planner" for mc get
    by (simp_all add: state_of_def self_state_def Let_def)
  have nodes: "nodes (ag_reg (sy_agent s)) = [ag_id planner \<mapsto> planner_entry, ag_id lender \<mapsto> lender_entry]"
    by (simp add: reg Upsert_def New_def ids planner_entry_def lender_entry_def lender_hint_def)
  then have "iter_order (nodes (ag_reg (sy_agent s))) [ag_id lender, ag_id planner]" by (auto simp: iter_order_def)
  moreover have "Nodes insertionSort [ag_id lender, ag_id planner] (sy_agent s) = [planner_entry, lender_entry]"
    by (simp add: Nodes_def Snapshot_def map_values_def List.map_filter_simps nodes insertionSort_def snapshot_less_def)
  ultimately show thesis by (rule that [OF run s])
qed

lemma insertion_sorts: "slice_sort insertionSort"
  using example_platform_ok by (simp add: platform_ok_def example_platform_def)

lemma lender_trace_joins: "(k, t0, Joins a) \<in> set lender_trace \<Longrightarrow> (k = ag_id lender \<and> a = lender) \<or> (k = ag_id planner \<and> a = planner)"
  by (auto simp: lender_trace_def two_trace_def)

text \<open>The planner routes the small model to the lender, and plans the big one over both.\<close>

theorem pool_routing_authentic_witness:
  "\<exists>net s t get mc rorder. pool_run Itoa empty_pool lender_trace net \<and> ps_nodes net (ag_id planner) = Some s \<and>
     Pick 7 [] (Nodes insertionSort [ag_id lender, ag_id planner] (sy_agent s)) ''m'' = Inr lender_entry \<and>
     (ag_id lender, t, Runs (Turn (EvRefresh mc get rorder))) \<in> set lender_trace \<and> os_OK (ProbeOllama get ''u'')"
proof -
  obtain net s where run: "pool_run Itoa empty_pool lender_trace net" and s: "ps_nodes net (ag_id planner) = Some s"
    and order: "iter_order (nodes (ag_reg (sy_agent s))) [ag_id lender, ag_id planner]"
    and ns: "Nodes insertionSort [ag_id lender, ag_id planner] (sy_agent s) = [planner_entry, lender_entry]" by (rule lender_run)
  have "eligible 7 lender_entry \<and> HasModel lender_entry ''m''" and "\<not> HasModel planner_entry ''m''"
    by (simp_all add: eligible_def StaleAfter_def HasModel_def model_matches_def latest_tag_def example_model_def)
  then have pick: "Pick 7 [] (Nodes insertionSort [ag_id lender, ag_id planner] (sy_agent s)) ''m'' = Inr lender_entry"
    using Pick_Inl [of 7 "[]" "[planner_entry, lender_entry]" "''m''"] Pick_eligible [of 7 "[]" "[planner_entry, lender_entry]" "''m''"]
    unfolding ns by (cases "Pick 7 [] [planner_entry, lender_entry] ''m''") auto
  have cfg: "(k, t0, Joins a) \<in> set lender_trace \<Longrightarrow> cfg_OllamaURL (ag_cfg a) = ''u''" for k t0 a
    using lender_trace_joins by (fastforce simp: example_config_def)
  from pool_routing_authentic [OF run s insertion_sorts order pick] cfg run s pick show ?thesis by (simp only: pair_ids lender_entry_fields) metis
qed

theorem pool_plan_authentic_witness:
  "\<exists>net s p. pool_run Itoa empty_pool lender_trace net \<and> ps_nodes net (ag_id planner) = Some s \<and>
     PlanSplit example_platform 7 (Nodes insertionSort [ag_id lender, ag_id planner] (sy_agent s)) ''big'' = Inr (Some p) \<and>
     plan_Workers p = [lender_entry] \<and> (\<exists>a get. vouched lender_trace lender_entry a get \<and> RPCServer (ag_bins a) \<noteq> [])"
proof -
  obtain net s where run: "pool_run Itoa empty_pool lender_trace net" and s: "ps_nodes net (ag_id planner) = Some s"
    and order: "iter_order (nodes (ag_reg (sy_agent s))) [ag_id lender, ag_id planner]"
    and ns: "Nodes insertionSort [ag_id lender, ag_id planner] (sy_agent s) = [planner_entry, lender_entry]" by (rule lender_run)
  let ?p = "\<lparr>plan_Driver = planner_entry, plan_Workers = [lender_entry], plan_ModelSize = 40 * gib, plan_Need = 50 * gib\<rparr>"
  have plan: "PlanSplit example_platform 7 (Nodes (sort_nodes example_platform) [ag_id lender, ag_id planner] (sy_agent s)) ''big''
      = Inr (Some ?p)"
    using ns by (simp add: plan_eval eligible_def StaleAfter_def model_matches_def latest_tag_def example_model_def)
  from pool_plan_authentic [OF run s example_platform_ok order plan]
  have "\<exists>a get. vouched lender_trace lender_entry a get \<and> RPCServer (ag_bins a) \<noteq> []" by auto
  with run s plan show ?thesis
    by (intro exI [of _ net] exI [of _ s] exI [of _ ?p]) (simp add: example_platform_def)
qed

end
