(* ===== verification/PipelineConc.thy ===== *)
theory PipelineConc
  imports Pipeline
begin

text \<open>
  The manager of \<^verbatim>\<open>internal/split/pipeline.go\<close> under concurrency.  A state holds the manager, the
  running children, the reapers that still watch a child, and the goroutines inside \<^verbatim>\<open>Ensure\<close>,
  \<^verbatim>\<open>StopAll\<close> and the collector, each at the point of its code it has reached.  One step is one
  locked section (a definition of \<open>Pipeline\<close>), one kill, one outcome of a wait, or the exit of
  a child.  An execution is a list of labelled steps.
\<close>

section \<open>States and steps\<close>

datatype thread =
  Entering request
| Joining int
| StoppingFailed request
| KillingFailed nat request
| Relaunching request
| Loading string int
| Polling string int
| Readying string int
| Failing string wait_error
| Stopping string wait_error
| Killing nat wait_error
| Sweeping "string list"
| SweepKilling nat "string list"
| Finished int "ensure_error option"

record system =
  sys_mgr :: Manager
  sys_procs :: "nat set"
  sys_next :: nat
  sys_reapers :: "nat \<rightharpoonup> string"
  sys_threads :: "nat \<rightharpoonup> thread"

datatype label = Tau | Launch | Relaunch | Exit nat

definition init_system :: "string \<Rightarrow> int \<Rightarrow> system" where
  "init_system bin basePort = \<lparr>sys_mgr = NewManager bin basePort, sys_procs = {}, sys_next = 0,
     sys_reapers = Map.empty, sys_threads = Map.empty\<rparr>"

abbreviation goto :: "nat \<Rightarrow> thread \<Rightarrow> system \<Rightarrow> system" where
  "goto t pc s \<equiv> s\<lparr>sys_threads := (sys_threads s)(t \<mapsto> pc)\<rparr>"

fun after_section :: "request \<Rightarrow> ensure_out \<Rightarrow> thread" where
  "after_section rq (Returned port e) = Finished port e"
| "after_section rq (Joined port) = Joining port"
| "after_section rq Failed = StoppingFailed rq"
| "after_section rq (Launched port) = Loading (rq_model rq) port"

text \<open>The new child of a launch and its reaper.\<close>

fun spawn :: "request \<Rightarrow> ensure_out \<Rightarrow> system \<Rightarrow> system" where
  "spawn rq (Launched port) s =
     s\<lparr>sys_procs := insert (sys_next s) (sys_procs s), sys_next := Suc (sys_next s),
       sys_reapers := (sys_reapers s)(sys_next s \<mapsto> rq_model rq)\<rparr>"
| "spawn rq _ s = s"

definition locked_section :: "nat \<Rightarrow> request \<Rightarrow> Manager \<times> ensure_out \<Rightarrow> system \<Rightarrow> system" where
  "locked_section t rq r s = goto t (after_section rq (snd r)) (spawn rq (snd r) (s\<lparr>sys_mgr := fst r\<rparr>))"

definition stop_then :: "nat \<Rightarrow> string \<Rightarrow> (nat \<Rightarrow> thread) \<Rightarrow> thread \<Rightarrow> system \<Rightarrow> system" where
  "stop_then t model killing done s =
     goto t (case snd (stop_section model (sys_mgr s)) of Some pid \<Rightarrow> killing pid | None \<Rightarrow> done)
       (s\<lparr>sys_mgr := fst (stop_section model (sys_mgr s))\<rparr>)"

definition kill :: "nat \<Rightarrow> system \<Rightarrow> system" where
  "kill pid s = s\<lparr>sys_procs := sys_procs s - {pid}\<rparr>"

inductive mgr_step :: "system \<Rightarrow> label \<Rightarrow> system \<Rightarrow> bool" where
  call: "sys_threads s t = None \<Longrightarrow> mgr_step s Tau (goto t (Entering rq) s)"
| enter: "sys_threads s t = Some (Entering rq) \<Longrightarrow> le_pid env = sys_next s \<Longrightarrow>
    mgr_step s Launch (locked_section t rq (ensure_begin env rq (sys_mgr s)) s)"
| join_done: "sys_threads s t = Some (Joining port) \<Longrightarrow>
    mgr_step s Tau (goto t (Finished port (map_option WaitFailed e)) s)"
| failed_stop: "sys_threads s t = Some (StoppingFailed rq) \<Longrightarrow>
    mgr_step s Tau (stop_then t (rq_model rq) (\<lambda>pid. KillingFailed pid rq) (Relaunching rq) s)"
| failed_kill: "sys_threads s t = Some (KillingFailed pid rq) \<Longrightarrow>
    mgr_step s Tau (goto t (Relaunching rq) (kill pid s))"
| relaunch: "sys_threads s t = Some (Relaunching rq) \<Longrightarrow> le_pid env = sys_next s \<Longrightarrow>
    mgr_step s Relaunch (locked_section t rq (launch env rq (sys_mgr s)) s)"
| seen_alive: "sys_threads s t = Some (Loading model port) \<Longrightarrow> alive (sys_mgr s) model \<Longrightarrow>
    mgr_step s Tau (goto t (Polling model port) s)"
| poll_failed: "sys_threads s t = Some (Polling model port) \<Longrightarrow>
    mgr_step s Tau (goto t (Loading model port) s)"
| loaded: "sys_threads s t = Some (Polling model port) \<Longrightarrow>
    mgr_step s Tau (goto t (Readying model port) s)"
| poll_cancelled: "sys_threads s t = Some (Polling model port) \<Longrightarrow>
    mgr_step s Tau (goto t (Failing model (Cancelled err)) s)"
| exited: "sys_threads s t = Some (Loading model port) \<Longrightarrow> \<not> alive (sys_mgr s) model \<Longrightarrow>
    mgr_step s Tau (goto t (Failing model (ExitedDuringLoad model)) s)"
| cancelled: "sys_threads s t = Some (Loading model port) \<Longrightarrow>
    mgr_step s Tau (goto t (Failing model (Cancelled err)) s)"
| timed_out: "sys_threads s t = Some (Loading model port) \<Longrightarrow>
    mgr_step s Tau (goto t (Failing model (NotReady model)) s)"
| ready: "sys_threads s t = Some (Readying model port) \<Longrightarrow>
    mgr_step s Tau (goto t (Finished port None) (s\<lparr>sys_mgr := setState model StateReady (sys_mgr s)\<rparr>))"
| fail: "sys_threads s t = Some (Failing model e) \<Longrightarrow>
    mgr_step s Tau (goto t (Stopping model e)
      (s\<lparr>sys_mgr := setError model (wait_error_text e) (sys_mgr s)\<rparr>))"
| fail_stop: "sys_threads s t = Some (Stopping model e) \<Longrightarrow>
    mgr_step s Tau (stop_then t model (\<lambda>pid. Killing pid e) (Finished 0 (Some (WaitFailed e))) s)"
| fail_kill: "sys_threads s t = Some (Killing pid e) \<Longrightarrow>
    mgr_step s Tau (goto t (Finished 0 (Some (WaitFailed e))) (kill pid s))"
| stop_all: "sys_threads s t = None \<Longrightarrow> iter_order (mg_pipelines (sys_mgr s)) order \<Longrightarrow>
    mgr_step s Tau (goto t (Sweeping order) s)"
| collect: "sys_threads s t = None \<Longrightarrow> iter_order (mg_pipelines (sys_mgr s)) order \<Longrightarrow>
    mgr_step s Tau (goto t (Sweeping (idle_models now order (sys_mgr s))) s)"
| sweep: "sys_threads s t = Some (Sweeping (model # models)) \<Longrightarrow>
    mgr_step s Tau (stop_then t model (\<lambda>pid. SweepKilling pid models) (Sweeping models) s)"
| sweep_kill: "sys_threads s t = Some (SweepKilling pid models) \<Longrightarrow>
    mgr_step s Tau (goto t (Sweeping models) (kill pid s))"
| exit: "pid \<in> sys_procs s \<Longrightarrow> mgr_step s (Exit pid) (kill pid s)"
| reaped: "sys_reapers s pid = Some model \<Longrightarrow> pid \<notin> sys_procs s \<Longrightarrow>
    mgr_step s Tau (s\<lparr>sys_mgr := reap pid model (sys_mgr s), sys_reapers := (sys_reapers s)(pid := None)\<rparr>)"
| touch: "mgr_step s Tau (s\<lparr>sys_mgr := TouchPipe now model (sys_mgr s)\<rparr>)"

inductive mgr_run :: "system \<Rightarrow> label list \<Rightarrow> system \<Rightarrow> bool" where
  run_nil: "mgr_run s [] s"
| run_step: "mgr_run s ls s' \<Longrightarrow> mgr_step s' l s'' \<Longrightarrow> mgr_run s (ls @ [l]) s''"

section \<open>Every registered pipeline is watched\<close>

text \<open>
  What holds of every entry of the map: it is filed under its model, its process is one of those
  started and no other entry's, its port is in the manager's range, its child's reaper has not
  run yet or a caller is about to stop the model, and the latter holds if the state is an error.
\<close>

definition stop_pending :: "system \<Rightarrow> string \<Rightarrow> bool" where
  "stop_pending s model \<longleftrightarrow> (\<exists>t e. sys_threads s t = Some (Stopping model e))"

definition entry_ok :: "system \<Rightarrow> string \<Rightarrow> pipeline \<Rightarrow> bool" where
  "entry_ok s model p \<longleftrightarrow>
     pi_Model (pl_info p) = model \<and> pl_cmd p < sys_next s \<and>
     mg_basePort (sys_mgr s) \<le> pl_port p \<and> pl_port p < mg_basePort (sys_mgr s) + 100 \<and>
     (sys_reapers s (pl_cmd p) = Some model \<or> stop_pending s model) \<and>
     (pi_State (pl_info p) = StateError \<longrightarrow> stop_pending s model)"

definition sys_inv :: "system \<Rightarrow> bool" where
  "sys_inv s \<longleftrightarrow>
     (\<forall>model p. mg_pipelines (sys_mgr s) model = Some p \<longrightarrow> entry_ok s model p) \<and>
     (\<forall>model model' p q. mg_pipelines (sys_mgr s) model = Some p \<longrightarrow>
        mg_pipelines (sys_mgr s) model' = Some q \<longrightarrow> pl_cmd p = pl_cmd q \<longrightarrow> model = model') \<and>
     sys_procs s \<subseteq> {..<sys_next s} \<and> dom (sys_reapers s) \<subseteq> {..<sys_next s}"

text \<open>A step that registers nothing new: entries keep their process and port, or disappear.\<close>

lemma sys_inv_shrink:
  assumes "sys_inv s"
    and "mg_basePort (sys_mgr s') = mg_basePort (sys_mgr s)" and "sys_next s' = sys_next s"
    and "sys_procs s' \<subseteq> sys_procs s" and "dom (sys_reapers s') \<subseteq> dom (sys_reapers s)"
    and "\<And>model q. mg_pipelines (sys_mgr s') model = Some q \<Longrightarrow>
      \<exists>p. mg_pipelines (sys_mgr s) model = Some p \<and> pl_cmd q = pl_cmd p \<and> pl_port q = pl_port p \<and>
        pi_Model (pl_info q) = pi_Model (pl_info p) \<and>
        (sys_reapers s (pl_cmd p) = Some model \<longrightarrow>
           sys_reapers s' (pl_cmd p) = Some model \<or> stop_pending s' model) \<and>
        (stop_pending s model \<longrightarrow> stop_pending s' model) \<and>
        (pi_State (pl_info q) = StateError \<longrightarrow> pi_State (pl_info p) = StateError \<or> stop_pending s' model)"
  shows "sys_inv s'"
  unfolding sys_inv_def
proof (intro conjI allI impI)
  fix model q
  assume "mg_pipelines (sys_mgr s') model = Some q"
  from assms(6) [OF this] assms(1-3) show "entry_ok s' model q"
    by (auto simp: sys_inv_def entry_ok_def)
next
  fix model model' p q
  assume "mg_pipelines (sys_mgr s') model = Some p" "mg_pipelines (sys_mgr s') model' = Some q"
    and "pl_cmd p = pl_cmd q"
  with assms(6) obtain p1 q1 where "mg_pipelines (sys_mgr s) model = Some p1"
    "mg_pipelines (sys_mgr s) model' = Some q1" "pl_cmd p1 = pl_cmd q1" by metis
  with assms(1) show "model = model'" unfolding sys_inv_def by blast
next
  from assms(1,3,4) show "sys_procs s' \<subseteq> {..<sys_next s'}" by (auto simp: sys_inv_def)
  from assms(1,3,5) show "dom (sys_reapers s') \<subseteq> {..<sys_next s'}" unfolding sys_inv_def by fastforce
qed

lemma stop_pending_goto:
  "stop_pending s model \<Longrightarrow> \<forall>e. sys_threads s t \<noteq> Some (Stopping model e) \<Longrightarrow>
     sys_threads s' = (sys_threads s)(t \<mapsto> pc) \<Longrightarrow> stop_pending s' model"
  unfolding stop_pending_def by (metis fun_upd_other)

lemma sys_inv_goto:
  assumes "sys_inv s" and "\<forall>model e. sys_threads s t \<noteq> Some (Stopping model e)"
  shows "sys_inv (goto t pc s)"
proof -
  have "stop_pending (goto t pc s) model" if "stop_pending s model" for model
    by (rule stop_pending_goto [OF that]) (simp_all add: assms(2))
  then show ?thesis
    by (intro sys_inv_shrink [OF assms(1)]) simp_all
qed

lemma sys_inv_kill: "sys_inv s \<Longrightarrow> sys_inv (kill pid s)"
  by (rule sys_inv_shrink [of s]) (auto simp: kill_def stop_pending_def)

lemma kill_threads [simp]: "sys_threads (kill pid s) = sys_threads s"
  by (simp add: kill_def)

lemma stop_section_simps [simp]:
  "mg_pipelines (fst (stop_section model m)) = (mg_pipelines m)(model := None)"
  "mg_basePort (fst (stop_section model m)) = mg_basePort m"
  "snd (stop_section model m) = map_option pl_cmd (mg_pipelines m model)"
  by (simp_all add: stop_section_def)

lemma sys_inv_stop_then:
  assumes "sys_inv s" and "\<And>model' e. sys_threads s t = Some (Stopping model' e) \<Longrightarrow> model' = model"
  shows "sys_inv (stop_then t model killing done s)"
  using assms(1)
proof (rule sys_inv_shrink)
  fix x q
  assume "mg_pipelines (sys_mgr (stop_then t model killing done s)) x = Some q"
  then have "x \<noteq> model" and "mg_pipelines (sys_mgr s) x = Some q"
    by (auto simp: stop_then_def split: if_splits)
  moreover have "stop_pending (stop_then t model killing done s) x" if "stop_pending s x"
    using that assms(2) \<open>x \<noteq> model\<close> by (intro stop_pending_goto [OF that]) (auto simp: stop_then_def)
  ultimately show "\<exists>p. mg_pipelines (sys_mgr s) x = Some p \<and> pl_cmd q = pl_cmd p \<and> pl_port q = pl_port p \<and>
        pi_Model (pl_info q) = pi_Model (pl_info p) \<and>
        (sys_reapers s (pl_cmd p) = Some x \<longrightarrow>
           sys_reapers (stop_then t model killing done s) (pl_cmd p) = Some x \<or>
           stop_pending (stop_then t model killing done s) x) \<and>
        (stop_pending s x \<longrightarrow> stop_pending (stop_then t model killing done s) x) \<and>
        (pi_State (pl_info q) = StateError \<longrightarrow>
           pi_State (pl_info p) = StateError \<or> stop_pending (stop_then t model killing done s) x)"
    by (auto simp: stop_then_def)
qed (auto simp: stop_then_def)

lemma update_info_Some:
  "mg_pipelines (update_info model f m) x = Some q \<longleftrightarrow>
     (\<exists>p. mg_pipelines m x = Some p \<and> q = (if x = model then p\<lparr>pl_info := f (pl_info p)\<rparr> else p))"
  by (auto simp: update_info_def split: option.splits)

lemma update_info_basePort [simp]: "mg_basePort (update_info model f m) = mg_basePort m"
  by (simp add: update_info_def split: option.split)

lemma sys_inv_update:
  assumes "sys_inv s" and "\<And>i. pi_Model (f i) = pi_Model i"
    and "\<And>i. pi_State (f i) = StateError \<Longrightarrow> pi_State i = StateError"
  shows "sys_inv (s\<lparr>sys_mgr := update_info model f (sys_mgr s)\<rparr>)"
  by (rule sys_inv_shrink [OF assms(1)]) (auto simp: update_info_Some stop_pending_def assms)

lemma sys_inv_setError:
  assumes "sys_inv s" and "\<forall>m e. sys_threads s t \<noteq> Some (Stopping m e)"
  shows "sys_inv (goto t (Stopping model e) (s\<lparr>sys_mgr := setError model err (sys_mgr s)\<rparr>))"
  using assms(1)
proof (rule sys_inv_shrink)
  let ?s = "goto t (Stopping model e) (s\<lparr>sys_mgr := setError model err (sys_mgr s)\<rparr>)"
  have here: "stop_pending ?s model" by (auto simp: stop_pending_def)
  have keep: "stop_pending s x \<Longrightarrow> stop_pending ?s x" for x
    by (rule stop_pending_goto [where t = t and pc = "Stopping model e"]) (simp_all add: assms(2))
  fix x q
  assume "mg_pipelines (sys_mgr ?s) x = Some q"
  then obtain p where "mg_pipelines (sys_mgr s) x = Some p"
    and "q = (if x = model then p\<lparr>pl_info := (pl_info p)\<lparr>pi_State := StateError, pi_Error := err\<rparr>\<rparr> else p)"
    by (auto simp: setError_def update_info_Some)
  with here keep show "\<exists>p. mg_pipelines (sys_mgr s) x = Some p \<and> pl_cmd q = pl_cmd p \<and> pl_port q = pl_port p \<and>
        pi_Model (pl_info q) = pi_Model (pl_info p) \<and>
        (sys_reapers s (pl_cmd p) = Some x \<longrightarrow> sys_reapers ?s (pl_cmd p) = Some x \<or> stop_pending ?s x) \<and>
        (stop_pending s x \<longrightarrow> stop_pending ?s x) \<and>
        (pi_State (pl_info q) = StateError \<longrightarrow> pi_State (pl_info p) = StateError \<or> stop_pending ?s x)"
    by auto
qed (auto simp: setError_def)

lemma sys_inv_reap:
  assumes "sys_inv s" and "sys_reapers s pid = Some model"
  shows "sys_inv (s\<lparr>sys_mgr := reap pid model (sys_mgr s), sys_reapers := (sys_reapers s)(pid := None)\<rparr>)"
  using assms(1)
proof (rule sys_inv_shrink)
  let ?s = "s\<lparr>sys_mgr := reap pid model (sys_mgr s), sys_reapers := (sys_reapers s)(pid := None)\<rparr>"
  have pend: "stop_pending ?s x = stop_pending s x" for x by (simp add: stop_pending_def)
  fix x q
  assume "mg_pipelines (sys_mgr ?s) x = Some q"
  then have q: "mg_pipelines (sys_mgr s) x = Some q"
    and dead: "x = model \<longrightarrow> pl_cmd q = pid \<longrightarrow> pi_State (pl_info q) = StateError"
    by (auto simp: reap_def split: option.splits if_splits)
  have "stop_pending s x" if "pl_cmd q = pid" "sys_reapers s pid = Some x"
    using q dead that assms by (auto simp: sys_inv_def entry_ok_def)
  with q pend show "\<exists>p. mg_pipelines (sys_mgr s) x = Some p \<and> pl_cmd q = pl_cmd p \<and> pl_port q = pl_port p \<and>
        pi_Model (pl_info q) = pi_Model (pl_info p) \<and>
        (sys_reapers s (pl_cmd p) = Some x \<longrightarrow> sys_reapers ?s (pl_cmd p) = Some x \<or> stop_pending ?s x) \<and>
        (stop_pending s x \<longrightarrow> stop_pending ?s x) \<and>
        (pi_State (pl_info q) = StateError \<longrightarrow> pi_State (pl_info p) = StateError \<or> stop_pending ?s x)"
    by auto
qed (auto simp: reap_def split: option.splits)

lemma sys_inv_TouchPipe: "sys_inv s \<Longrightarrow> sys_inv (s\<lparr>sys_mgr := TouchPipe now model (sys_mgr s)\<rparr>)"
  unfolding TouchPipe_def by (rule sys_inv_update) simp_all

lemma sys_inv_ready: "sys_inv s \<Longrightarrow> sys_inv (s\<lparr>sys_mgr := setState model StateReady (sys_mgr s)\<rparr>)"
  unfolding setState_def by (rule sys_inv_update) simp_all

lemma sys_inv_launched:
  assumes "sys_inv s" and "le_pid env = sys_next s"
    and "freePort free (mg_basePort (sys_mgr s)) = Inr port"
  shows "sys_inv (spawn rq (Launched port) (s\<lparr>sys_mgr := (sys_mgr s)\<lparr>mg_pipelines :=
    (mg_pipelines (sys_mgr s))(rq_model rq \<mapsto> new_pipeline env rq port)\<rparr>\<rparr>))" (is "sys_inv ?s")
proof -
  have pend: "stop_pending ?s model = stop_pending s model" for model by (simp add: stop_pending_def)
  have range: "mg_basePort (sys_mgr s) \<le> port \<and> port < mg_basePort (sys_mgr s) + 100"
    using assms(3) free_from_Some [of free _ 100 port] by (auto simp: freePort_def split: option.splits)
  have old: "pl_cmd p < sys_next s" if "mg_pipelines (sys_mgr s) model = Some p" for model p
    using assms(1) that by (auto simp: sys_inv_def entry_ok_def)
  show ?thesis
    unfolding sys_inv_def
  proof (intro conjI allI impI)
    fix model q
    assume q: "mg_pipelines (sys_mgr ?s) model = Some q"
    show "entry_ok ?s model q"
    proof (cases "model = rq_model rq")
      case True
      with q range assms(2) show ?thesis by (auto simp: entry_ok_def new_pipeline_def)
    next
      case False
      with q have "mg_pipelines (sys_mgr s) model = Some q" by simp
      with assms(1) have "entry_ok s model q" by (auto simp: sys_inv_def)
      with old [OF \<open>mg_pipelines (sys_mgr s) model = Some q\<close>] pend show ?thesis
        by (auto simp: entry_ok_def)
    qed
  next
    fix model model' p q
    assume "mg_pipelines (sys_mgr ?s) model = Some p" "mg_pipelines (sys_mgr ?s) model' = Some q"
      and "pl_cmd p = pl_cmd q"
    then show "model = model'"
      using old assms(1,2) by (auto simp: sys_inv_def new_pipeline_def split: if_splits) fastforce+
  next
    from assms(1) show "sys_procs ?s \<subseteq> {..<sys_next ?s}" by (auto simp: sys_inv_def)
    from assms(1) show "dom (sys_reapers ?s) \<subseteq> {..<sys_next ?s}" by (auto simp: sys_inv_def)
  qed
qed

lemma sys_inv_locked:
  assumes "sys_inv (spawn rq out (s\<lparr>sys_mgr := m\<rparr>))" and "\<forall>m e. sys_threads s t \<noteq> Some (Stopping m e)"
  shows "sys_inv (locked_section t rq (m, out) s)"
proof -
  have thr: "sys_threads (spawn rq out (s\<lparr>sys_mgr := m\<rparr>)) = sys_threads s" by (cases out) simp_all
  show ?thesis
    unfolding locked_section_def fst_conv snd_conv
    by (rule sys_inv_goto [OF assms(1)]) (simp add: thr assms(2))
qed

lemma sys_inv_launch:
  assumes "sys_inv s" and "le_pid env = sys_next s" and "\<forall>m e. sys_threads s t \<noteq> Some (Stopping m e)"
  shows "sys_inv (locked_section t rq (launch env rq (sys_mgr s)) s)"
proof -
  obtain m out where l: "launch env rq (sys_mgr s) = (m, out)" by fastforce
  note go = sys_inv_locked [OF _ assms(3)]
  show ?thesis
  proof (cases out)
    case (Returned port e)
    with l launch_Returned [of env rq "sys_mgr s" m port e] assms(1) go [of rq out m] show ?thesis by simp
  next
    case (Launched port)
    with l have "freePort (le_free env) (mg_basePort (sys_mgr s)) = Inr port"
      and m: "m = (sys_mgr s)\<lparr>mg_pipelines := (mg_pipelines (sys_mgr s))(rq_model rq \<mapsto> new_pipeline env rq port)\<rparr>"
      by (simp_all add: launch_Launched)
    from sys_inv_launched [OF assms(1,2) this(1), of rq] show ?thesis
      unfolding l Launched m by (rule go)
  qed (use l launch_not_failed [of env rq "sys_mgr s"] in auto)
qed

lemma sys_inv_section:
  assumes "sys_inv s" and "le_pid env = sys_next s" and "\<forall>m e. sys_threads s t \<noteq> Some (Stopping m e)"
  shows "sys_inv (locked_section t rq (launch env rq (sys_mgr s)) s)"
    and "sys_inv (locked_section t rq (ensure_begin env rq (sys_mgr s)) s)"
proof -
  note go = sys_inv_locked [OF _ assms(3)]
  show L: "sys_inv (locked_section t rq (launch env rq (sys_mgr s)) s)" by (rule sys_inv_launch [OF assms])
  show "sys_inv (locked_section t rq (ensure_begin env rq (sys_mgr s)) s)"
  proof (cases "mg_bin (sys_mgr s) = []")
    case True
    then show ?thesis using go [of rq "Returned 0 (Some NotInstalled)" "sys_mgr s"] assms(1)
      by (simp add: ensure_begin_def)
  next
    case bin: False
    show ?thesis
    proof (cases "mg_pipelines (sys_mgr s) (rq_model rq)")
      case None
      with L bin show ?thesis by (simp add: ensure_begin_def)
    next
      case (Some p)
      define out where "out = (case pi_State (pl_info p) of StateReady \<Rightarrow> Returned (pl_port p) None
        | StateLoading \<Rightarrow> Joined (pl_port p) | _ \<Rightarrow> Failed)"
      have "spawn rq out s' = s'" for s' by (simp add: out_def split: PipelineState.split)
      with sys_inv_TouchPipe [OF assms(1)] have "sys_inv (spawn rq out (s\<lparr>sys_mgr := TouchPipe (le_now env) (rq_model rq) (sys_mgr s)\<rparr>))"
        by simp
      from go [OF this] show ?thesis using Some bin by (simp add: ensure_begin_def out_def)
    qed
  qed
qed

lemma sys_inv_step:
  assumes "mgr_step s l s'" and "sys_inv s"
  shows "sys_inv s'"
  using assms
proof (induction rule: mgr_step.induct)
  case (failed_kill s t pid rq)
  then show ?case by (intro sys_inv_goto sys_inv_kill) simp_all
next
  case (fail_kill s t pid e)
  then show ?case by (intro sys_inv_goto sys_inv_kill) simp_all
next
  case (sweep_kill s t pid models)
  then show ?case by (intro sys_inv_goto sys_inv_kill) simp_all
next
  case (ready s t model port)
  then show ?case by (intro sys_inv_goto sys_inv_ready) simp_all
next
  case (fail s t model e)
  then show ?case by (intro sys_inv_setError) simp_all
next
  case (enter s t rq env)
  then show ?case by (intro sys_inv_section) simp_all
next
  case (relaunch s t rq env)
  then show ?case by (intro sys_inv_section) simp_all
next
  case (failed_stop s t rq)
  then show ?case by (intro sys_inv_stop_then) simp_all
next
  case (fail_stop s t model e)
  then show ?case by (intro sys_inv_stop_then) simp_all
next
  case (sweep s t model models)
  then show ?case by (intro sys_inv_stop_then) simp_all
next
  case (exit pid s)
  then show ?case by (intro sys_inv_kill)
next
  case (reaped s pid model)
  then show ?case by (intro sys_inv_reap)
next
  case (touch s now model)
  then show ?case by (intro sys_inv_TouchPipe)
qed (simp_all add: sys_inv_goto)

lemma sys_inv_run: "mgr_run s ls s' \<Longrightarrow> sys_inv s \<Longrightarrow> sys_inv s'"
  by (induction rule: mgr_run.induct) (auto intro: sys_inv_step)

lemma sys_inv_init: "sys_inv (init_system bin basePort)"
  by (simp add: sys_inv_def init_system_def NewManager_def)

text \<open>
  C8.  In every execution of any number of callers, shutdowns and collector ticks, a pipeline the
  manager lists is filed under its model, has a port of the manager's range and a process that no
  other pipeline has, and is never forgotten: the reaper of its process has still to run, or a
  caller is about to stop it, which is always so for a failed one.
\<close>

theorem manager_invariant:
  assumes "mgr_run (init_system bin basePort) ls s" and "mg_pipelines (sys_mgr s) model = Some p"
  shows "entry_ok s model p \<and>
    (\<forall>model' q. mg_pipelines (sys_mgr s) model' = Some q \<and> pl_cmd q = pl_cmd p \<longrightarrow> model' = model)"
  using sys_inv_run [OF assms(1) sys_inv_init] assms(2) unfolding sys_inv_def by metis

section \<open>No running server is lost, unless a repeated attempt replaces its entry\<close>

fun kills :: "thread \<Rightarrow> nat option" where
  "kills (KillingFailed pid rq) = Some pid"
| "kills (Killing pid e) = Some pid"
| "kills (SweepKilling pid models) = Some pid"
| "kills pc = None"

definition kill_pending :: "system \<Rightarrow> nat \<Rightarrow> bool" where
  "kill_pending s pid \<longleftrightarrow> (\<exists>t pc. sys_threads s t = Some pc \<and> kills pc = Some pid)"

definition registered :: "Manager \<Rightarrow> nat \<Rightarrow> bool" where
  "registered m pid \<longleftrightarrow> (\<exists>model p. mg_pipelines m model = Some p \<and> pl_cmd p = pid)"

text \<open>A running child belongs to a listed pipeline or is about to be killed.\<close>

definition accounted :: "system \<Rightarrow> nat \<Rightarrow> bool" where
  "accounted s pid \<longleftrightarrow> (pid \<in> sys_procs s \<longrightarrow> registered (sys_mgr s) pid \<or> kill_pending s pid)"

lemma kill_pending_goto:
  assumes "kill_pending s pid" and "\<forall>pc0. sys_threads s t = Some pc0 \<longrightarrow> kills pc0 \<noteq> Some pid"
    and "sys_threads s' = (sys_threads s)(t \<mapsto> pc)"
  shows "kill_pending s' pid"
proof -
  from assms(1) obtain t' pc' where t': "sys_threads s t' = Some pc'" "kills pc' = Some pid"
    by (auto simp: kill_pending_def)
  with assms(2) have "t' \<noteq> t" by auto
  with t' assms(3) have "sys_threads s' t' = Some pc'" by simp
  with t'(2) show ?thesis unfolding kill_pending_def by blast
qed

lemma accounted_goto:
  assumes "accounted s pid" and "sys_threads s t = None \<or> (\<exists>pc0. sys_threads s t = Some pc0 \<and> kills pc0 = None)"
  shows "accounted (goto t pc s) pid"
proof -
  have "kill_pending (goto t pc s) pid" if "kill_pending s pid"
    using assms(2) by (intro kill_pending_goto [OF that]) auto
  with assms(1) show ?thesis by (auto simp: accounted_def)
qed

lemma accounted_kill: "accounted s pid \<Longrightarrow> accounted (kill victim s) pid"
  by (auto simp: accounted_def kill_def kill_pending_def)

lemma accounted_kill_goto:
  assumes "accounted s pid" and "sys_threads s t = Some pc0" and "kills pc0 = Some victim"
  shows "accounted (goto t pc (kill victim s)) pid"
proof (cases "pid = victim")
  case False
  have "kill_pending (goto t pc (kill victim s)) pid" if "kill_pending s pid"
    by (rule kill_pending_goto [OF that]) (use assms False in auto)
  with assms(1) show ?thesis by (auto simp: accounted_def kill_def)
qed (simp add: accounted_def kill_def)

lemma registered_update [simp]: "registered (update_info model f m) pid = registered m pid"
proof
  assume "registered (update_info model f m) pid"
  then obtain x p where "mg_pipelines m x = Some p" "pl_cmd p = pid"
    by (auto simp: registered_def update_info_Some split: if_splits)
  then show "registered m pid" by (auto simp: registered_def)
next
  assume "registered m pid"
  then obtain x p where "mg_pipelines m x = Some p" "pl_cmd p = pid" by (auto simp: registered_def)
  then have "mg_pipelines (update_info model f m) x = Some (if x = model then p\<lparr>pl_info := f (pl_info p)\<rparr> else p)"
    and "pl_cmd (if x = model then p\<lparr>pl_info := f (pl_info p)\<rparr> else p) = pid"
    by (auto simp: update_info_Some)
  then show "registered (update_info model f m) pid"
    unfolding registered_def by blast
qed

lemma accounted_update: "accounted s pid \<Longrightarrow> accounted (s\<lparr>sys_mgr := update_info model f (sys_mgr s)\<rparr>) pid"
  by (simp add: accounted_def kill_pending_def)

lemma accounted_stop_then:
  assumes "accounted s pid" and "sys_threads s t = Some pc0" and "kills pc0 = None"
    and "\<And>pid. kills (killing pid) = Some pid"
  shows "accounted (stop_then t model killing done s) pid"
  unfolding accounted_def
proof
  let ?s = "stop_then t model killing done s"
  assume "pid \<in> sys_procs ?s"
  then have "pid \<in> sys_procs s" by (simp add: stop_then_def)
  with assms(1) consider "kill_pending s pid" | x p where "mg_pipelines (sys_mgr s) x = Some p" "pl_cmd p = pid"
    by (auto simp: accounted_def registered_def)
  then show "registered (sys_mgr ?s) pid \<or> kill_pending ?s pid"
  proof cases
    case 1
    then have "kill_pending ?s pid"
      by (rule kill_pending_goto) (use assms in \<open>auto simp: stop_then_def\<close>)
    then show ?thesis ..
  next
    case 2
    show ?thesis
    proof (cases "x = model")
      case True
      with 2 have "sys_threads ?s t = Some (killing pid)" by (simp add: stop_then_def)
      with assms(4) have "kill_pending ?s pid" unfolding kill_pending_def by blast
      then show ?thesis ..
    next
      case False
      with 2 have "mg_pipelines (sys_mgr ?s) x = Some p" by (simp add: stop_then_def)
      with 2 show ?thesis by (auto simp: registered_def)
    qed
  qed
qed

lemma accounted_reap:
  assumes "accounted s pid" and "victim \<notin> sys_procs s"
  shows "accounted (s\<lparr>sys_mgr := reap victim model (sys_mgr s), sys_reapers := (sys_reapers s)(victim := None)\<rparr>) pid"
proof (cases "pid \<in> sys_procs s")
  case True
  with assms(2) have "pid \<noteq> victim" by blast
  have "registered (reap victim model m) pid" if r: "registered m pid" for m
  proof -
    from r obtain x p where "mg_pipelines m x = Some p" "pl_cmd p = pid" by (auto simp: registered_def)
    with \<open>pid \<noteq> victim\<close> have "mg_pipelines (reap victim model m) x = Some p" by (auto simp: reap_def split: option.splits)
    with \<open>pl_cmd p = pid\<close> show ?thesis by (auto simp: registered_def)
  qed
  with assms(1) show ?thesis by (auto simp: accounted_def kill_pending_def)
qed (simp add: accounted_def)

text \<open>A locked section of \<open>Ensure\<close>: what it lists stays listed, and what it starts is listed.\<close>

lemma accounted_section:
  assumes "accounted s pid" and "sys_threads s t = Some pc0" and "kills pc0 = None"
    and keep: "registered (sys_mgr s) pid \<Longrightarrow> registered m pid"
    and new: "\<And>port. out = Launched port \<Longrightarrow> registered m (sys_next s)"
  shows "accounted (locked_section t rq (m, out) s) pid"
proof -
  let ?s = "spawn rq out (s\<lparr>sys_mgr := m\<rparr>)"
  have "sys_threads ?s = sys_threads s" "sys_mgr ?s = m" by (cases out; simp)+
  moreover have "sys_procs ?s = sys_procs s \<or> (\<exists>port. out = Launched port \<and> sys_procs ?s = insert (sys_next s) (sys_procs s))"
    by (cases out) simp_all
  ultimately have "accounted ?s pid"
    using assms(1) keep new unfolding accounted_def kill_pending_def by (metis insertE)
  then show ?thesis
    unfolding locked_section_def fst_conv snd_conv
    by (rule accounted_goto) (simp add: \<open>sys_threads ?s = sys_threads s\<close> assms(2,3))
qed

lemma launch_registered:
  assumes "launch env rq m = (m', out)" and "mg_pipelines m (rq_model rq) = None \<or> (\<exists>p. mg_pipelines m (rq_model rq) = Some p \<and> pl_cmd p \<noteq> pid)"
    and "registered m pid"
  shows "registered m' pid"
proof -
  from assms(1) have m': "m' = m \<or> (\<exists>port. m' = m\<lparr>mg_pipelines := (mg_pipelines m)(rq_model rq \<mapsto> new_pipeline env rq port)\<rparr>)"
    by (auto simp: launch_def split: sum.splits option.splits)
  from assms(3) obtain x p where "mg_pipelines m x = Some p" "pl_cmd p = pid" by (auto simp: registered_def)
  with m' assms(2) have "mg_pipelines m' x = Some p \<and> pl_cmd p = pid" by auto
  then show ?thesis unfolding registered_def by blast
qed

lemma launch_new:
  "launch env rq m = (m', Launched port) \<Longrightarrow> registered m' (le_pid env)"
  unfolding launch_Launched registered_def by (intro exI [of _ "rq_model rq"]) (auto simp: new_pipeline_def)

lemma accounted_enter:
  assumes "accounted s pid" and "sys_threads s t = Some (Entering rq)" and "le_pid env = sys_next s"
  shows "accounted (locked_section t rq (ensure_begin env rq (sys_mgr s)) s) pid"
proof -
  obtain m out where b: "ensure_begin env rq (sys_mgr s) = (m, out)" by fastforce
  have keep: "registered m pid" if "registered (sys_mgr s) pid"
  proof (cases "mg_pipelines (sys_mgr s) (rq_model rq)")
    case (Some p)
    with b have "m = sys_mgr s \<or> m = TouchPipe (le_now env) (rq_model rq) (sys_mgr s)"
      by (auto simp: ensure_begin_def split: if_splits)
    with that show ?thesis by (auto simp: TouchPipe_def)
  next
    case None
    with b have "m = sys_mgr s \<or> launch env rq (sys_mgr s) = (m, out)"
      by (auto simp: ensure_begin_def split: if_splits)
    with launch_registered [OF _ _ that] None that show ?thesis by blast
  qed
  have "registered m (sys_next s)" if "out = Launched port" for port
  proof -
    from b that have "launch env rq (sys_mgr s) = (m, Launched port)"
      by (auto simp: ensure_begin_def split: if_splits option.splits PipelineState.splits)
    from launch_new [OF this] show ?thesis by (simp add: assms(3))
  qed
  with keep show ?thesis
    unfolding b using assms(1,2) by (intro accounted_section [where ?pc0.0 = "Entering rq"]) simp_all
qed

text \<open>The step replaces the listed pipeline of the process by that of another one.\<close>

definition replaces :: "system \<Rightarrow> nat \<Rightarrow> system \<Rightarrow> bool" where
  "replaces s pid s' \<longleftrightarrow>
     (\<exists>model p q. mg_pipelines (sys_mgr s) model = Some p \<and> pl_cmd p = pid \<and>
        mg_pipelines (sys_mgr s') model = Some q \<and> pl_cmd q \<noteq> pid)"

lemma accounted_relaunch:
  assumes "accounted s pid" and "sys_threads s t = Some (Relaunching rq)" and "le_pid env = sys_next s" and "sys_inv s"
  shows "accounted (locked_section t rq (launch env rq (sys_mgr s)) s) pid \<or>
    replaces s pid (locked_section t rq (launch env rq (sys_mgr s)) s)"
proof -
  obtain m out where l: "launch env rq (sys_mgr s) = (m, out)" by fastforce
  let ?s' = "locked_section t rq (m, out) s"
  have mgr: "sys_mgr ?s' = m" by (cases out) (simp_all add: locked_section_def)
  have new: "registered m (sys_next s)" if "out = Launched port" for port
    using launch_new [of env rq "sys_mgr s" m port] l that by (simp add: assms(3))
  note keeps = accounted_section [OF assms(1,2) _ _ new]
  show ?thesis
  proof (cases "\<exists>p port. mg_pipelines (sys_mgr s) (rq_model rq) = Some p \<and> pl_cmd p = pid \<and> out = Launched port")
    case True
    then obtain p port where p: "mg_pipelines (sys_mgr s) (rq_model rq) = Some p" "pl_cmd p = pid" and out: "out = Launched port" by blast
    from assms(4) p have "pid < sys_next s" by (auto simp: sys_inv_def entry_ok_def)
    moreover from l out have "mg_pipelines m (rq_model rq) = Some (new_pipeline env rq port)" by (simp add: launch_Launched)
    ultimately have "replaces s pid ?s'"
      unfolding replaces_def mgr using p assms(3) by (intro exI [of _ "rq_model rq"]) (simp add: new_pipeline_def)
    then show ?thesis by (simp add: l)
  next
    case False
    have "registered m pid" if "registered (sys_mgr s) pid"
    proof (cases out)
      case (Launched port)
      with False have "mg_pipelines (sys_mgr s) (rq_model rq) = None \<or>
          (\<exists>p. mg_pipelines (sys_mgr s) (rq_model rq) = Some p \<and> pl_cmd p \<noteq> pid)" by auto
      from launch_registered [OF l this that] show ?thesis .
    next
      case (Returned port e)
      with launch_Returned [of env rq "sys_mgr s" m port e] l that show ?thesis by simp
    qed (use l launch_not_failed [of env rq "sys_mgr s"] in auto)
    then have "accounted ?s' pid" by (intro keeps) simp_all
    then show ?thesis by (simp add: l)
  qed
qed

lemma accounted_step:
  assumes "mgr_step s l s'" and "accounted s pid" and "sys_inv s"
  shows "accounted s' pid \<or> l = Relaunch \<and> replaces s pid s'"
  using assms
proof (induction rule: mgr_step.induct)
  case (relaunch s t rq env)
  then show ?case using accounted_relaunch by blast
next
  case (failed_kill s t victim rq)
  then show ?case by (intro disjI1 accounted_kill_goto [where ?pc0.0 = "KillingFailed victim rq"]) simp_all
next
  case (fail_kill s t victim e)
  then show ?case by (intro disjI1 accounted_kill_goto [where ?pc0.0 = "Killing victim e"]) simp_all
next
  case (sweep_kill s t victim models)
  then show ?case by (intro disjI1 accounted_kill_goto [where ?pc0.0 = "SweepKilling victim models"]) simp_all
next
  case (ready s t model port)
  then show ?case by (intro disjI1, intro accounted_goto) (simp_all add: setState_def accounted_update)
next
  case (fail s t model e)
  then show ?case by (intro disjI1, intro accounted_goto) (simp_all add: setError_def accounted_update)
next
  case (enter s t rq env)
  then show ?case by (intro disjI1 accounted_enter)
next
  case (failed_stop s t rq)
  then show ?case by (intro disjI1 accounted_stop_then [where ?pc0.0 = "StoppingFailed rq"]) simp_all
next
  case (fail_stop s t model e)
  then show ?case by (intro disjI1 accounted_stop_then [where ?pc0.0 = "Stopping model e"]) simp_all
next
  case (sweep s t model models)
  then show ?case by (intro disjI1 accounted_stop_then [where ?pc0.0 = "Sweeping (model # models)"]) simp_all
next
  case (exit victim s)
  then show ?case by (intro disjI1 accounted_kill)
next
  case (reaped s victim model)
  then show ?case by (intro disjI1 accounted_reap)
next
  case (touch s now model)
  then show ?case unfolding TouchPipe_def by (intro disjI1 accounted_update)
qed (simp_all add: accounted_goto)

text \<open>Somewhere in the execution a repeated attempt replaced the listed pipeline of the process.\<close>

definition replaced :: "system \<Rightarrow> label list \<Rightarrow> nat \<Rightarrow> system \<Rightarrow> bool" where
  "replaced s0 ls pid s \<longleftrightarrow>
     (\<exists>before s1 s2 after. ls = before @ Relaunch # after \<and> mgr_run s0 before s1 \<and> mgr_step s1 Relaunch s2 \<and>
        replaces s1 pid s2 \<and> mgr_run s2 after s)"

lemma replaced_snoc: "replaced s0 ls pid s \<Longrightarrow> mgr_step s l s' \<Longrightarrow> replaced s0 (ls @ [l]) pid s'"
  unfolding replaced_def by (metis append_Cons append_assoc run_step)

lemma replaced_now: "mgr_run s0 ls s \<Longrightarrow> mgr_step s Relaunch s' \<Longrightarrow> replaces s pid s' \<Longrightarrow> replaced s0 (ls @ [Relaunch]) pid s'"
  unfolding replaced_def using run_nil by blast

text \<open>
  C9.  There is one way only in which a server is lost: in every execution, a running server that is neither
  listed nor about to be killed was listed before, and an attempt that was repeated from inside \<^verbatim>\<open>Ensure\<close> replaced its
  entry by that of another server.  Without such a replacement no server leaks, whatever else overlaps.
\<close>

theorem no_leaked_server:
  assumes "mgr_run (init_system bin basePort) ls s" and "pid \<in> sys_procs s"
  shows "registered (sys_mgr s) pid \<or> kill_pending s pid \<or> replaced (init_system bin basePort) ls pid s"
proof -
  let ?s0 = "init_system bin basePort"
  have "mgr_run ?s0 ls s \<Longrightarrow> accounted s pid \<or> replaced ?s0 ls pid s"
  proof (induction "?s0" ls s rule: mgr_run.induct)
    case run_nil
    show ?case by (simp add: accounted_def init_system_def)
  next
    case (run_step ls s l s')
    have "sys_inv s" by (rule sys_inv_run [OF run_step(1) sys_inv_init])
    then show ?case
      using run_step accounted_step [of s l s' pid] replaced_snoc replaced_now by blast
  qed
  with assms show ?thesis by (auto simp: accounted_def)
qed

end
