(* ===== verification/PipelineLeak.thy ===== *)
theory PipelineLeak
  imports PipelineConc
begin

text \<open>
  Two executions of the pipeline manager that its callers would not expect, built step by step on
  states of one shape (\<open>retry_state\<close>).
\<close>

section \<open>Concurrent retries leak a server\<close>

text \<open>
  A caller whose attempt fails has marked the pipeline failed but not yet stopped it; two more
  callers see the failure and both go on to stop and relaunch.
\<close>

definition retry_env :: "nat \<Rightarrow> launch_env" where
  "retry_env pid = example_env\<lparr>le_pid := pid\<rparr>"

definition retry_state :: "(string \<rightharpoonup> pipeline) \<Rightarrow> nat set \<Rightarrow> nat \<Rightarrow> (nat \<rightharpoonup> string) \<Rightarrow> (nat \<rightharpoonup> thread) \<Rightarrow> system" where
  "retry_state ps procs n reapers threads =
     \<lparr>sys_mgr = \<lparr>mg_bin = ''b'', mg_basePort = 11500, mg_pipelines = ps\<rparr>, sys_procs = procs, sys_next = n,
      sys_reapers = reapers, sys_threads = threads\<rparr>"

definition retry_pipe :: "nat \<Rightarrow> PipelineState \<Rightarrow> string \<Rightarrow> pipeline" where
  "retry_pipe pid st err = \<lparr>pl_info = \<lparr>pi_Model = ''m'', pi_State = st, pi_Workers = [''10.0.0.2:50752''],
      pi_StartedAt = 5, pi_LastUsed = 5, pi_Error = err\<rparr>, pl_port = 11500, pl_cmd = pid\<rparr>"

lemma retry_launch:
  "threads t = Some (Entering (example_request ''m'')) \<Longrightarrow> ps ''m'' = None \<Longrightarrow>
     mgr_step (retry_state ps procs n reapers threads) Launch
       (retry_state (ps(''m'' \<mapsto> retry_pipe n StateLoading [])) (insert n procs) (Suc n) (reapers(n \<mapsto> ''m''))
         (threads(t \<mapsto> Loading ''m'' 11500)))"
  using mgr_step.enter [of "retry_state ps procs n reapers threads" t "example_request ''m''" "retry_env n"]
  by (simp add: retry_state_def retry_pipe_def retry_env_def example_env_def example_request_def
      ensure_begin_def launch_def new_pipeline_def locked_section_def)

lemma retry_sees_error:
  "threads t = Some (Entering (example_request ''m'')) \<Longrightarrow> ps ''m'' = Some (retry_pipe k StateError err) \<Longrightarrow>
     mgr_step (retry_state ps procs n reapers threads) Launch
       (retry_state ps procs n reapers (threads(t \<mapsto> StoppingFailed (example_request ''m''))))"
  using mgr_step.enter [of "retry_state ps procs n reapers threads" t "example_request ''m''" "retry_env n"]
  by (simp add: retry_state_def retry_pipe_def retry_env_def example_env_def example_request_def
      ensure_begin_def locked_section_def TouchPipe_def update_info_def fun_upd_idem)

lemma retry_fails:
  "threads t = Some (Loading ''m'' 11500) \<Longrightarrow> ps ''m'' = Some (retry_pipe k st err) \<Longrightarrow>
     \<exists>err'. mgr_run (retry_state ps procs n reapers threads) [Tau, Tau]
       (retry_state (ps(''m'' \<mapsto> retry_pipe k StateError err')) procs n reapers
         (threads(t \<mapsto> Stopping ''m'' (NotReady ''m''))))"
  using run_step [OF run_step [OF run_nil mgr_step.timed_out
        [of "retry_state ps procs n reapers threads" t "''m''" 11500]] mgr_step.fail [where t = t]]
  by (auto simp: retry_state_def retry_pipe_def setError_def update_info_def)

lemma retry_call:
  "threads t = None \<Longrightarrow>
     mgr_step (retry_state ps procs n reapers threads) Tau
       (retry_state ps procs n reapers (threads(t \<mapsto> Entering rq)))"
  using mgr_step.call [of "retry_state ps procs n reapers threads" t rq] by (simp add: retry_state_def)

lemma retry_stop_first:
  "threads t = Some (Stopping ''m'' e) \<Longrightarrow> ps ''m'' = Some (retry_pipe k st err) \<Longrightarrow>
     mgr_run (retry_state ps procs n reapers threads) [Tau, Tau]
       (retry_state (ps(''m'' := None)) (procs - {k}) n reapers (threads(t \<mapsto> Finished 0 (Some (WaitFailed e)))))"
  using run_step [OF run_step [OF run_nil mgr_step.fail_stop
        [of "retry_state ps procs n reapers threads" t "''m''" e]] mgr_step.fail_kill [where t = t and pid = k]]
  by (simp add: retry_state_def retry_pipe_def stop_then_def stop_section_def kill_def)

lemma retry_stop_again:
  "threads t = Some (StoppingFailed (example_request ''m'')) \<Longrightarrow> ps ''m'' = None \<Longrightarrow>
     mgr_step (retry_state ps procs n reapers threads) Tau
       (retry_state ps procs n reapers (threads(t \<mapsto> Relaunching (example_request ''m''))))"
  using mgr_step.failed_stop [of "retry_state ps procs n reapers threads" t "example_request ''m''"]
  by (simp add: retry_state_def stop_then_def stop_section_def example_request_def fun_upd_idem)

lemma retry_relaunch:
  "threads t = Some (Relaunching (example_request ''m'')) \<Longrightarrow>
     mgr_step (retry_state ps procs n reapers threads) Relaunch
       (retry_state (ps(''m'' \<mapsto> retry_pipe n StateLoading [])) (insert n procs) (Suc n) (reapers(n \<mapsto> ''m''))
         (threads(t \<mapsto> Loading ''m'' 11500)))"
  using mgr_step.relaunch [of "retry_state ps procs n reapers threads" t "example_request ''m''" "retry_env n"]
  by (simp add: retry_state_def retry_pipe_def retry_env_def example_env_def example_request_def
      launch_def new_pipeline_def locked_section_def)

lemma retry_joins:
  assumes "threads t = None" and "ps ''m'' = Some (retry_pipe k StateError err)"
  shows "mgr_run (retry_state ps procs n reapers threads) [Tau, Launch]
    (retry_state ps procs n reapers (threads(t \<mapsto> StoppingFailed (example_request ''m''))))"
  using run_step [OF run_step [OF run_nil retry_call [where threads = threads and t = t, OF assms(1)]]
      retry_sees_error [of "threads(t \<mapsto> Entering (example_request ''m''))" t ps k err]] assms(2)
  by simp

lemma mgr_run_append: "mgr_run s' ls' s'' \<Longrightarrow> mgr_run s ls s' \<Longrightarrow> mgr_run s (ls @ ls') s''"
  by (induction rule: mgr_run.induct) (auto intro: mgr_run.intros simp flip: append_assoc)

definition reachable :: "system \<Rightarrow> bool" where
  "reachable s \<longleftrightarrow> (\<exists>ls. mgr_run (init_system ''b'' 11500) ls s)"

lemma reachable_run: "reachable s \<Longrightarrow> mgr_run s ls s' \<Longrightarrow> reachable s'"
  unfolding reachable_def using mgr_run_append by blast

lemma reachable_step: "reachable s \<Longrightarrow> mgr_step s l s' \<Longrightarrow> reachable s'"
  unfolding reachable_def using run_step by blast

text \<open>The two invariants at work: one caller has launched a pipeline.\<close>

lemma launched_once:
  "\<exists>s. mgr_run (init_system ''b'' 11500) [Tau, Launch] s \<and> sys_procs s = {0} \<and>
     mg_pipelines (sys_mgr s) ''m'' = Some (retry_pipe 0 StateLoading [])"
proof -
  have init: "init_system ''b'' 11500 = retry_state Map.empty {} 0 Map.empty Map.empty"
    by (simp add: init_system_def NewManager_def retry_state_def)
  have "mgr_run (init_system ''b'' 11500) ([] @ [Tau])
      (retry_state Map.empty {} 0 Map.empty [0 \<mapsto> Entering (example_request ''m'')])"
    unfolding init by (rule run_step [OF run_nil retry_call]) simp
  from run_step [OF this retry_launch [of _ 0]]
  have "mgr_run (init_system ''b'' 11500) [Tau, Launch] (retry_state [''m'' \<mapsto> retry_pipe 0 StateLoading []]
      {0} (Suc 0) [0 \<mapsto> ''m''] [0 \<mapsto> Entering (example_request ''m''), 0 \<mapsto> Loading ''m'' 11500])" by simp
  then show ?thesis by (intro exI conjI, assumption) (simp_all add: retry_state_def)
qed

theorem manager_invariant_witness:
  "\<exists>s. mgr_run (init_system ''b'' 11500) [Tau, Launch] s \<and> entry_ok s ''m'' (retry_pipe 0 StateLoading [])"
  using launched_once manager_invariant [of "''b''" 11500 "[Tau, Launch]"] by blast

theorem no_leaked_server_witness:
  "\<exists>s. mgr_run (init_system ''b'' 11500) [Tau, Launch] s \<and> sys_procs s = {0} \<and> (registered (sys_mgr s) 0 \<or> kill_pending s 0)"
proof -
  obtain s where s: "mgr_run (init_system ''b'' 11500) [Tau, Launch] s" "sys_procs s = {0}"
    using launched_once by blast
  have "\<not> replaced (init_system ''b'' 11500) [Tau, Launch] 0 s"
    by (auto simp: replaced_def Cons_eq_append_conv)
  with no_leaked_server [OF s(1), of 0] s show ?thesis by auto
qed

text \<open>The state in which two callers have seen the failed attempt of a third.\<close>

lemma retry_reachable:
  "\<exists>err threads. reachable (retry_state [''m'' \<mapsto> retry_pipe 0 StateError err] {0} 1 [0 \<mapsto> ''m''] threads) \<and>
     threads 0 = Some (Stopping ''m'' (NotReady ''m'')) \<and>
     threads 1 = Some (StoppingFailed (example_request ''m'')) \<and>
     threads 2 = Some (StoppingFailed (example_request ''m'')) \<and> (\<forall>t > 2. threads t = None)"
proof -
  let ?rq = "example_request ''m''"
  have init: "init_system ''b'' 11500 = retry_state Map.empty {} 0 Map.empty Map.empty"
    by (simp add: init_system_def NewManager_def retry_state_def)
  have "reachable (retry_state Map.empty {} 0 Map.empty Map.empty)"
    unfolding reachable_def init by (blast intro: run_nil)
  then have "reachable (retry_state Map.empty {} 0 Map.empty [0 \<mapsto> Entering ?rq])"
    by (rule reachable_step) (rule retry_call; simp)
  then have "reachable (retry_state [''m'' \<mapsto> retry_pipe 0 StateLoading []] {0} (Suc 0) [0 \<mapsto> ''m''] [0 \<mapsto> Entering ?rq, 0 \<mapsto> Loading ''m'' 11500])"
    by (rule reachable_step) (rule retry_launch; simp)
  then obtain err where "reachable (retry_state [''m'' \<mapsto> retry_pipe 0 StateError err] {0} 1 [0 \<mapsto> ''m'']
      [0 \<mapsto> Stopping ''m'' (NotReady ''m'')])"
    using retry_fails [of "[0 \<mapsto> Loading ''m'' 11500]" 0 "[''m'' \<mapsto> retry_pipe 0 StateLoading []]" 0 StateLoading "[]"
        "{0}" 1 "[0 \<mapsto> ''m'']"] reachable_run by fastforce
  then have "reachable (retry_state [''m'' \<mapsto> retry_pipe 0 StateError err] {0} 1 [0 \<mapsto> ''m'']
      [0 \<mapsto> Stopping ''m'' (NotReady ''m''), 1 \<mapsto> StoppingFailed ?rq])"
    by (rule reachable_run) (rule retry_joins; simp)
  then have "reachable (retry_state [''m'' \<mapsto> retry_pipe 0 StateError err] {0} 1 [0 \<mapsto> ''m'']
      [0 \<mapsto> Stopping ''m'' (NotReady ''m''), 1 \<mapsto> StoppingFailed ?rq, 2 \<mapsto> StoppingFailed ?rq])"
    by (rule reachable_run) (rule retry_joins; simp)
  then show ?thesis by (intro exI conjI, assumption, simp_all)
qed

text \<open>
  C39.  Retrying concurrently leaks a server: in an execution where two callers find the same failed
  attempt, the second relaunch overwrites the first one's pipeline, whose server keeps running
  although no pipeline lists it and nobody is about to kill it.
\<close>

theorem concurrent_retry_leaks:
  "\<exists>ls s pid. mgr_run (init_system ''b'' 11500) ls s \<and>
     pid \<in> sys_procs s \<and> \<not> registered (sys_mgr s) pid \<and> \<not> kill_pending s pid"
proof -
  let ?rq = "example_request ''m''"
  obtain err th where "reachable (retry_state [''m'' \<mapsto> retry_pipe 0 StateError err] {0} 1 [0 \<mapsto> ''m''] th)"
    and th: "th 0 = Some (Stopping ''m'' (NotReady ''m''))" "th 1 = Some (StoppingFailed ?rq)"
      "th 2 = Some (StoppingFailed ?rq)" "\<forall>t > 2. th t = None"
    using retry_reachable by blast
  define th3 where "th3 = th(0 \<mapsto> Finished 0 (Some (WaitFailed (NotReady ''m''))))"
  have "reachable (retry_state Map.empty {} 1 [0 \<mapsto> ''m''] th3)"
    using reachable_run [OF \<open>reachable _\<close> retry_stop_first [of th 0 "NotReady ''m''" _ 0 StateError err]] th
    by (simp add: th3_def)
  then have "reachable (retry_state Map.empty {} 1 [0 \<mapsto> ''m''] (th3(1 \<mapsto> Relaunching ?rq)))"
    by (rule reachable_step) (rule retry_stop_again; simp add: th th3_def del: One_nat_def)
  then have "reachable (retry_state Map.empty {} 1 [0 \<mapsto> ''m''] (th3(1 \<mapsto> Relaunching ?rq, 2 \<mapsto> Relaunching ?rq)))"
    by (rule reachable_step) (rule retry_stop_again; simp add: th th3_def del: One_nat_def)
  then have "reachable (retry_state [''m'' \<mapsto> retry_pipe 1 StateLoading []] {1} (Suc 1) [0 \<mapsto> ''m'', 1 \<mapsto> ''m'']
      (th3(1 \<mapsto> Relaunching ?rq, 2 \<mapsto> Relaunching ?rq, 1 \<mapsto> Loading ''m'' 11500)))"
    by (rule reachable_step) (rule retry_relaunch; simp add: th th3_def del: One_nat_def)
  then have "reachable (retry_state ([''m'' \<mapsto> retry_pipe 1 StateLoading []](''m'' \<mapsto> retry_pipe (Suc 1) StateLoading []))
      (insert (Suc 1) {1}) (Suc (Suc 1)) ([0 \<mapsto> ''m'', 1 \<mapsto> ''m''](Suc 1 \<mapsto> ''m''))
      (th3(1 \<mapsto> Relaunching ?rq, 2 \<mapsto> Relaunching ?rq, 1 \<mapsto> Loading ''m'' 11500, 2 \<mapsto> Loading ''m'' 11500)))"
    (is "reachable ?s") by (rule reachable_step) (rule retry_relaunch; simp add: th th3_def del: One_nat_def)
  moreover have "\<not> kill_pending ?s 1"
  proof -
    have "t = 0 \<or> t = 1 \<or> t = 2 \<or> t > 2" for t :: nat by arith
    with th show ?thesis by (auto simp: kill_pending_def retry_state_def th3_def split: if_splits)
  qed
  moreover have "1 \<in> sys_procs ?s" "\<not> registered (sys_mgr ?s) 1"
    by (auto simp: retry_state_def registered_def retry_pipe_def)
  ultimately show ?thesis unfolding reachable_def by blast
qed

lemma retry_reaped:
  "ps ''m'' = Some (retry_pipe k StateLoading err) \<Longrightarrow> k \<in> procs \<Longrightarrow> reapers k = Some ''m'' \<Longrightarrow>
     mgr_run (retry_state ps procs n reapers threads) [Exit k, Tau]
       (retry_state (ps(''m'' := None)) (procs - {k}) n (reapers(k := None)) threads)"
  using run_step [OF run_step [OF run_nil mgr_step.exit [of k "retry_state ps procs n reapers threads"]]
      mgr_step.reaped [of "kill k (retry_state ps procs n reapers threads)" k "''m''"]]
  by (simp add: retry_state_def retry_pipe_def kill_def reap_def)

lemma retry_polled:
  "threads t = Some (Loading ''m'' 11500) \<Longrightarrow> ps ''m'' = Some p \<Longrightarrow>
     mgr_run (retry_state ps procs n reapers threads) [Tau, Tau]
       (retry_state ps procs n reapers (threads(t \<mapsto> Readying ''m'' 11500)))"
  using run_step [OF run_step [OF run_nil mgr_step.seen_alive
        [of "retry_state ps procs n reapers threads" t "''m''" 11500]] mgr_step.loaded [where t = t]]
  by (simp add: retry_state_def alive_def)

lemma retry_ready:
  "threads t = Some (Readying ''m'' 11500) \<Longrightarrow> ps ''m'' = Some (retry_pipe k st err) \<Longrightarrow>
     mgr_step (retry_state ps procs n reapers threads) Tau
       (retry_state (ps(''m'' \<mapsto> retry_pipe k StateReady err)) procs n reapers (threads(t \<mapsto> Finished 11500 None)))"
  using mgr_step.ready [of "retry_state ps procs n reapers threads" t "''m''" 11500]
  by (simp add: retry_state_def retry_pipe_def setState_def update_info_def)

text \<open>
  A pipeline can be declared ready before its model is loaded: the state is set by the model's
  name, so a caller whose server answered and then exited marks the pipeline that another caller
  has started since, and that is still waiting for its first successful poll.
\<close>

theorem ready_before_loaded:
  "\<exists>ls s t. mgr_run (init_system ''b'' 11500) ls s \<and>
     Port (sys_mgr s) ''m'' = Some 11500 \<and> sys_threads s t = Some (Loading ''m'' 11500) \<and>
     sys_procs s = {1} \<and> registered (sys_mgr s) 1"
proof -
  let ?rq = "example_request ''m''"
  have init: "init_system ''b'' 11500 = retry_state Map.empty {} 0 Map.empty Map.empty"
    by (simp add: init_system_def NewManager_def retry_state_def)
  have "reachable (retry_state Map.empty {} 0 Map.empty Map.empty)"
    unfolding reachable_def init by (blast intro: run_nil)
  then have "reachable (retry_state Map.empty {} 0 Map.empty [0 \<mapsto> Entering ?rq])"
    by (rule reachable_step) (rule retry_call; simp)
  then have "reachable (retry_state [''m'' \<mapsto> retry_pipe 0 StateLoading []] {0} (Suc 0) [0 \<mapsto> ''m'']
      [0 \<mapsto> Entering ?rq, 0 \<mapsto> Loading ''m'' 11500])"
    by (rule reachable_step) (rule retry_launch; simp)
  then have "reachable (retry_state [''m'' \<mapsto> retry_pipe 0 StateLoading []] {0} (Suc 0) [0 \<mapsto> ''m'']
      [0 \<mapsto> Entering ?rq, 0 \<mapsto> Loading ''m'' 11500, 0 \<mapsto> Readying ''m'' 11500])"
    by (rule reachable_run) (rule retry_polled; simp)
  then have "reachable (retry_state ([''m'' \<mapsto> retry_pipe 0 StateLoading []](''m'' := None)) ({0} - {0}) (Suc 0)
      ([0 \<mapsto> ''m''](0 := None)) [0 \<mapsto> Entering ?rq, 0 \<mapsto> Loading ''m'' 11500, 0 \<mapsto> Readying ''m'' 11500])"
    by (rule reachable_run) (rule retry_reaped; simp)
  then have "reachable (retry_state Map.empty {} 1 Map.empty [0 \<mapsto> Readying ''m'' 11500])"
    by simp
  then have "reachable (retry_state Map.empty {} 1 Map.empty [0 \<mapsto> Readying ''m'' 11500, 1 \<mapsto> Entering ?rq])"
    by (rule reachable_step) (rule retry_call; simp)
  then have "reachable (retry_state [''m'' \<mapsto> retry_pipe 1 StateLoading []] {1} (Suc 1) [1 \<mapsto> ''m'']
      [0 \<mapsto> Readying ''m'' 11500, 1 \<mapsto> Entering ?rq, 1 \<mapsto> Loading ''m'' 11500])"
    by (rule reachable_step) (rule retry_launch; simp)
  then have "reachable (retry_state [''m'' \<mapsto> retry_pipe 1 StateLoading [], ''m'' \<mapsto> retry_pipe 1 StateReady []]
      {1} (Suc 1) [1 \<mapsto> ''m''] [0 \<mapsto> Readying ''m'' 11500, 1 \<mapsto> Entering ?rq, 1 \<mapsto> Loading ''m'' 11500,
       0 \<mapsto> Finished 11500 None])"
    (is "reachable ?s") by (rule reachable_step) (rule retry_ready; simp)
  then obtain ls where "mgr_run (init_system ''b'' 11500) ls ?s" unfolding reachable_def ..
  moreover have "Port (sys_mgr ?s) ''m'' = Some 11500" "sys_threads ?s 1 = Some (Loading ''m'' 11500)"
    "sys_procs ?s = {1}" "registered (sys_mgr ?s) 1"
    by (simp_all add: retry_state_def retry_pipe_def Port_def registered_def)
  ultimately show ?thesis by blast
qed

end
