(* ===== verification/PipelineSpec.thy ===== *)
theory PipelineSpec
  imports PipelineLeak
begin

text \<open>
  What the pipeline manager promises, without its code: an abstract life cycle of the servers it lists, and
  the proof that every interleaving of its goroutines (\<open>mgr_step\<close>) follows it.  The abstract state is
  what a model's entry shows (server, port, state) and the number of servers started so far.
\<close>

section \<open>The life cycle\<close>

type_synonym life = "(string \<rightharpoonup> nat \<times> int \<times> PipelineState) \<times> nat"

text \<open>
  A server that starts is new and loads; only a caller that saw its predecessor fail (\<open>Relaunch\<close>)
  may replace an entry; a server that is listed becomes ready or fails, keeping its port, or is no longer listed.
\<close>

inductive life_step :: "int \<Rightarrow> label \<Rightarrow> life \<Rightarrow> life \<Rightarrow> bool" for base where
  stutter: "life_step base l x x"
| start: "base \<le> port \<Longrightarrow> port < base + 100 \<Longrightarrow> l = Relaunch \<or> l = Launch \<and> v model = None \<Longrightarrow>
    life_step base l (v, n) (v(model \<mapsto> (n, port, StateLoading)), Suc n)"
| advance: "v model = Some (pid, port, st) \<Longrightarrow> st' = StateReady \<or> st' = StateError \<Longrightarrow>
    life_step base l (v, n) (v(model \<mapsto> (pid, port, st')), n)"
| vanish: "life_step base l (v, n) (v(model := None), n)"

inductive life_run :: "int \<Rightarrow> life \<Rightarrow> label list \<Rightarrow> life \<Rightarrow> bool" for base x where
  life_nil: "life_run base x [] x"
| life_cons: "life_run base x ls y \<Longrightarrow> life_step base l y z \<Longrightarrow> life_run base x (ls @ [l]) z"

definition shown :: "Manager \<Rightarrow> string \<Rightarrow> (nat \<times> int \<times> PipelineState) option" where
  "shown m model = map_option (\<lambda>p. (pl_cmd p, pl_port p, pi_State (pl_info p))) (mg_pipelines m model)"

definition life_of :: "system \<Rightarrow> life" where
  "life_of s = (shown (sys_mgr s), sys_next s)"

section \<open>Every step of the manager is a step of the life cycle\<close>

lemma life_of_threads [simp]: "life_of (s\<lparr>sys_threads := ts\<rparr>) = life_of s"
  by (simp add: life_of_def)

lemma life_of_kill [simp]: "life_of (kill pid s) = life_of s"
  by (simp add: life_of_def kill_def)

lemma shown_update:
  "shown (update_info model f m) =
     (case mg_pipelines m model of
        None \<Rightarrow> shown m
      | Some p \<Rightarrow> (shown m)(model \<mapsto> (pl_cmd p, pl_port p, pi_State (f (pl_info p)))))"
  by (auto simp: shown_def update_info_def fun_eq_iff split: option.split)

lemma shown_same: "(\<And>i. pi_State (f i) = pi_State i) \<Longrightarrow> shown (update_info model f m) = shown m"
  by (auto simp: shown_update shown_def fun_eq_iff split: option.split)

lemma shown_TouchPipe [simp]: "shown (TouchPipe now model m) = shown m"
  by (simp add: TouchPipe_def shown_same)

lemma life_advance:
  assumes "\<And>i. pi_State (f i) = st" and "st = StateReady \<or> st = StateError"
  shows "life_step base l (life_of s) (shown (update_info model f (sys_mgr s)), sys_next s)"
proof (cases "mg_pipelines (sys_mgr s) model")
  case None
  then show ?thesis by (simp add: shown_update life_of_def life_step.stutter)
next
  case (Some p)
  then have "shown (sys_mgr s) model = Some (pl_cmd p, pl_port p, pi_State (pl_info p))" by (simp add: shown_def)
  then have "life_step base l (shown (sys_mgr s), sys_next s) ((shown (sys_mgr s))(model \<mapsto> (pl_cmd p, pl_port p, st)), sys_next s)"
    using assms(2) by (rule life_step.advance)
  with assms(1) Some show ?thesis
    by (simp add: shown_update life_of_def)
qed

lemma life_stop_then: "life_step base l (life_of s) (life_of (stop_then t model killing done s))"
proof -
  have "shown (fst (stop_section model m)) = (shown m)(model := None)" for m
    by (simp add: shown_def fun_eq_iff)
  then show ?thesis by (simp add: stop_then_def life_of_def life_step.vanish)
qed

lemma life_reap: "life_step base l (life_of s) (shown (reap pid model (sys_mgr s)), sys_next s)"
proof -
  have "shown (reap pid model m) = shown m \<or> shown (reap pid model m) = (shown m)(model := None)" for m
    by (auto simp: reap_def shown_def fun_eq_iff split: option.split)
  from this [of "sys_mgr s"] show ?thesis
    unfolding life_of_def by (metis life_step.stutter life_step.vanish)
qed

lemma life_launch:
  assumes "le_pid env = sys_next s" and "mg_basePort (sys_mgr s) = base"
    and "l = Relaunch \<or> l = Launch \<and> mg_pipelines (sys_mgr s) (rq_model rq) = None"
  shows "life_step base l (life_of s) (life_of (locked_section t rq (launch env rq (sys_mgr s)) s))"
proof -
  obtain m out where L: "launch env rq (sys_mgr s) = (m, out)" by fastforce
  show ?thesis
  proof (cases out)
    case (Launched port)
    with L have free: "freePort (le_free env) (mg_basePort (sys_mgr s)) = Inr port"
      and m: "m = (sys_mgr s)\<lparr>mg_pipelines := (mg_pipelines (sys_mgr s))(rq_model rq \<mapsto> new_pipeline env rq port)\<rparr>"
      by (simp_all add: launch_Launched)
    have range: "base \<le> port" "port < base + 100"
      using free free_from_Some [of "le_free env" base 100 port] by (auto simp: freePort_def assms(2) split: option.splits)
    have "shown m = (shown (sys_mgr s))(rq_model rq \<mapsto> (sys_next s, port, StateLoading))"
      by (simp add: m shown_def fun_eq_iff new_pipeline_def assms(1))
    moreover have "l = Relaunch \<or> l = Launch \<and> shown (sys_mgr s) (rq_model rq) = None"
      using assms(3) by (auto simp: shown_def)
    ultimately show ?thesis
      using life_step.start [OF range, of l "shown (sys_mgr s)" "rq_model rq" "sys_next s"]
      by (simp add: L Launched locked_section_def life_of_def)
  next
    case (Returned port e)
    with L launch_Returned [of env rq "sys_mgr s" m port e] show ?thesis
      by (simp add: locked_section_def life_step.stutter)
  qed (use L launch_not_failed [of env rq "sys_mgr s"] in auto)
qed

lemma life_enter:
  assumes "le_pid env = sys_next s" and "mg_basePort (sys_mgr s) = base"
  shows "life_step base Launch (life_of s) (life_of (locked_section t rq (ensure_begin env rq (sys_mgr s)) s))"
proof (cases "mg_bin (sys_mgr s) = []")
  case True
  then show ?thesis by (simp add: ensure_begin_def locked_section_def life_step.stutter)
next
  case bin: False
  show ?thesis
  proof (cases "mg_pipelines (sys_mgr s) (rq_model rq)")
    case None
    with life_launch [OF assms, of Launch rq t] bin show ?thesis by (simp add: ensure_begin_def)
  next
    case (Some p)
    with bin show ?thesis
      by (cases "pi_State (pl_info p)") (simp_all add: ensure_begin_def locked_section_def life_of_def life_step.stutter)
  qed
qed

lemma launch_basePort: "mg_basePort (fst (launch env rq m)) = mg_basePort m"
  by (simp add: launch_def split: sum.split option.split)

lemma step_basePort: "mgr_step s l s' \<Longrightarrow> mg_basePort (sys_mgr s') = mg_basePort (sys_mgr s)"
proof (induction rule: mgr_step.induct)
  have spawn: "sys_mgr (spawn rq out s) = sys_mgr s" for rq out s by (cases out) simp_all
  case (enter s t rq env)
  show ?case
    by (simp add: locked_section_def spawn ensure_begin_def launch_basePort TouchPipe_def split: option.split)
next
  have spawn: "sys_mgr (spawn rq out s) = sys_mgr s" for rq out s by (cases out) simp_all
  case (relaunch s t rq env)
  show ?case by (simp add: locked_section_def spawn launch_basePort)
qed (simp_all add: stop_then_def setState_def setError_def TouchPipe_def reap_def kill_def split: option.split)

lemma step_simulated:
  assumes "mgr_step s l s'" and "mg_basePort (sys_mgr s) = base"
  shows "life_step base l (life_of s) (life_of s')"
  using assms
proof (induction rule: mgr_step.induct)
  case (enter s t rq env)
  then show ?case by (intro life_enter)
next
  case (relaunch s t rq env)
  then show ?case by (intro life_launch) simp_all
next
  case (ready s t model port)
  show ?case
    using life_advance [of "\<lambda>i. i\<lparr>pi_State := StateReady\<rparr>" StateReady base Tau s model]
    by (simp add: setState_def life_of_def)
next
  case (fail s t model e)
  show ?case
    using life_advance [of "\<lambda>i. i\<lparr>pi_State := StateError, pi_Error := wait_error_text e\<rparr>" StateError base Tau s model]
    by (simp add: setError_def life_of_def)
next
  case (reaped s pid model)
  show ?case using life_reap [of base Tau s pid model] by (simp add: life_of_def)
next
  case (touch s now model)
  show ?case by (simp add: life_of_def life_step.stutter)
qed (simp_all add: life_step.stutter life_stop_then)

lemma run_simulated:
  "mgr_run s ls s' \<Longrightarrow> mg_basePort (sys_mgr s) = base \<Longrightarrow>
     life_run base (life_of s) ls (life_of s') \<and> mg_basePort (sys_mgr s') = base"
  by (induction rule: mgr_run.induct) (auto intro: life_run.intros step_simulated simp: step_basePort)

text \<open>
  C10.  The manager implements its life cycle: in every interleaving of callers, shutdowns, collector ticks,
  exits and reapers, what it lists changes only by a new server that starts to load on a port of its
  range, in a place that is free unless the caller replaces a failed server, by a listed server that
  becomes ready or fails on its port, and by a server that is no longer listed.
\<close>

theorem manager_refines_life_cycle:
  assumes "mgr_run (init_system bin base) ls s"
  shows "life_run base (Map.empty, 0) ls (life_of s)"
proof -
  have "life_of (init_system bin base) = (Map.empty, 0)" "mg_basePort (sys_mgr (init_system bin base)) = base"
    by (simp_all add: life_of_def init_system_def NewManager_def shown_def fun_eq_iff)
  with run_simulated [OF assms] show ?thesis by simp
qed

theorem manager_refines_life_cycle_witness:
  "\<exists>s. life_run 11500 (Map.empty, 0) [Tau, Launch] (life_of s) \<and> fst (life_of s) ''m'' = Some (0, 11500, StateLoading)"
proof -
  obtain s where s: "mgr_run (init_system ''b'' 11500) [Tau, Launch] s"
    "mg_pipelines (sys_mgr s) ''m'' = Some (retry_pipe 0 StateLoading [])" using launched_once by blast
  then have "fst (life_of s) ''m'' = Some (0, 11500, StateLoading)"
    by (simp add: life_of_def shown_def retry_pipe_def)
  with manager_refines_life_cycle [OF s(1)] show ?thesis by blast
qed

section \<open>What follows for a listed server\<close>

lemma life_run_history:
  assumes "life_run base x ls y" and "\<forall>k e. fst x k = Some e \<longrightarrow> fst e < snd x"
  shows "snd x \<le> snd y \<and> (\<forall>k pid port st. fst y k = Some (pid, port, st) \<longrightarrow> pid < snd y \<and>
    (snd x \<le> pid \<or> (\<exists>st0. fst x k = Some (pid, port, st0) \<and> (st0 \<noteq> StateLoading \<longrightarrow> st \<noteq> StateLoading))))"
  using assms
proof (induction rule: life_run.induct)
  case life_nil
  then show ?case by auto
next
  case (life_cons ls y l z)
  from life_cons.hyps(2) life_cons.IH [OF life_cons.prems] show ?case
    by (cases rule: life_step.cases) (force split: if_splits)+
qed

text \<open>
  C11.  A server that is listed keeps its identity: whatever happens after some moment, what is listed for a
  model is either a server that was started later, or the very server listed at that moment, on the same
  port, and if it had left the loading state it is not loading again.  So a port that a caller was given is
  never silently taken over by an older server of the model.
\<close>

theorem listed_server_history:
  assumes "mgr_run (init_system bin base) ls s" and "mgr_run s ls' s'" and "mg_pipelines (sys_mgr s') model = Some q"
  shows "sys_next s \<le> pl_cmd q \<or>
    (\<exists>p. mg_pipelines (sys_mgr s) model = Some p \<and> pl_cmd p = pl_cmd q \<and> pl_port p = pl_port q \<and>
       (pi_State (pl_info p) \<noteq> StateLoading \<longrightarrow> pi_State (pl_info q) \<noteq> StateLoading))"
proof -
  have init: "life_of (init_system bin base) = (Map.empty, 0)" "mg_basePort (sys_mgr (init_system bin base)) = base"
    by (simp_all add: life_of_def init_system_def NewManager_def shown_def fun_eq_iff)
  from run_simulated [OF assms(1) init(2)] have first: "life_run base (Map.empty, 0) ls (life_of s)"
    and base: "mg_basePort (sys_mgr s) = base" by (simp_all add: init)
  have "\<forall>k e. fst (life_of s) k = Some e \<longrightarrow> fst e < snd (life_of s)"
    using life_run_history [OF first] by fastforce
  from life_run_history [OF conjunct1 [OF run_simulated [OF assms(2) base]] this] assms(3)
  show ?thesis by (fastforce simp: life_of_def shown_def)
qed

theorem listed_server_history_witness:
  "\<exists>s s' q. mgr_run (init_system ''b'' 11500) [Tau, Launch] s \<and> mgr_run s [Tau] s' \<and>
     mg_pipelines (sys_mgr s') ''m'' = Some q \<and> pi_LastUsed (pl_info q) = 9 \<and>
     (sys_next s \<le> pl_cmd q \<or> (\<exists>p. mg_pipelines (sys_mgr s) ''m'' = Some p \<and> pl_port p = pl_port q))"
proof -
  obtain s where s: "mgr_run (init_system ''b'' 11500) [Tau, Launch] s"
    "mg_pipelines (sys_mgr s) ''m'' = Some (retry_pipe 0 StateLoading [])" using launched_once by blast
  let ?s = "s\<lparr>sys_mgr := TouchPipe 9 ''m'' (sys_mgr s)\<rparr>"
  have run: "mgr_run s [Tau] ?s" using run_step [OF run_nil mgr_step.touch, of s 9 "''m''"] by simp
  obtain q where q: "mg_pipelines (sys_mgr ?s) ''m'' = Some q" "pi_LastUsed (pl_info q) = 9"
    using s(2) by (simp add: TouchPipe_def update_info_def)
  from listed_server_history [OF s(1) run q(1)] s(1) run q show ?thesis by blast
qed

end
