(* ===== verification/PipelineAlone.thy ===== *)
theory PipelineAlone
  imports PipelineSpec
begin

text \<open>
  The two models of \<^verbatim>\<open>Ensure\<close> agree: the function \<open>Ensure\<close>, as a caller without interference runs it, is an
  execution of the step relation \<open>mgr_step\<close> in which only this caller moves.  What
  \<^verbatim>\<open>AgentSplit\<close> and the theories on it show with the function is therefore a behaviour of the
  goroutines, and the step relation can make progress.
\<close>

section \<open>A caller that moves alone\<close>

definition reaches :: "nat \<Rightarrow> system \<Rightarrow> Manager \<Rightarrow> thread \<Rightarrow> bool" where
  "reaches t s m th \<longleftrightarrow>
     (\<exists>ls s'. mgr_run s ls s' \<and> sys_mgr s' = m \<and> sys_threads s' t = Some th \<and>
        (\<forall>t'. t' \<noteq> t \<longrightarrow> sys_threads s' t' = sys_threads s t'))"

abbreviation ends :: "nat \<Rightarrow> system \<Rightarrow> Manager \<Rightarrow> int \<Rightarrow> ensure_error option \<Rightarrow> bool" where
  "ends t s m port e \<equiv> reaches t s m (Finished port e)"

lemma mgr_run_cons: "mgr_run s' ls s'' \<Longrightarrow> mgr_step s l s' \<Longrightarrow> mgr_run s (l # ls) s''"
proof (induction rule: mgr_run.induct)
  case (run_nil s')
  then show ?case using mgr_run.run_step [OF mgr_run.run_nil] by fastforce
next
  case (run_step s' ls s'' l' s''')
  then show ?case using mgr_run.run_step [of s "l # ls" s'' l' s'''] by simp
qed

lemma reaches_here: "sys_threads s t = Some th \<Longrightarrow> reaches t s (sys_mgr s) th"
  unfolding reaches_def by (blast intro: run_nil)

lemma reaches_step:
  assumes "mgr_step s l s'" and "\<And>t'. t' \<noteq> t \<Longrightarrow> sys_threads s' t' = sys_threads s t'" and "reaches t s' m th"
  shows "reaches t s m th"
  using assms unfolding reaches_def by (metis mgr_run_cons)

lemma stop_then_mgr [simp]: "sys_mgr (stop_then t model killing done s) = stop model (sys_mgr s)"
  by (simp add: stop_then_def stop_def)

lemma stop_then_others: "t' \<noteq> t \<Longrightarrow> sys_threads (stop_then t model killing done s) t' = sys_threads s t'"
  by (simp add: stop_then_def)

lemma ends_stopping:
  assumes "sys_threads s t = Some (Stopping model e)"
  shows "ends t s (stop model (sys_mgr s)) 0 (Some (WaitFailed e))"
proof -
  let ?s = "stop_then t model (\<lambda>pid. Killing pid e) (Finished 0 (Some (WaitFailed e))) s"
  have "ends t ?s (sys_mgr ?s) 0 (Some (WaitFailed e))"
  proof (cases "snd (stop_section model (sys_mgr s))")
    case None
    then show ?thesis by (intro reaches_here) (simp add: stop_then_def)
  next
    case (Some pid)
    then have k: "sys_threads ?s t = Some (Killing pid e)" by (auto simp: stop_then_def)
    have "ends t (goto t (Finished 0 (Some (WaitFailed e))) (kill pid ?s)) (sys_mgr ?s) 0 (Some (WaitFailed e))"
      using reaches_here [of "goto t (Finished 0 (Some (WaitFailed e))) (kill pid ?s)" t] by (simp add: kill_def)
    then show ?thesis by (rule reaches_step [OF fail_kill [OF k], rotated]) (simp add: kill_def)
  qed
  then show ?thesis
    using reaches_step [OF fail_stop [OF assms]] stop_then_others by fastforce
qed

lemma ends_failing:
  assumes "sys_threads s t = Some (Failing model e)"
  shows "ends t s (stop model (setError model (wait_error_text e) (sys_mgr s))) 0 (Some (WaitFailed e))"
proof -
  let ?s = "goto t (Stopping model e) (s\<lparr>sys_mgr := setError model (wait_error_text e) (sys_mgr s)\<rparr>)"
  have "ends t ?s (stop model (sys_mgr ?s)) 0 (Some (WaitFailed e))" by (rule ends_stopping) simp
  then show ?thesis using reaches_step [OF fail [OF assms]] by fastforce
qed

text \<open>Without interference the server does not exit while it loads.\<close>

definition undisturbed :: "string \<Rightarrow> (int \<Rightarrow> wait_error option) \<Rightarrow> bool" where
  "undisturbed model wait \<longleftrightarrow> (\<forall>port. wait port = None \<or> wait port = Some (NotReady model) \<or> (\<exists>err. wait port = Some (Cancelled err)))"

lemma ends_loading:
  assumes "sys_threads s t = Some (Loading model port)" and "alive (sys_mgr s) model" and "undisturbed model wait"
    and "ensure_wait model wait port (sys_mgr s) = (m, port', e)"
  shows "ends t s m port' e"
proof (cases "wait port")
  case None
  let ?p = "goto t (Polling model port) s"
  let ?r = "goto t (Readying model port) ?p"
  let ?f = "goto t (Finished port None) (?r\<lparr>sys_mgr := setState model StateReady (sys_mgr ?r)\<rparr>)"
  have "ends t ?f (setState model StateReady (sys_mgr s)) port None"
    using reaches_here [of ?f t "Finished port None"] by simp
  then have "ends t ?r (setState model StateReady (sys_mgr s)) port None"
    by (rule reaches_step [OF ready, rotated 2]) simp_all
  then have "ends t ?p (setState model StateReady (sys_mgr s)) port None"
    by (rule reaches_step [OF loaded, rotated 2]) simp_all
  then have "ends t s (setState model StateReady (sys_mgr s)) port None"
    by (rule reaches_step [OF seen_alive [OF assms(1,2)], rotated]) simp
  with None assms(4) show ?thesis by (simp add: ensure_wait_def)
next
  case (Some err)
  let ?s = "goto t (Failing model err) s"
  have "mgr_step s Tau ?s"
    using Some assms(1,3) cancelled timed_out unfolding undisturbed_def by (metis option.distinct(1) option.inject)
  moreover have "\<And>t'. t' \<noteq> t \<Longrightarrow> sys_threads ?s t' = sys_threads s t'" by simp
  moreover have "ends t ?s (stop model (setError model (wait_error_text err) (sys_mgr s))) 0 (Some (WaitFailed err))"
    using ends_failing [of ?s t model err] by simp
  ultimately have "ends t s (stop model (setError model (wait_error_text err) (sys_mgr s))) 0 (Some (WaitFailed err))"
    by (rule reaches_step)
  with Some assms(4) show ?thesis by (simp add: ensure_wait_def)
qed

lemma ends_section:
  assumes "undisturbed (rq_model rq) wait"
    and "r = (m1, out)" and "out \<noteq> Failed" and "\<And>port. out = Launched port \<Longrightarrow> alive m1 (rq_model rq)"
    and "ensure_finish (rq_model rq) wait r = (m, port, e)"
  shows "ends t (locked_section t rq r s) m port e"
proof (cases out)
  case (Returned p err)
  with assms(2,5) show ?thesis
    using reaches_here [of "locked_section t rq r s" t "Finished p err"] by (simp add: locked_section_def ensure_finish_def)
next
  case (Joined p)
  let ?s = "locked_section t rq r s"
  have "ends t (goto t (Finished p (map_option WaitFailed (wait p))) ?s) (sys_mgr ?s) p (map_option WaitFailed (wait p))"
    using reaches_here [of "goto t (Finished p (map_option WaitFailed (wait p))) ?s" t] by simp
  then have "ends t ?s (sys_mgr ?s) p (map_option WaitFailed (wait p))"
    by (rule reaches_step [OF join_done, rotated 2]) (simp_all add: locked_section_def assms(2) Joined)
  with assms(2,5) Joined show ?thesis by (auto simp: locked_section_def ensure_finish_def)
next
  case (Launched p)
  let ?s = "locked_section t rq r s"
  have "sys_threads ?s t = Some (Loading (rq_model rq) p)" "sys_mgr ?s = m1"
    by (simp_all add: locked_section_def assms(2) Launched)
  with assms(1,2,5) assms(4) [OF Launched] Launched show ?thesis
    by (intro ends_loading [where wait = wait]) (simp_all add: ensure_finish_def)
qed (use assms(3) in simp)

lemma locked_section_others: "t' \<noteq> t \<Longrightarrow> sys_threads (locked_section t rq r s) t' = sys_threads s t'"
  by (cases "snd r") (simp_all add: locked_section_def)

lemma launch_alive: "launch env rq m = (m1, Launched port) \<Longrightarrow> alive m1 (rq_model rq)"
  by (auto simp: launch_Launched alive_def)

lemma ends_relaunch:
  assumes "sys_threads s t = Some (Relaunching rq)" and "le_pid env = sys_next s" and "undisturbed (rq_model rq) wait"
    and "ensure_finish (rq_model rq) wait (launch env rq (sys_mgr s)) = (m, port, e)"
  shows "ends t s m port e"
proof -
  obtain m1 out where l: "launch env rq (sys_mgr s) = (m1, out)" by fastforce
  have "ends t (locked_section t rq (launch env rq (sys_mgr s)) s) m port e"
    using l launch_not_failed [of env rq "sys_mgr s"] launch_alive [of env rq "sys_mgr s" m1]
    by (intro ends_section [OF assms(3) l _ _ assms(4)]) auto
  then show ?thesis
    by (rule reaches_step [OF relaunch [where env = env, OF assms(1,2)], rotated]) (simp add: locked_section_others)
qed

text \<open>A sweep: what \<^verbatim>\<open>StopAll\<close> and a tick of the collector do with the models on their list.\<close>

lemma reaches_swept: "sys_threads s t = Some (Sweeping models) \<Longrightarrow> reaches t s (fold stop models (sys_mgr s)) (Sweeping [])"
proof (induction models arbitrary: s)
  case Nil
  then show ?case using reaches_here by fastforce
next
  case (Cons model models)
  let ?s = "stop_then t model (\<lambda>pid. SweepKilling pid models) (Sweeping models) s"
  have "reaches t ?s (fold stop models (stop model (sys_mgr s))) (Sweeping [])"
  proof (cases "snd (stop_section model (sys_mgr s))")
    case None
    then have "sys_threads ?s t = Some (Sweeping models)" by (simp add: stop_then_def)
    from Cons.IH [OF this] show ?thesis by simp
  next
    case (Some pid)
    then have k: "sys_threads ?s t = Some (SweepKilling pid models)" by (auto simp: stop_then_def)
    have "reaches t (goto t (Sweeping models) (kill pid ?s)) (fold stop models (stop model (sys_mgr s))) (Sweeping [])"
      using Cons.IH [of "goto t (Sweeping models) (kill pid ?s)"] by (simp add: kill_def)
    then show ?thesis by (rule reaches_step [OF sweep_kill [OF k], rotated]) (simp add: kill_def)
  qed
  then show ?case
    using reaches_step [OF sweep [OF Cons.prems]] stop_then_others by fastforce
qed

lemma sweeps_are_executions:
  assumes "sys_threads s t = None" and "iter_order (mg_pipelines (sys_mgr s)) order"
  shows "reaches t s (fst (StopAll order (sys_mgr s))) (Sweeping [])" and "reaches t s (fst (gc_tick now order (sys_mgr s))) (Sweeping [])"
proof -
  have "reaches t (goto t (Sweeping models) s) (fold stop models (sys_mgr s)) (Sweeping [])" for models
    using reaches_swept [of "goto t (Sweeping models) s"] by simp
  then show "reaches t s (fst (StopAll order (sys_mgr s))) (Sweeping [])" "reaches t s (fst (gc_tick now order (sys_mgr s))) (Sweeping [])"
    using reaches_step [OF stop_all [OF assms]] reaches_step [OF collect [OF assms]]
    by (fastforce simp: StopAll_def gc_tick_def stop_each_manager)+
qed

text \<open>
  The function \<open>Ensure\<close> is what the goroutines do when only one of them moves: from any state there is an execution
  in which a new caller returns exactly its result and leaves exactly its manager behind, every other
  goroutine staying where it is.
\<close>

theorem Ensure_is_execution:
  assumes "Ensure env wait rq (sys_mgr s) = (m, port, e)" and "sys_threads s t = None"
    and "le_pid env = sys_next s" and "undisturbed (rq_model rq) wait"
  shows "\<exists>ls s'. mgr_run s ls s' \<and> sys_mgr s' = m \<and> sys_threads s' t = Some (Finished port e) \<and>
    (\<forall>t'. t' \<noteq> t \<longrightarrow> sys_threads s' t' = sys_threads s t')"
proof -
  let ?c = "goto t (Entering rq) s"
  obtain m1 out where b: "ensure_begin env rq (sys_mgr s) = (m1, out)" by fastforce
  let ?l = "locked_section t rq (ensure_begin env rq (sys_mgr s)) ?c"
  have "ends t ?l m port e"
  proof (cases "out = Failed")
    case False
    then have "Ensure env wait rq (sys_mgr s) = ensure_finish (rq_model rq) wait (m1, out)"
      by (cases out) (simp_all add: Ensure_def b)
    moreover have "alive m1 (rq_model rq)" if "out = Launched p" for p
      using b that launch_alive by (auto simp: ensure_begin_def split: if_splits option.splits PipelineState.splits)
    ultimately show ?thesis using assms(1) False by (intro ends_section [OF assms(4) b]) (simp_all add: b)
  next
    case True
    let ?r = "stop_then t (rq_model rq) (\<lambda>pid. KillingFailed pid rq) (Relaunching rq) ?l"
    have l: "sys_threads ?l t = Some (StoppingFailed rq)" "sys_mgr ?l = m1" "sys_next ?l = sys_next s"
      by (simp_all add: locked_section_def b True)
    from assms(1) have fin: "ensure_finish (rq_model rq) wait (launch env rq (stop (rq_model rq) m1)) = (m, port, e)"
      by (simp add: Ensure_def b True)
    have "ends t ?r m port e"
    proof (cases "snd (stop_section (rq_model rq) m1)")
      case None
      then show ?thesis
        using fin assms(3,4) l by (intro ends_relaunch [of ?r t rq env wait]) (auto simp: stop_then_def stop_def)
    next
      case (Some pid)
      then have k: "sys_threads ?r t = Some (KillingFailed pid rq)" using l by (auto simp: stop_then_def)
      let ?k = "goto t (Relaunching rq) (kill pid ?r)"
      have "ends t ?k m port e"
        using fin assms(3,4) l by (intro ends_relaunch [of ?k t rq env wait]) (auto simp: stop_then_def stop_def kill_def)
      then show ?thesis by (rule reaches_step [OF failed_kill [OF k], rotated]) (simp add: kill_def)
    qed
    then show ?thesis by (rule reaches_step [OF failed_stop [OF l(1)], rotated]) (simp add: stop_then_others)
  qed
  moreover have "mgr_step ?c Launch ?l" using enter [of ?c t rq env] assms(3) by simp
  ultimately have "ends t ?c m port e" using locked_section_others by (blast intro: reaches_step)
  then have "ends t s m port e" by (rule reaches_step [OF call [OF assms(2)], rotated]) simp
  then show ?thesis by (simp add: reaches_def)
qed

theorem Ensure_is_execution_witness:
  "\<exists>ls s'. mgr_run (init_system ''llama-server'' 11500) ls s' \<and> sys_threads s' 1 = Some (Finished 11500 None) \<and>
     Port (sys_mgr s') ''m'' = Some 11500"
proof -
  let ?env = "example_env\<lparr>le_pid := 0\<rparr>" and ?s = "init_system ''llama-server'' 11500"
  obtain m where E: "Ensure ?env (\<lambda>port. None) (example_request ''m'') (sys_mgr ?s) = (m, 11500, None)"
    and port: "Port m ''m'' = Some 11500"
    by (simp add: Ensure_def ensure_begin_def launch_def ensure_finish_def ensure_wait_def NewManager_def init_system_def
        example_env_def example_request_def setState_def update_info_def Port_def new_pipeline_def)
  show ?thesis
    using Ensure_is_execution [OF E, of 1] port by (auto simp: init_system_def example_env_def undisturbed_def)
qed

end
