(* ===== verification/Recruitment.thy ===== *)
theory Recruitment
  imports TwoNodes AgentServe
begin

text \<open>
  A driver and the workers of its plan: \<^verbatim>\<open>EnsureLocal\<close> on one agent, where each answer to the driver's
  \<^verbatim>\<open>POST /api/rpc/start\<close> is what the multiplexer of another agent replies.  The workers are different nodes, so
  each is asked once and in the state it has.
\<close>

section \<open>Workers\<close>

text \<open>An agent, what it meets, and where it listens.\<close>

record worker_node =
  wn_host :: string
  wn_port :: string
  wn_env :: serve_env
  wn_agent :: Agent

definition wn_addr :: "worker_node \<Rightarrow> string" where
  "wn_addr w = JoinHostPort (wn_host w) (wn_port w)"

definition start_call :: "Agent \<Rightarrow> http_request" where
  "start_call a = \<lparr>hr_Method = ''POST'', hr_Path = ''/api/rpc/start'', hr_Headers = agent_token a, hr_Body = Some []\<rparr>"

definition asked :: "Agent \<Rightarrow> worker_node \<Rightarrow> Agent \<times> nat option \<times> reply" where
  "asked a w = serve (wn_env w) (start_call a) (wn_agent w)"

definition reached :: "drive_env \<Rightarrow> Agent \<Rightarrow> worker_node \<Rightarrow> bool" where
  "reached env a w \<longleftrightarrow>
     set (wn_host w) \<inter> brackets = {} \<and> set (wn_port w) \<inter> insert (CHR '':'') brackets = {} \<and>
     0 \<le> wk_port (ag_worker (wn_agent w)) \<and> wk_port (ag_worker (wn_agent w)) < 2 ^ 63 \<and>
     dv_bad_url env (''http://'' @ wn_addr w @ ''/api/rpc/start'') = None \<and>
     dv_do env \<lparr>ur_URL = ''http://'' @ wn_addr w @ ''/api/rpc/start'', ur_Headers = agent_token a, ur_Body = []\<rparr>
       = wire (snd (snd (asked a w)))"

text \<open>Whether the node lends its memory to the driver, and where its \<^verbatim>\<open>rpc-server\<close> listens.\<close>

definition lends :: "Agent \<Rightarrow> worker_node \<Rightarrow> bool" where
  "lends a w \<longleftrightarrow>
     (cfg_Token (ag_cfg (wn_agent w)) = [] \<or> cfg_Token (ag_cfg a) = cfg_Token (ag_cfg (wn_agent w))) \<and>
     cfg_Share (ag_cfg (wn_agent w)) \<and> worker_Available (ag_worker (wn_agent w)) \<and>
     snd (worker_Ensure (sn_worker (wn_env w)) (sn_port_wait (wn_env w)) (ag_worker (wn_agent w))) = None"

definition endpoint_of :: "worker_node \<Rightarrow> string" where
  "endpoint_of w = JoinHostPort (wn_host w) (Itoa (wk_port (ag_worker (wn_agent w))))"

lemma asked_start:
  obtains b rep where "asked a w = (b, None, rep)"
    and "handleRPCStart (sn_worker (wn_env w)) (sn_port_wait (wn_env w)) (start_call a) (wn_agent w) = (b, rep)"
proof -
  obtain b rep where "handleRPCStart (sn_worker (wn_env w)) (sn_port_wait (wn_env w)) (start_call a) (wn_agent w) = (b, rep)" by fastforce
  then show thesis
    using that dispatch_start by (simp add: asked_def serve_def handle_def start_call_def)
qed

lemma recruit_reached:
  assumes "reached env a w"
  shows "recruitWorker env a (wn_addr w) = Inr rpc \<longleftrightarrow> lends a w \<and> rpc = endpoint_of w"
    and "lends a w \<Longrightarrow> Running (ag_worker (fst (asked a w)))"
proof -
  obtain b rep where b: "asked a w = (b, None, rep)"
    "handleRPCStart (sn_worker (wn_env w)) (sn_port_wait (wn_env w)) (start_call a) (wn_agent w) = (b, rep)" by (rule asked_start)
  have R: "set (wn_host w) \<inter> brackets = {}" "set (wn_port w) \<inter> insert (CHR '':'') brackets = {}"
    "dv_bad_url env (''http://'' @ wn_addr w @ ''/api/rpc/start'') = None"
    "dv_do env \<lparr>ur_URL = ''http://'' @ wn_addr w @ ''/api/rpc/start'', ur_Headers = agent_token a, ur_Body = []\<rparr>
      = Answer (rp_Status rep) (map (\<lambda>(k, v). (k, [v])) (rp_Headers rep)) [(rp_Body rep, True, True)]"
    "0 \<le> wk_port (ag_worker (wn_agent w))" "wk_port (ag_worker (wn_agent w)) < 2 ^ 63"
    using assms b(1) by (simp_all add: reached_def wire_def)
  note conv = recruit_conversation [OF R(1,2) wn_addr_def R(3) b(2) [unfolded start_call_def] R(4-6)]
  show "recruitWorker env a (wn_addr w) = Inr rpc \<longleftrightarrow> lends a w \<and> rpc = endpoint_of w" for rpc
    using conv [of rpc] by (auto simp: lends_def endpoint_of_def)
  then show "Running (ag_worker (fst (asked a w)))" if "lends a w"
    using conv [of "endpoint_of w"] that b(1) by simp
qed

lemma recruit_all_reached:
  "\<forall>w \<in> set ws. reached env a w \<Longrightarrow> recruit_all env a (map wn_addr ws) = map endpoint_of (filter (lends a) ws)"
proof (induction ws)
  case (Cons w ws)
  then have "reached env a w" and IH: "recruit_all env a (map wn_addr ws) = map endpoint_of (filter (lends a) ws)" by simp_all
  note R = recruit_reached(1) [OF this(1)]
  show ?case
  proof (cases "lends a w")
    case True
    with R [of "endpoint_of w"] IH show ?thesis by simp
  next
    case False
    then have "\<exists>e. recruitWorker env a (wn_addr w) = Inl e" using R by (cases "recruitWorker env a (wn_addr w)") auto
    with False IH show ?thesis by auto
  qed
qed simp

section \<open>The pipeline over them\<close>

lemma Ensure_new:
  assumes "Ensure env wait rq m = (m', port, e)" and "mg_pipelines m (rq_model rq) = None"
  shows "case mg_pipelines m' (rq_model rq) of
      None \<Rightarrow> e \<noteq> None
    | Some p \<Rightarrow> e = None \<and> pl_port p = port \<and> pi_State (pl_info p) = StateReady \<and> pi_Workers (pl_info p) = rq_workers rq \<and>
        le_start env (mg_bin m) (server_args rq port) = None"
proof (cases "mg_bin m = []")
  case True
  with assms show ?thesis by (auto simp: Ensure_def ensure_begin_def ensure_finish_def)
next
  case False
  obtain m1 out where l: "launch env rq m = (m1, out)" by fastforce
  with False assms(2) have first: "ensure_begin env rq m = (m1, out)" by (simp add: ensure_begin_def)
  have out: "out \<noteq> Failed" "out \<noteq> Joined p" for p using launch_not_failed [of env rq m] l by auto
  show ?thesis
  proof (cases out)
    case (Returned p err)
    with launch_Returned [of env rq m m1 p err] l first assms show ?thesis by (simp add: Ensure_def ensure_finish_def)
  next
    case (Launched p)
    with l have m1: "m1 = m\<lparr>mg_pipelines := (mg_pipelines m)(rq_model rq \<mapsto> new_pipeline env rq p)\<rparr>"
      and start: "le_start env (mg_bin m) (server_args rq p) = None" by (simp_all add: launch_Launched)
    have "ensure_wait (rq_model rq) wait p m1 = (m', port, e)"
      using assms(1) first Launched by (simp add: Ensure_def ensure_finish_def)
    then show ?thesis
      using m1 start by (auto simp: ensure_wait_def setState_def update_info_def new_pipeline_def split: option.splits)
  qed (use out in simp_all)
qed

text \<open>
  C16.  A pipeline over many nodes: bringing up a model that is not being served, the driver gets exactly the nodes that
  accept its token, share, have an \<^verbatim>\<open>rpc-server\<close> and could start it; each of these runs it then.  When one is
  up, the \<^verbatim>\<open>llama-server\<close> was started with the endpoints of exactly these, in the order of the plan; when every
  node of the plan refused, nothing was started.
\<close>

theorem workers_recruited:
  assumes "\<forall>w \<in> set ws. reached env a w" and "EnsureLocal env model (map wn_addr ws) a = (a', res)"
    and "mg_pipelines (ag_pipelines a) model = None"
  shows "(\<forall>w \<in> set ws. lends a w \<longrightarrow> Running (ag_worker (fst (asked a w)))) \<and>
    (case mg_pipelines (ag_pipelines a') model of
       None \<Rightarrow> \<exists>e. res = Inl e
     | Some p \<Rightarrow> res = Inr (pl_port p) \<and> pi_State (pl_info p) = StateReady \<and>
         pi_Workers (pl_info p) = map endpoint_of (filter (lends a) ws) \<and>
         (\<exists>gguf. ModelBlobPath (dv_fs env) (cfg_ModelsDir (ag_cfg a)) model = Inr gguf \<and>
            le_start (dv_launch env) (mg_bin (ag_pipelines a))
              (server_args \<lparr>rq_model = model, rq_gguf = gguf, rq_workers = map endpoint_of (filter (lends a) ws),
                 rq_ctxSize = cfg_CtxSize (ag_cfg a)\<rparr> (pl_port p)) = None)) \<and>
    (ws \<noteq> [] \<and> (\<forall>w \<in> set ws. \<not> lends a w) \<longrightarrow> a' = a \<and> (\<exists>e. res = Inl e))"
proof -
  let ?rpcs = "map endpoint_of (filter (lends a) ws)"
  have all: "recruit_all env a (map wn_addr ws) = ?rpcs" by (rule recruit_all_reached [OF assms(1)])
  note defn = assms(2) [unfolded EnsureLocal_def all]
  have running: "\<forall>w \<in> set ws. lends a w \<longrightarrow> Running (ag_worker (fst (asked a w)))" using assms(1) recruit_reached(2) by blast
  show ?thesis
  proof (cases "ModelBlobPath (dv_fs env) (cfg_ModelsDir (ag_cfg a)) model")
    case (Inl e)
    with defn assms(3) running show ?thesis by (auto split: if_splits)
  next
    case (Inr gguf)
    let ?rq = "\<lparr>rq_model = model, rq_gguf = gguf, rq_workers = ?rpcs, rq_ctxSize = cfg_CtxSize (ag_cfg a)\<rparr>"
    show ?thesis
    proof (cases "\<not> Available (ag_pipelines a) \<or> ws \<noteq> [] \<and> ?rpcs = []")
      case True
      with defn Inr assms(3) running show ?thesis by (auto split: if_splits)
    next
      case False
      obtain m port err where E: "Ensure (dv_launch env) (dv_wait env) ?rq (ag_pipelines a) = (m, port, err)" by (metis prod_cases3)
      have res: "a' = a\<lparr>ag_pipelines := m\<rparr>" "res = (case err of None \<Rightarrow> Inr port | Some e \<Rightarrow> Inl (PipelineFailed e))"
        using defn Inr False E by (auto simp: Let_def)
      with Ensure_new [OF E] assms(3) Inr have "case mg_pipelines (ag_pipelines a') model of
          None \<Rightarrow> \<exists>e. res = Inl e
        | Some p \<Rightarrow> res = Inr (pl_port p) \<and> pi_State (pl_info p) = StateReady \<and> pi_Workers (pl_info p) = ?rpcs \<and>
            (\<exists>gguf. ModelBlobPath (dv_fs env) (cfg_ModelsDir (ag_cfg a)) model = Inr gguf \<and>
               le_start (dv_launch env) (mg_bin (ag_pipelines a)) (server_args \<lparr>rq_model = model, rq_gguf = gguf, rq_workers = ?rpcs,
                 rq_ctxSize = cfg_CtxSize (ag_cfg a)\<rparr> (pl_port p)) = None)"
        by (auto split: option.splits)
      moreover have "ws = [] \<or> (\<exists>w \<in> set ws. lends a w)" using False by (auto simp: filter_empty_conv)
      ultimately show ?thesis using running by auto
    qed
  qed
qed

text \<open>Two nodes are asked; the second one has no \<^verbatim>\<open>rpc-server\<close>.\<close>

definition two_workers :: "worker_node list" where
  "two_workers = [\<lparr>wn_host = ''10.0.0.2'', wn_port = ''11444'', wn_env = example_serve, wn_agent = lender\<rparr>,
     \<lparr>wn_host = ''10.0.0.3'', wn_port = ''11444'', wn_env = example_serve, wn_agent = example_agent\<rparr>]"

definition two_drive :: drive_env where
  "two_drive = example_drive\<lparr>dv_do := (\<lambda>r.
     if ur_URL r = ''http://'' @ wn_addr (two_workers ! 0) @ ''/api/rpc/start'' then wire (snd (snd (asked driving_agent (two_workers ! 0))))
     else wire (snd (snd (asked driving_agent (two_workers ! 1)))))\<rparr>"

lemma two_workers_addr:
  "wn_addr (two_workers ! 0) = ''10.0.0.2:11444''" "wn_addr (two_workers ! 1) = ''10.0.0.3:11444''"
  by (simp_all add: two_workers_def wn_addr_def) code_simp+

lemma two_reached: "\<forall>w \<in> set two_workers. reached two_drive driving_agent w"
proof -
  have ports: "wk_port (ag_worker lender) = 50752" "wk_port (ag_worker example_agent) = 50752"
    by (simp_all add: lender_def example_agent_def NewWorker_def)
  have "reached two_drive driving_agent (two_workers ! 0)" "reached two_drive driving_agent (two_workers ! 1)"
    unfolding reached_def two_drive_def two_workers_addr
    by (simp_all add: ports two_workers_def example_drive_def)
  then show ?thesis by (simp add: two_workers_def)
qed

lemma two_lend: "filter (lends driving_agent) two_workers = [two_workers ! 0]"
proof -
  have "snd (worker_Ensure example_worker_env (\<lambda>addr t. None) (ag_worker lender)) = None"
    by (simp add: worker_Ensure_def worker_section_def example_worker_env_def lender_def NewWorker_def)
  then show ?thesis
    by (simp add: two_workers_def lends_def lender_def example_agent_def example_config_def worker_Available_def NewWorker_def example_serve_def)
qed

theorem workers_recruited_witness:
  "\<exists>a' p. EnsureLocal two_drive ''big'' (map wn_addr two_workers) driving_agent = (a', Inr (pl_port p)) \<and>
     mg_pipelines (ag_pipelines a') ''big'' = Some p \<and> pi_Workers (pl_info p) = [JoinHostPort ''10.0.0.2'' (Itoa 50752)]"
proof -
  obtain path where blob: "ModelBlobPath (dv_fs two_drive) (cfg_ModelsDir (ag_cfg driving_agent)) ''big'' = Inr path"
    by (simp add: ModelBlobPath_def two_drive_def example_drive_def example_layers)
  have all: "recruit_all two_drive driving_agent (map wn_addr two_workers) = map endpoint_of [two_workers ! 0]"
    using recruit_all_reached [OF two_reached] by (simp add: two_lend)
  have avail: "Available (ag_pipelines driving_agent)" by (simp add: driving_agent_def Available_def NewManager_def)
  obtain m where m: "Ensure (dv_launch two_drive) (dv_wait two_drive) \<lparr>rq_model = ''big'', rq_gguf = path,
      rq_workers = map endpoint_of [two_workers ! 0], rq_ctxSize = cfg_CtxSize (ag_cfg driving_agent)\<rparr> (ag_pipelines driving_agent) = (m, 11500, None)"
    by (simp add: Ensure_def ensure_begin_def launch_def ensure_finish_def ensure_wait_def NewManager_def
        example_env_def two_drive_def example_drive_def driving_agent_def)
  have up: "EnsureLocal two_drive ''big'' (map wn_addr two_workers) driving_agent = (driving_agent\<lparr>ag_pipelines := m\<rparr>, Inr 11500)"
    unfolding EnsureLocal_def blob all using avail m by (simp add: Let_def)
  have none: "mg_pipelines (ag_pipelines driving_agent) ''big'' = None" by (simp add: driving_agent_def NewManager_def)
  have "endpoint_of (two_workers ! 0) = JoinHostPort ''10.0.0.2'' (Itoa 50752)"
    by (simp add: endpoint_of_def two_workers_def lender_def NewWorker_def)
  with workers_recruited [OF two_reached up none] up show ?thesis
    by (auto simp: two_lend split: option.splits)
qed

end
