(* ===== verification/GatewayConc.thy ===== *)
theory GatewayConc
  imports GatewaySplit
begin

text \<open>
  One gateway that serves any number of requests at once.  Each handler of \<^verbatim>\<open>gateway.go\<close> and \<^verbatim>\<open>split.go\<close> is
  written again as a program of atomic steps: the goroutine of its request runs to the next access to shared
  state (an atomic counter, the history under its lock, the pipelines under theirs) or waits for another server.
  Run alone, a program is the function that models its handler; a gateway interleaves them (\<open>gw_step\<close>).  Serving
  through a pipeline is one step, because \<^verbatim>\<open>forwardSplit\<close> touches neither the counters nor the history.
\<close>

section \<open>Handlers as programs\<close>

text \<open>What a goroutine is about to do: to go on, to wait for a server, to count what it has served, to record.\<close>

datatype waiting = Runs | AsksOllama | AsksPipeline | AsksPeer | AsksSplit | CountsServed | Numbered int

datatype (dead 's, 'r) handler = Replied 'r | Next waiting "'s \<Rightarrow> 's \<times> ('s, 'r) handler"

primrec alone :: "('s, 'r) handler \<Rightarrow> 's \<Rightarrow> 's \<times> 'r" where
  "alone (Replied r) = (\<lambda>s. (s, r))"
| "alone (Next w f) = (\<lambda>s. let (s', k) = (map_prod id alone \<circ> f) s in k s')"

primrec hbind :: "('s, 'r) handler \<Rightarrow> ('r \<Rightarrow> ('s, 'q) handler) \<Rightarrow> ('s, 'q) handler" where
  "hbind (Replied r) k = k r"
| "hbind (Next w f) k = Next w (map_prod id (\<lambda>h. hbind h k) \<circ> f)"

type_synonym 'd gw_prog = "(Gateway \<times> 'd, reply) handler"

definition gw_update :: "(Gateway \<Rightarrow> Gateway) \<Rightarrow> waiting \<Rightarrow> 'd gw_prog \<Rightarrow> 'd gw_prog" where
  "gw_update upd w h = Next w (\<lambda>(g, d). ((upd g, d), h))"

text \<open>The deferred function: the request is no longer active, and then it is counted.\<close>

definition leave_job :: "Gateway \<Rightarrow> Gateway" where
  "leave_job g = g\<lparr>gw_active := gw_active g - 1\<rparr>"

definition count_served :: "Gateway \<Rightarrow> Gateway" where
  "count_served g = g\<lparr>gw_totalServed := gw_totalServed g + 1\<rparr>"

definition counted_job :: "waiting \<Rightarrow> reply \<Rightarrow> 'd gw_prog" where
  "counted_job w rep =
     gw_update begin_job Runs (gw_update leave_job w (gw_update count_served CountsServed (Replied rep)))"

definition finish_prog :: "gw_env \<Rightarrow> string \<Rightarrow> string \<Rightarrow> string \<Rightarrow> reply \<Rightarrow> 'd gw_prog" where
  "finish_prog env path model nodeName rep =
     Next Runs (\<lambda>(g, d). let k = gw_reqID g + 1 in
       ((g\<lparr>gw_reqID := k\<rparr>, d),
        gw_update (record_request \<lparr>rr_ID = k, rr_Time = ge_start env, rr_Path = path, rr_Model = model, rr_Node = nodeName,
          rr_Status = rp_Status rep, rr_Duration = (ge_end env - ge_start env) div 1000\<rparr>) (Numbered k) (Replied rep)))"

definition forward_prog :: "gw_env \<Rightarrow> http_request \<Rightarrow> NodeState \<Rightarrow> string \<Rightarrow> 'd gw_prog" where
  "forward_prog env r node body =
     Next Runs (\<lambda>(g, d).
       let target = forward_target env g node (hr_Path r)
       in if ge_bad_url env target \<noteq> None then ((g, d), Replied (httpError 500 ''failed to build upstream request''))
          else
            let answer = ge_do env \<lparr>ur_URL = target, ur_Headers = json_type # token_headers g, ur_Body = body\<rparr>;
                rep = (case answer of
                    Unreachable err \<Rightarrow> httpError 502 (''node '' @ Quote (ns_Name node) @ '' unreachable: '' @ err)
                  | Answer status hdrs reads \<Rightarrow> stream_answer status hdrs reads)
            in ((g, d), if ns_ID node = ge_self env then counted_job AsksOllama rep
                        else gw_update id AsksPeer (Replied rep)))"

definition proxy_prog :: "gw_env \<Rightarrow> http_request \<Rightarrow> 'd gw_prog" where
  "proxy_prog env r =
     Next Runs (\<lambda>(g, d). ((g, d),
       if \<not> token_ok (gw_token g) r then Replied unauthorized
       else counted_job AsksOllama
         (reverse_proxy env (gw_ollama g) (r\<lparr>hr_Path := TrimPrefix (hr_Path r) ''/proxy/ollama''\<rparr>))))"

definition llama_prog :: "gw_env \<Rightarrow> 'd split_runner option \<Rightarrow> http_request \<Rightarrow> 'd gw_prog" where
  "llama_prog env split r =
     Next Runs (\<lambda>(g, d). ((g, d),
       if \<not> token_ok (gw_token g) r then Replied unauthorized
       else (case split of
           None \<Rightarrow> Replied (httpError 501 ''this node does not run pipelines'')
         | Some sr \<Rightarrow>
             (let model = header_get (hr_Headers r) ModelHeader
              in case sr_PipelinePort sr model d of
                   None \<Rightarrow> Replied (httpError 503
                     (''no ready pipeline for '' @ Quote model @ '' on this node; ensure it first''))
                 | Some port \<Rightarrow>
                     Next Runs (\<lambda>(g, d). ((g, sr_TouchPipeline sr model d),
                       counted_job AsksPipeline
                         (reverse_proxy env \<lparr>url_Scheme = ''http'', url_Host = ''127.0.0.1:'' @ Itoa port, url_Path = []\<rparr>
                            (r\<lparr>hr_Path := TrimPrefix (hr_Path r) ''/proxy/llama''\<rparr>))))))))"

definition inference_prog :: "gw_env \<Rightarrow> 'd split_runner option \<Rightarrow> http_request \<Rightarrow> 'd gw_prog" where
  "inference_prog env split r =
     (case hr_Body r of
        None \<Rightarrow> Replied (httpError 400 ''failed to read request body'')
      | Some b \<Rightarrow>
          (let body = take maxBodyBytes b; model = extractModel body
           in if model = [] then Replied no_model
              else
                (let nodes = ge_nodes env;
                     plan = (if HasPrefix (hr_Path r) ''/v1/''
                             then (case PlanSplit (ge_platform env) (ge_now env) nodes model of
                                     Inr p \<Rightarrow> p
                                   | Inl planErr \<Rightarrow> None)
                             else None)
                 in case plan of
                      Some p \<Rightarrow>
                        Next AsksSplit (\<lambda>(g, d).
                          let (d', nodeName, rep) = forwardSplit env split r p model body g d
                          in ((g, d'), finish_prog env (hr_Path r) model nodeName rep))
                    | None \<Rightarrow>
                        (case Pick (ge_now env) (ge_order env) nodes model of
                           Inl e \<Rightarrow> Replied (httpError 404 (ErrNoNode_Error e))
                         | Inr node \<Rightarrow>
                             hbind (forward_prog env r node body) (finish_prog env (hr_Path r) model (ns_Name node))))))"

section \<open>A program run alone\<close>

lemma alone_Next [simp]: "alone (Next w f) s = (case f s of (s', h) \<Rightarrow> alone h s')"
  by (simp add: Let_def split: prod.split)

declare alone.simps(2) [simp del]

lemma alone_hbind [simp]: "alone (hbind h k) s = (case alone h s of (s', r) \<Rightarrow> alone (k r) s')"
proof (induction h arbitrary: s)
  case (Next w f)
  obtain s' h where "f s = (s', h)" by (cases "f s")
  moreover from this have "h \<in> Basic_BNFs.snds (f s)" by (simp add: snds.simps)
  from Next.IH [OF rangeI this] have "alone (hbind h k) s' = (case alone h s' of (s', r) \<Rightarrow> alone (k r) s')" .
  ultimately show ?case by simp
qed simp

lemma alone_gw_update [simp]: "alone (gw_update upd w h) (g, d) = alone h (upd g, d)"
  by (simp add: gw_update_def)

lemma alone_counted [simp]: "alone (counted_job w rep) (g, d) = ((end_job (begin_job g), d), rep)"
  by (simp add: counted_job_def leave_job_def count_served_def begin_job_def end_job_def)

lemma alone_finish [simp]:
  "alone (finish_prog env path model nodeName rep) (g, d) = ((finish env path model nodeName (rp_Status rep) g, d), rep)"
  by (simp add: finish_prog_def finish_def Let_def)

lemma alone_forward [simp]:
  "alone (forward_prog env r node body) (g, d) = (case forward env r node body g of (g', rep) \<Rightarrow> ((g', d), rep))"
  by (simp add: forward_prog_def forward_def Let_def)

lemma alone_proxy:
  "alone (proxy_prog env r) (g, d) = (case handleProxy env r g of (g', rep) \<Rightarrow> ((g', d), rep))"
  by (simp add: proxy_prog_def handleProxy_def)

lemma alone_llama:
  "alone (llama_prog env split r) (g, d) = (case handleLlamaProxy env split r g d of (g', d', rep) \<Rightarrow> ((g', d'), rep))"
  by (simp add: llama_prog_def handleLlamaProxy_def Let_def split: option.split)

lemma alone_inference:
  "alone (inference_prog env split r) (g, d) = (case handleInference env split r g d of (g', d', rep) \<Rightarrow> ((g', d'), rep))"
  by (simp add: inference_prog_def handleInference_def Let_def split: option.split sum.split prod.split)

section \<open>Requests in flight\<close>

text \<open>
  The gateway and the pipelines, which other goroutines change too, and what is left of the program of every
  request.
\<close>

record 'd gw_sys =
  gs_state :: "Gateway \<times> 'd"
  gs_threads :: "nat \<rightharpoonup> 'd gw_prog"

datatype gw_event = Arrives nat | Moves nat waiting | Departs nat | Elsewhere

definition request_progs :: "'d gw_prog set" where
  "request_progs = {h. \<exists>env split r. h = proxy_prog env r \<or> h = llama_prog env split r \<or> h = inference_prog env split r}"

inductive gw_step :: "'d gw_sys \<Rightarrow> gw_event \<Rightarrow> 'd gw_sys \<Rightarrow> bool" where
  arrives: "gs_threads s i = None \<Longrightarrow> h \<in> request_progs \<Longrightarrow>
    gw_step s (Arrives i) (s\<lparr>gs_threads := (gs_threads s)(i \<mapsto> h)\<rparr>)"
| moves: "gs_threads s i = Some (Next w f) \<Longrightarrow> f (gs_state s) = (st, h) \<Longrightarrow>
    gw_step s (Moves i w) \<lparr>gs_state = st, gs_threads = (gs_threads s)(i \<mapsto> h)\<rparr>"
| departs: "gs_threads s i = Some (Replied rep) \<Longrightarrow>
    gw_step s (Departs i) (s\<lparr>gs_threads := (gs_threads s)(i := None)\<rparr>)"
| elsewhere: "gw_step s Elsewhere (s\<lparr>gs_state := (fst (gs_state s), d)\<rparr>)"

inductive gw_run :: "'d gw_sys \<Rightarrow> gw_event list \<Rightarrow> 'd gw_sys \<Rightarrow> bool" for s0 where
  gw_nil: "gw_run s0 [] s0"
| gw_snoc: "gw_run s0 evs s \<Longrightarrow> gw_step s ev s' \<Longrightarrow> gw_run s0 (evs @ [ev]) s'"

definition idle_gateway :: "Gateway \<Rightarrow> 'd \<Rightarrow> 'd gw_sys" where
  "idle_gateway g d = \<lparr>gs_state = (g, d), gs_threads = Map.empty\<rparr>"

fun waits_at :: "('s, 'r) handler \<Rightarrow> waiting option" where
  "waits_at (Replied r) = None"
| "waits_at (Next w f) = Some w"

definition waiters :: "waiting set \<Rightarrow> (nat \<rightharpoonup> 'd gw_prog) \<Rightarrow> nat set" where
  "waiters W ths = {i. \<exists>h w. ths i = Some h \<and> waits_at h = Some w \<and> w \<in> W}"

definition passed :: "waiting set \<Rightarrow> gw_event list \<Rightarrow> nat" where
  "passed W evs = length (filter (\<lambda>ev. case ev of Moves i w \<Rightarrow> w \<in> W | _ \<Rightarrow> False) evs)"

definition recorded_numbers :: "gw_event list \<Rightarrow> int list" where
  "recorded_numbers evs = List.map_filter (\<lambda>ev. case ev of Moves i (Numbered k) \<Rightarrow> Some k | _ \<Rightarrow> None) evs"

abbreviation executing :: "waiting set" where
  "executing \<equiv> {AsksOllama, AsksPipeline}"

section \<open>What every step of a handler does to the counters\<close>

definition in_at :: "waiting set \<Rightarrow> waiting option \<Rightarrow> nat" where
  "in_at W w = (if w \<in> Some ` W then 1 else 0)"

definition numbering :: "waiting option \<Rightarrow> int option" where
  "numbering w = (case w of Some (Numbered k) \<Rightarrow> Some k | _ \<Rightarrow> None)"

text \<open>
  A step from \<open>w\<close> to \<open>w'\<close>: it enters or leaves the active requests with the counter, counts what it has left,
  takes the next number, and records under the number it has.
\<close>

definition step_ok :: "waiting \<Rightarrow> waiting option \<Rightarrow> Gateway \<Rightarrow> Gateway \<Rightarrow> bool" where
  "step_ok w w' g g' \<longleftrightarrow>
     gw_active g' + int (in_at executing (Some w)) = gw_active g + int (in_at executing w') \<and>
     gw_totalServed g' = gw_totalServed g + of_nat (in_at {CountsServed} (Some w)) \<and>
     in_at {CountsServed} w' = in_at executing (Some w) \<and>
     (case numbering w' of
        Some k \<Rightarrow> k = gw_reqID g + 1 \<and> gw_reqID g' = k \<and> gw_history g' = gw_history g \<and> numbering (Some w) = None
      | None \<Rightarrow> gw_reqID g' = gw_reqID g \<and>
          map rr_ID (gw_history g') = (case numbering (Some w) of
             Some k \<Rightarrow> take 100 (k # map rr_ID (gw_history g)) | None \<Rightarrow> map rr_ID (gw_history g)))"

inductive disciplined :: "'d gw_prog \<Rightarrow> bool" where
  replied: "disciplined (Replied rep)"
| next_step: "(\<And>g d g' d' h. f (g, d) = ((g', d'), h) \<Longrightarrow> step_ok w (waits_at h) g g' \<and> disciplined h) \<Longrightarrow>
    disciplined (Next w f)"

inductive_cases disciplined_NextE: "disciplined (Next w f)"

lemma disciplined_update [simp]:
  "disciplined (gw_update upd w h) = ((\<forall>g. step_ok w (waits_at h) g (upd g)) \<and> disciplined h)"
  by (auto simp: gw_update_def intro: disciplined.intros elim!: disciplined_NextE)

lemma waits_at_update [simp]: "waits_at (gw_update upd w h) = Some w"
  by (simp add: gw_update_def)

lemmas step_ok_defs = step_ok_def in_at_def numbering_def

lemma disciplined_counted:
  "w \<in> executing \<Longrightarrow> disciplined (counted_job w rep)"
  by (auto simp: counted_job_def step_ok_defs begin_job_def leave_job_def count_served_def intro: disciplined.replied)

lemma waits_at_counted [simp]: "waits_at (counted_job w rep) = Some Runs"
  by (simp add: counted_job_def)

lemma history_record:
  "map rr_ID (gw_history (record_request r g)) = take 100 (rr_ID r # map rr_ID (gw_history g))"
  by (simp add: record_request_def keep_def Let_def take_map take_Cons')

lemma record_counters [simp]:
  "gw_active (record_request r g) = gw_active g" "gw_totalServed (record_request r g) = gw_totalServed g"
  "gw_reqID (record_request r g) = gw_reqID g"
  by (simp_all add: record_request_def Let_def)

lemma disciplined_finish: "disciplined (finish_prog env path model nodeName rep)"
  unfolding finish_prog_def
  by (rule disciplined.next_step)
    (auto simp: Let_def step_ok_defs history_record intro!: disciplined.replied)

lemma waits_at_finish [simp]: "waits_at (finish_prog env path model nodeName rep) = Some Runs"
  by (simp add: finish_prog_def)

lemma waits_at_hbind: "waits_at (hbind h k) = (case h of Replied r \<Rightarrow> waits_at (k r) | Next w f \<Rightarrow> Some w)"
  by (cases h) simp_all

lemma disciplined_hbind:
  assumes "disciplined h" and "\<And>r. disciplined (k r)" and "\<And>r. waits_at (k r) = Some Runs"
  shows "disciplined (hbind h k)"
  using assms(1)
proof (induction rule: disciplined.induct)
  case (next_step f w)
  show ?case
  proof (simp, rule disciplined.next_step)
    fix g d g' d' h
    assume "(map_prod id (\<lambda>h. hbind h k) \<circ> f) (g, d) = ((g', d'), h)"
    then obtain h' where h': "f (g, d) = ((g', d'), h')" "h = hbind h' k" by (cases "f (g, d)") auto
    have "step_ok w (waits_at h') g g'" "disciplined (hbind h' k)" using next_step [OF h'(1)] by simp_all
    then show "step_ok w (waits_at h) g g' \<and> disciplined h"
      using assms(3) by (cases h') (auto simp: h'(2) step_ok_defs)
  qed
qed (simp add: assms(2))

lemma disciplined_forward: "disciplined (forward_prog env r node body)"
  unfolding forward_prog_def
  by (rule disciplined.next_step)
    (auto simp: Let_def step_ok_defs intro!: disciplined.replied disciplined_counted split: if_splits)

lemma disciplined_proxy: "disciplined (proxy_prog env r)"
  unfolding proxy_prog_def
  by (rule disciplined.next_step)
    (auto simp: step_ok_defs intro!: disciplined.replied disciplined_counted split: if_splits)

lemma disciplined_llama: "disciplined (llama_prog env split r)"
  unfolding llama_prog_def
  by (rule disciplined.next_step)
    (auto simp: Let_def step_ok_defs intro!: disciplined.intros disciplined_counted split: if_splits option.splits)

lemma disciplined_inference: "disciplined (inference_prog env split r)"
  unfolding inference_prog_def Let_def
  by (auto simp: step_ok_defs intro!: disciplined.intros disciplined_hbind disciplined_forward disciplined_finish
      split: if_splits option.splits sum.splits prod.splits)

lemma waits_at_inference: "waits_at (inference_prog env split r) \<in> {None, Some Runs, Some AsksSplit}"
  by (simp add: inference_prog_def forward_prog_def Let_def split: option.split sum.split)

lemma request_progs_ok:
  assumes "h \<in> request_progs"
  shows "disciplined h" and "waits_at h \<in> {None, Some Runs, Some AsksSplit}"
proof -
  show "disciplined h"
    using assms by (auto simp: request_progs_def intro: disciplined_proxy disciplined_llama disciplined_inference)
  consider env split r where "h = inference_prog env split r" | "waits_at h = Some Runs"
    using assms by (auto simp: request_progs_def proxy_prog_def llama_prog_def)
  then show "waits_at h \<in> {None, Some Runs, Some AsksSplit}"
    by cases (simp_all only: waits_at_inference, simp)
qed

section \<open>The invariant\<close>

abbreviation gs_gw :: "'d gw_sys \<Rightarrow> Gateway" where
  "gs_gw s \<equiv> fst (gs_state s)"

definition holds_number :: "'d gw_sys \<Rightarrow> nat \<Rightarrow> int \<Rightarrow> bool" where
  "holds_number s i k \<longleftrightarrow> (\<exists>h. gs_threads s i = Some h \<and> numbering (waits_at h) = Some k)"

definition gw_inv :: "gw_event list \<Rightarrow> 'd gw_sys \<Rightarrow> bool" where
  "gw_inv evs s \<longleftrightarrow>
     finite (dom (gs_threads s)) \<and> (\<forall>h \<in> ran (gs_threads s). disciplined h) \<and>
     gw_active (gs_gw s) = int (card (waiters executing (gs_threads s))) \<and>
     gw_totalServed (gs_gw s) + of_nat (card (waiters {CountsServed} (gs_threads s))) = of_nat (passed executing evs)"

definition ids_inv :: "gw_event list \<Rightarrow> 'd gw_sys \<Rightarrow> bool" where
  "ids_inv evs s \<longleftrightarrow>
     (let ids = map rr_ID (gw_history (gs_gw s)) in
      ids = take 100 (rev (recorded_numbers evs)) \<and> distinct ids \<and> 0 \<le> gw_reqID (gs_gw s) \<and>
      (\<forall>k \<in> set ids. 0 < k \<and> k \<le> gw_reqID (gs_gw s)) \<and>
      (\<forall>i k. holds_number s i k \<longrightarrow> 0 < k \<and> k \<le> gw_reqID (gs_gw s) \<and> k \<notin> set ids \<and>
         (\<forall>j. holds_number s j k \<longrightarrow> j = i)))"

lemma waiters_upd:
  "waiters W (ths(i \<mapsto> h)) = (if waits_at h \<in> Some ` W then insert i (waiters W ths) else waiters W ths - {i})"
  "waiters W (ths(i := None)) = waiters W ths - {i}"
  by (auto simp: waiters_def)

lemma finite_waiters: "finite (dom ths) \<Longrightarrow> finite (waiters W ths)"
  by (rule finite_subset [of _ "dom ths"]) (auto simp: waiters_def)

lemma card_waiters_move:
  assumes "finite (dom ths)" and "ths i = Some h0"
  shows "card (waiters W (ths(i \<mapsto> h))) + in_at W (waits_at h0) = card (waiters W ths) + in_at W (waits_at h)"
proof -
  have "i \<in> waiters W ths \<longleftrightarrow> waits_at h0 \<in> Some ` W" using assms(2) by (auto simp: waiters_def)
  moreover have "0 < card (waiters W ths)" if "i \<in> waiters W ths"
    using that finite_waiters [OF assms(1)] by (auto simp: card_gt_0_iff)
  ultimately show ?thesis
    using finite_waiters [OF assms(1), of W] by (simp add: waiters_upd in_at_def insert_absorb card_Diff_singleton)
qed

lemma waiters_absent: "ths i = None \<Longrightarrow> i \<notin> waiters W ths"
  by (simp add: waiters_def)

lemma passed_simps [simp]:
  "passed W [] = 0" "passed W (evs @ evs') = passed W evs + passed W evs'"
  "passed W [Arrives i] = 0" "passed W [Departs i] = 0" "passed W [Elsewhere] = 0"
  "passed W [Moves i w] = in_at W (Some w)"
  by (auto simp: passed_def in_at_def)

lemma recorded_numbers_simps [simp]:
  "recorded_numbers [] = []" "recorded_numbers (evs @ evs') = recorded_numbers evs @ recorded_numbers evs'"
  "recorded_numbers [Arrives i] = []" "recorded_numbers [Departs i] = []" "recorded_numbers [Elsewhere] = []"
  "recorded_numbers [Moves i w] = (case numbering (Some w) of None \<Rightarrow> [] | Some k \<Rightarrow> [k])"
  by (auto simp: recorded_numbers_def List.map_filter_def numbering_def split: waiting.split)

lemma moved_ok:
  assumes "gw_inv evs s" and "gs_threads s i = Some (Next w f)" and "f (gs_state s) = (st, h)"
  shows "step_ok w (waits_at h) (gs_gw s) (fst st) \<and> disciplined h"
proof -
  have "disciplined (Next w f)" using assms(1,2) by (auto simp: gw_inv_def ran_def)
  then show ?thesis
    using assms(3) by (cases "gs_state s"; cases st) (auto elim!: disciplined_NextE)
qed

lemma gw_inv_step:
  assumes "gw_step s ev s'" and "gw_inv evs s"
  shows "gw_inv (evs @ [ev]) s'"
  using assms(1)
proof (cases rule: gw_step.cases)
  case (arrives i h)
  note ok = request_progs_ok [OF arrives(4)]
  have "waits_at h \<notin> Some ` W" if "W \<subseteq> {AsksOllama, AsksPipeline, CountsServed}" for W
    using ok(2) that by auto
  then show ?thesis
    using assms(2) ok(1) waiters_absent [where ths = "gs_threads s" and i = i] arrives(3)
    by (auto simp: arrives(1,2) gw_inv_def waiters_upd ran_def)
next
  case (moves i w f st h)
  note ok = moved_ok [OF assms(2) moves(3,4)]
  have fin: "finite (dom (gs_threads s))" and dis: "\<forall>h \<in> ran (gs_threads s). disciplined h"
    using assms(2) by (simp_all add: gw_inv_def)
  note card = card_waiters_move [OF fin moves(3), of _ h]
  have "gw_active (fst st) = int (card (waiters executing (gs_threads s')))"
    using ok assms(2) arg_cong [OF card [of executing], of int] by (simp add: moves(2) step_ok_def gw_inv_def)
  moreover have "gw_totalServed (fst st) + of_nat (card (waiters {CountsServed} (gs_threads s'))) =
      of_nat (passed executing (evs @ [ev]))"
  proof -
    have "of_nat (card (waiters {CountsServed} (gs_threads s'))) + of_nat (in_at {CountsServed} (Some w)) =
        (of_nat (card (waiters {CountsServed} (gs_threads s))) + of_nat (in_at executing (Some w)) :: u64)"
      using card [of "{CountsServed}"] ok by (simp add: moves(2) step_ok_def flip: of_nat_add)
    then show ?thesis using ok assms(2) by (simp add: moves(1) step_ok_def gw_inv_def algebra_simps)
  qed
  ultimately show ?thesis
    using fin dis ok by (auto simp: moves(2) gw_inv_def ran_def)
next
  case (departs i rep)
  have "i \<notin> waiters W (gs_threads s)" for W using departs(3) by (simp add: waiters_def)
  then show ?thesis
    using assms(2) by (auto simp: departs(1,2) gw_inv_def waiters_upd ran_def)
qed (use assms(2) in \<open>simp add: gw_inv_def\<close>)

lemma ids_inv_fewer:
  assumes "ids_inv evs s" and "gs_gw s' = gs_gw s" and "recorded_numbers evs' = recorded_numbers evs"
    and "\<And>i k. holds_number s' i k \<Longrightarrow> holds_number s i k"
  shows "ids_inv evs' s'"
  using assms(1,4) unfolding ids_inv_def Let_def assms(2,3) by blast

lemma ids_inv_step:
  assumes "gw_step s ev s'" and "gw_inv evs s" and "ids_inv evs s"
  shows "ids_inv (evs @ [ev]) s'"
  using assms(1)
proof (cases rule: gw_step.cases)
  case (arrives i h)
  have "numbering (waits_at h) = None" using request_progs_ok(2) [OF arrives(4)] by (auto simp: numbering_def)
  then have "holds_number s' j k = (j \<noteq> i \<and> holds_number s j k)" for j k
    by (simp add: arrives(2) holds_number_def)
  then show ?thesis by (intro ids_inv_fewer [OF assms(3)]) (simp_all add: arrives(1,2))
next
  case (departs i rep)
  have "holds_number s' j k = (j \<noteq> i \<and> holds_number s j k)" for j k
    by (simp add: departs(2) holds_number_def)
  then show ?thesis by (intro ids_inv_fewer [OF assms(3)]) (simp_all add: departs(1,2))
next
  case (elsewhere d)
  have "holds_number s' = holds_number s" by (simp add: elsewhere(2) holds_number_def fun_eq_iff)
  then show ?thesis by (intro ids_inv_fewer [OF assms(3)]) (simp_all add: elsewhere(1,2))
next
  case (moves i w f st h)
  note ok = moved_ok [OF assms(2) moves(3,4)]
  define ids where "ids = map rr_ID (gw_history (gs_gw s))"
  have N: "holds_number s' j k = (if j = i then numbering (waits_at h) = Some k else holds_number s j k)" for j k
    by (simp add: moves(2) holds_number_def)
  have own: "holds_number s i k = (numbering (Some w) = Some k)" for k by (simp add: holds_number_def moves(3))
  have I: "ids = take 100 (rev (recorded_numbers evs))" "distinct ids" "0 \<le> gw_reqID (gs_gw s)"
    "\<And>k. k \<in> set ids \<Longrightarrow> 0 < k \<and> k \<le> gw_reqID (gs_gw s)"
    "\<And>i k. holds_number s i k \<Longrightarrow> 0 < k \<and> k \<le> gw_reqID (gs_gw s) \<and> k \<notin> set ids \<and> (\<forall>j. holds_number s j k \<longrightarrow> j = i)"
    using assms(3) unfolding ids_inv_def ids_def [symmetric] Let_def by blast+
  have numbers: "rev (recorded_numbers (evs @ [ev])) =
      (case numbering (Some w) of None \<Rightarrow> rev (recorded_numbers evs) | Some k \<Rightarrow> k # rev (recorded_numbers evs))"
    by (simp add: moves(1) split: option.split)
  consider (takes) k where "numbering (waits_at h) = Some k" "k = gw_reqID (gs_gw s) + 1" "gw_reqID (fst st) = k"
      "map rr_ID (gw_history (fst st)) = ids" "numbering (Some w) = None"
    | (records) k where "numbering (waits_at h) = None" "numbering (Some w) = Some k" "gw_reqID (fst st) = gw_reqID (gs_gw s)"
      "map rr_ID (gw_history (fst st)) = take 100 (k # ids)"
    | (others) "numbering (waits_at h) = None" "numbering (Some w) = None" "gw_reqID (fst st) = gw_reqID (gs_gw s)"
      "map rr_ID (gw_history (fst st)) = ids"
    using ok by (auto simp: step_ok_def ids_def split: option.splits)
  then show ?thesis
  proof cases
    case (takes k)
    have "k \<notin> set ids" using I(4) [of k] takes(2) by auto
    moreover have "\<not> holds_number s j k" for j using I(5) [of j k] takes(2) by auto
    moreover have "0 < k' \<and> k' \<le> k" if "k' \<in> set ids \<or> holds_number s j k'" for j k'
      using that I(4) [of k'] I(5) [of j k'] takes(2) by auto
    ultimately show ?thesis
      unfolding ids_inv_def Let_def N numbers using I takes by (simp add: moves(2)) (metis order_less_le)
  next
    case (records k)
    have k: "0 < k" "k \<le> gw_reqID (gs_gw s)" "k \<notin> set ids" "\<And>j. holds_number s j k \<Longrightarrow> j = i"
      using I(5) [of i k] records(2) own by auto
    have sub: "set (take 100 (k # ids)) \<subseteq> insert k (set ids)" using set_take_subset [of 100 "k # ids"] by simp
    have "distinct (take 100 (k # ids))" using I(2) k(3) by (intro distinct_take) simp
    moreover have "take 100 (k # ids) = take 100 (k # rev (recorded_numbers evs))" by (simp add: I(1) take_Cons')
    moreover have "0 < k' \<and> k' \<le> gw_reqID (gs_gw s)" if "k' \<in> set (take 100 (k # ids))" for k'
      using that sub k(1,2) I(4) by blast
    moreover have "0 < k' \<and> k' \<le> gw_reqID (gs_gw s) \<and> k' \<notin> set (take 100 (k # ids)) \<and>
        (\<forall>j'. j' \<noteq> i \<and> holds_number s j' k' \<longrightarrow> j' = j)" if "j \<noteq> i" "holds_number s j k'" for j k'
    proof -
      have "k' \<noteq> k" using that k(4) by blast
      with sub I(5) [OF that(2)] show ?thesis by blast
    qed
    ultimately show ?thesis
      unfolding ids_inv_def Let_def N numbers using I(3) records by (simp add: moves(2) del: take_Suc_Cons)
  next
    case others
    then show ?thesis
      unfolding ids_inv_def Let_def N numbers using I by (simp add: moves(2))
  qed
qed

lemma gw_inv_run:
  assumes "gw_run (idle_gateway g0 d0) evs s" and "NewGateway parse base token = Some g0"
  shows "gw_inv evs s \<and> ids_inv evs s"
  using assms(1)
proof (induction rule: gw_run.induct)
  case gw_nil
  show ?case
    using assms(2)
    by (auto simp: gw_inv_def ids_inv_def idle_gateway_def NewGateway_def waiters_def holds_number_def)
next
  case (gw_snoc evs s ev s')
  then show ?case by (blast intro: gw_inv_step ids_inv_step)
qed

text \<open>
  C27.  However the requests that a new gateway serves overlap, the number of active requests is that of the
  requests waiting for this node's Ollama or, for a peer, for one of its pipelines; each of them that has had its
  answer is counted once as served, modulo 2 ^ 64; and the history holds the hundred requests recorded last, the
  newest first, with different numbers, all of them handed out.  The programs that are interleaved
  are the three handlers: run alone they do what the functions that model them do.
\<close>

theorem gateway_counters:
  assumes "NewGateway parse base token = Some g0" and "gw_run (idle_gateway g0 d0) evs s"
  shows "Active (gs_gw s) = int (card (waiters {AsksOllama, AsksPipeline} (gs_threads s))) \<and>
    TotalServed (gs_gw s) + of_nat (card (waiters {CountsServed} (gs_threads s))) =
      of_nat (passed {AsksOllama, AsksPipeline} evs) \<and>
    map rr_ID (History (gs_gw s)) = take 100 (rev (recorded_numbers evs)) \<and>
    distinct (map rr_ID (History (gs_gw s))) \<and>
    (\<forall>r \<in> set (History (gs_gw s)). 0 < rr_ID r \<and> rr_ID r \<le> gw_reqID (gs_gw s)) \<and>
    alone (proxy_prog env r) (g, d) = (case handleProxy env r g of (g', rep) \<Rightarrow> ((g', d), rep)) \<and>
    alone (llama_prog env split r) (g, d) = (case handleLlamaProxy env split r g d of (g', d', rep) \<Rightarrow> ((g', d'), rep)) \<and>
    alone (inference_prog env split r) (g, d) = (case handleInference env split r g d of (g', d', rep) \<Rightarrow> ((g', d'), rep))"
proof (intro conjI alone_proxy alone_llama alone_inference)
  have inv: "gw_inv evs s" "ids_inv evs s" using gw_inv_run [OF assms(2,1)] by simp_all
  show "Active (gs_gw s) = int (card (waiters {AsksOllama, AsksPipeline} (gs_threads s)))"
    "TotalServed (gs_gw s) + of_nat (card (waiters {CountsServed} (gs_threads s))) =
      of_nat (passed {AsksOllama, AsksPipeline} evs)"
    using inv(1) by (simp_all add: gw_inv_def Active_def TotalServed_def)
  show "map rr_ID (History (gs_gw s)) = take 100 (rev (recorded_numbers evs))"
    "distinct (map rr_ID (History (gs_gw s)))"
    "\<forall>r \<in> set (History (gs_gw s)). 0 < rr_ID r \<and> rr_ID r \<le> gw_reqID (gs_gw s)"
    using inv(2) by (auto simp: ids_inv_def Let_def History_def)
qed

definition example_proxied :: http_request where
  "example_proxied = \<lparr>hr_Method = ''POST'', hr_Path = ''/proxy/ollama/api/chat'',
     hr_Headers = [(TokenHeader, ''secret'')], hr_Body = Some ''{}''\<rparr>"

text \<open>Two peers' requests at once: one waits for Ollama, the other has had its answer but is not counted yet.\<close>

theorem gateway_counters_witness:
  "\<exists>s. gw_run (idle_gateway example_gateway ())
      [Arrives 0, Moves 0 Runs, Moves 0 Runs, Arrives 1, Moves 1 Runs, Moves 1 Runs, Moves 0 AsksOllama] s \<and>
    Active (gs_gw s) = 1 \<and> TotalServed (gs_gw s) + 1 = 1"
proof -
  let ?rep = "reverse_proxy example_gw_env (gw_ollama example_gateway)
    (example_proxied\<lparr>hr_Path := TrimPrefix (hr_Path example_proxied) ''/proxy/ollama''\<rparr>)"
  let ?p = "proxy_prog example_gw_env example_proxied :: unit gw_prog" and ?j = "counted_job AsksOllama ?rep :: unit gw_prog"
  let ?c = "gw_update count_served CountsServed (Replied ?rep) :: unit gw_prog"
  let ?l = "gw_update leave_job AsksOllama ?c"
  let ?g0 = example_gateway and ?g1 = "begin_job example_gateway" and ?g2 = "begin_job (begin_job example_gateway)"
  let ?s = "\<lambda>g ths. \<lparr>gs_state = (g, ()), gs_threads = ths\<rparr> :: unit gw_sys"
  have come: "gw_step (?s g ths) (Arrives i) (?s g (ths(i \<mapsto> ?p)))" if "ths i = None" for g ths i
    using gw_step.arrives [of "?s g ths" i ?p] that by (auto simp: request_progs_def)
  have same: "gw_token ?g1 = gw_token ?g0" "gw_ollama ?g1 = gw_ollama ?g0" by (simp_all add: begin_job_def)
  have "token_ok (gw_token ?g0) example_proxied"
    by (simp add: token_ok_def example_proxied_def header_get_def example_gateway_def)
  then have gate: "gw_step (?s g ths) (Moves i Runs) (?s g (ths(i \<mapsto> ?j)))"
    if "ths i = Some ?p" "g \<in> {?g0, ?g1}" for g ths i
    using gw_step.moves [of "?s g ths" i Runs _ "(g, ())" ?j] that same by (auto simp: proxy_prog_def)
  have upd: "gw_step (?s g ths) (Moves i w) (?s (u g) (ths(i \<mapsto> h)))" if "ths i = Some (gw_update u w h)" for g ths i u w h
    using gw_step.moves [of "?s g ths" i w _ "(u g, ())" h] that by (simp add: gw_update_def)
  have two: "gw_run s0 (evs @ [Arrives i, Moves i Runs, Moves i Runs]) (?s (begin_job g) (ths(i \<mapsto> ?l)))"
    if "gw_run s0 evs (?s g ths)" "ths i = None" "g \<in> {?g0, ?g1}" for s0 evs g ths i
  proof -
    have "gw_run s0 (((evs @ [Arrives i]) @ [Moves i Runs]) @ [Moves i Runs]) (?s (begin_job g) (ths(i \<mapsto> ?p, i \<mapsto> ?j, i \<mapsto> ?l)))"
      using that by (intro gw_snoc [OF gw_snoc [OF gw_snoc [OF that(1) come] gate] upd]) (simp_all add: counted_job_def)
    then show ?thesis by simp
  qed
  let ?ths = "[0 \<mapsto> ?l, 1 \<mapsto> ?l]" and ?evs = "([] @ [Arrives 0, Moves 0 Runs, Moves 0 Runs]) @ [Arrives 1, Moves 1 Runs, Moves 1 Runs]"
  have "gw_run (idle_gateway ?g0 ()) [] (?s ?g0 Map.empty)" by (simp add: idle_gateway_def gw_nil)
  from two [OF two [OF this]] have "gw_run (idle_gateway ?g0 ()) ?evs (?s ?g2 ?ths)" by simp
  then have run: "gw_run (idle_gateway ?g0 ()) (?evs @ [Moves 0 AsksOllama]) (?s (leave_job ?g2) (?ths(0 \<mapsto> ?c)))"
    by (rule gw_snoc) (rule upd, simp)
  have w: "waiters {AsksOllama, AsksPipeline} (?ths(0 \<mapsto> ?c)) = {1}" "waiters {CountsServed} (?ths(0 \<mapsto> ?c)) = {0}"
    by (auto simp: waiters_def split: if_splits)
  have p: "passed {AsksOllama, AsksPipeline} (?evs @ [Moves 0 AsksOllama]) = 1" by (simp add: passed_def)
  have new: "NewGateway (\<lambda>u. Some (gw_ollama ?g0)) [] ''secret'' = Some ?g0"
    by (simp add: NewGateway_def example_gateway_def)
  note G = gateway_counters [OF new run, unfolded gw_sys.simps fst_conv w p]
  have "Active (leave_job ?g2) = 1" "TotalServed (leave_job ?g2) + 1 = 1"
    using G [THEN conjunct1] G [THEN conjunct2, THEN conjunct1] by simp_all
  with run show ?thesis by (intro exI [of _ "?s (leave_job ?g2) (?ths(0 \<mapsto> ?c))"]) simp
qed

end
