(* ===== verification/Spec2Isabelle.thy ===== *)
theory Spec2Isabelle
  imports AgentLife AgentAddresses PoolNet PipelineAlone Recruitment GatewayConc
begin

text \<open>
  A verification development of potluck, a program that pools the Ollama servers of a local network
  into one server.  The model is a shallow embedding of the Go code under \<^verbatim>\<open>src/\<close>: structs are
  records, enums datatypes, maps partial functions, \<^verbatim>\<open>uint64\<close> is a 64-bit word, errors are values of a
  sum or option type, and every operation is a function from state to state.

  \<^bold>\<open>The program.\<close>  Every device runs one agent (\<^verbatim>\<open>internal/agent\<close>).  The agent refreshes its own state
  (\<^verbatim>\<open>internal/resources\<close> probes the hardware and the local Ollama), announces itself by mDNS
  (\<^verbatim>\<open>internal/discovery\<close>), fetches the states of the peers it has heard of, and files all states in the
  registry (\<^verbatim>\<open>internal/registry\<close>), from which stale ones are pruned.  Clients speak to the gateway
  (\<^verbatim>\<open>internal/gateway\<close>) of any agent.  It asks the scheduler (\<^verbatim>\<open>internal/scheduler\<close>) for a node that has
  the model and forwards the request to its Ollama, through the \<^verbatim>\<open>/proxy/ollama\<close> endpoint of the
  peer when the node is another one.  A model that fits on no single node is split: the planner
  chooses a driver and workers, the driver recruits the workers' \<^verbatim>\<open>rpc-server\<close>s over HTTP and runs a
  \<^verbatim>\<open>llama-server\<close> over them (\<^verbatim>\<open>internal/split\<close>) on the weights it finds in Ollama's store
  (\<^verbatim>\<open>internal/ollamafs\<close>).

  \<^bold>\<open>Theories and code.\<close>

  \<^item> \<^verbatim>\<open>Prelude\<close>, \<^verbatim>\<open>GoSort\<close>, \<^verbatim>\<open>GoStrings\<close>, \<^verbatim>\<open>GoFloat\<close>, \<^verbatim>\<open>GoJSON\<close>, \<^verbatim>\<open>GoJSONText\<close>: what the code uses of Go.
    Types and clock; the laws of sorting (\<open>slice_sort\<close>, \<open>stable_slice_sort\<close>); string functions, paths and
    decimal numbers; the exact value of \<^verbatim>\<open>float64\<close> operations; a parser and an encoder of JSON.
  \<^item> \<^verbatim>\<open>Split\<close> (\<^verbatim>\<open>split/split.go\<close>): memory estimates, binaries, logs.  \<^verbatim>\<open>Pipeline\<close> (\<^verbatim>\<open>split/pipeline.go\<close>): the
    manager of the \<^verbatim>\<open>llama-server\<close> processes, each locked section a definition, and \<open>Ensure\<close> as one caller
    runs it.  \<^verbatim>\<open>PipelineConc\<close>: all goroutines interleaved (\<open>mgr_step\<close>); \<^verbatim>\<open>PipelineLeak\<close>: two unwanted
    executions; \<^verbatim>\<open>PipelineSpec\<close>: the abstract life cycle they all follow.
    \<^verbatim>\<open>PipelineAlone\<close>: the function \<open>Ensure\<close> is one of these executions.  \<^verbatim>\<open>Worker\<close> (\<^verbatim>\<open>split/worker.go\<close>): the \<^verbatim>\<open>rpc-server\<close>.
  \<^item> \<^verbatim>\<open>Registry\<close> (\<^verbatim>\<open>registry/registry.go\<close>): node states and the store of them.
  \<^item> \<^verbatim>\<open>Scheduler\<close> (\<^verbatim>\<open>scheduler/scheduler.go\<close>): \<open>Pick\<close> and the listings.  \<^verbatim>\<open>SplitPlan\<close>
    (\<^verbatim>\<open>scheduler/splitplan.go\<close>): \<open>PlanSplit\<close>.
  \<^item> \<^verbatim>\<open>OllamaFS\<close> (\<^verbatim>\<open>ollamafs/ollamafs.go\<close>), \<^verbatim>\<open>Discovery\<close> (\<^verbatim>\<open>discovery/discovery.go\<close>), \<^verbatim>\<open>Resources\<close>
    (\<^verbatim>\<open>resources/resources.go\<close>).
  \<^item> \<^verbatim>\<open>Gateway\<close> (\<^verbatim>\<open>gateway/gateway.go\<close>): forwarding, counters, history, proxy, listings.  \<^verbatim>\<open>GatewaySplit\<close>
    (\<^verbatim>\<open>gateway/split.go\<close>): split requests and \<open>handleInference\<close>.  \<^verbatim>\<open>GatewayPeer\<close>: two gateways together,
    and what a gateway needs of a driver (\<open>split_driver\<close>).  \<^verbatim>\<open>GatewayConc\<close>: the handlers as programs of atomic steps
    and overlapping requests (\<open>gw_step\<close>).
    \<^verbatim>\<open>GatewayPool\<close>: what it needs of its pool, and whom it asks (\<open>contacts\<close>).
  \<^item> \<^verbatim>\<open>StateJSON\<close>: the JSON form of the registry's records.  \<^verbatim>\<open>Agent\<close> (\<^verbatim>\<open>agent/agent.go\<close>): identity,
    start, one turn of each loop, state and pool view.  \<^verbatim>\<open>AgentRun\<close>: the loops interleaved (\<open>agent_step\<close>).
    \<^verbatim>\<open>AgentSplit\<close> (\<^verbatim>\<open>agent/split.go\<close>): recruiting workers and driving a pipeline.
  \<^item> \<^verbatim>\<open>FmtBytes\<close>, \<^verbatim>\<open>PoolView\<close> (\<^verbatim>\<open>cmd/potluck/main.go\<close>, \<open>handlePool\<close>): the pool view and \<^verbatim>\<open>potluck status\<close>.
    \<^verbatim>\<open>CommandLine\<close> (\<^verbatim>\<open>cmd/potluck/main.go\<close>): the flags, what an invocation does, and the start of \<open>Run\<close>.
    \<^verbatim>\<open>Routes\<close>: the multiplexer, the dashboard, and one whole request (\<open>serve\<close>).  \<^verbatim>\<open>TwoNodes\<close>: a request
    that two agents serve together.  \<^verbatim>\<open>Recruitment\<close>: a driver and the nodes it asks to be workers.
  \<^item> \<^verbatim>\<open>AgentServe\<close>: a node as it runs, its loops, requests and children interleaved (\<open>node_step\<close>); what a request
    may change.  \<^verbatim>\<open>AgentLife\<close> (\<^verbatim>\<open>main\<close>, \<^verbatim>\<open>Run\<close>): the process from its start to its exit code (\<open>process_step\<close>).
    \<^verbatim>\<open>AgentAddresses\<close>: whom a node asks on behalf of a client.  \<^verbatim>\<open>PoolNet\<close>: any number of nodes that join, leave,
    run and poll each other (\<open>pool_step\<close>).

  \<^bold>\<open>Interfaces.\<close>  \<open>slice_sort\<close> and \<open>stable_slice_sort\<close> are the laws of Go's sorting functions; the unstable one
  is an argument wherever \<^verbatim>\<open>sort.Slice\<close> is used, so that results hold for every order of equal elements.
  \<open>node_store\<close> is what the agent and the gateway rely on in the registry, interpreted as \<open>reg\<close>.
  \<open>gateway_pool\<close> is what a gateway relies on in its pool (the interface \<^verbatim>\<open>Pool\<close>), interpreted as \<open>pool\<close> on the agent.
  \<open>split_driver\<close> is what a gateway relies on in the agent that drives a pipeline, interpreted as \<open>drv\<close> on the
  agent's own handlers.  A Go \<^verbatim>\<open>range\<close> over a map visits the keys in an arbitrary order: the order is an
  argument (\<open>iter_order\<close>) and the theorems hold for each.

  \<^bold>\<open>What is shown.\<close>
  \<^item> Routing: the scheduler returns an eligible holder of the model that no other holder beats, and it is
    a refinement of its one-line specification (lemma \<open>Pick_refines\<close>); a request goes to no node exactly when no eligible
    one has the model; \<^verbatim>\<open>TwoNodes\<close> follows a request from the client through the multiplexers of two
    agents to the peer's Ollama and back, whole or split.
  \<^item> Splitting: every plan is feasible and uses the fewest workers for its driver, errors are
    characterised; the driver starts \<^verbatim>\<open>llama-server\<close> over exactly the nodes that lend it an \<^verbatim>\<open>rpc-server\<close>, each of
    which runs (\<^verbatim>\<open>Recruitment\<close>).
  \<^item> Processes: in every interleaving the manager follows an abstract life cycle (\<^verbatim>\<open>PipelineSpec\<close>), each listed
    pipeline is watched, and a running server is lost only when an attempt that is repeated inside \<open>Ensure\<close>
    replaces its entry, which happens (\<^verbatim>\<open>PipelineLeak\<close>).  The collector stops exactly the idle pipelines.  At most one \<^verbatim>\<open>rpc-server\<close> runs per node.
    An exit with code 0 leaves no child behind unless a request comes in between; with one, or when the HTTP
    server fails, a child is left (\<^verbatim>\<open>AgentLife\<close>).
  \<^item> Counting: however requests overlap, a gateway counts as active exactly those that wait for its Ollama or, for a
    peer, for its pipelines, counts each once as served, and keeps the last hundred records (\<^verbatim>\<open>GatewayConc\<close>).
  \<^item> Membership: in every interleaving of the agent's loops entries are well formed; inference asks
    only addresses that were announced (\<^verbatim>\<open>AgentAddresses\<close>); in a whole pool every entry is what its node said of itself at a
    refresh, so nothing is routed or planned on hearsay (\<^verbatim>\<open>PoolNet\<close>); a node that starts is found and fetched by its peers (\<^verbatim>\<open>CommandLine\<close>); one that answers is
    served from for twenty seconds unless it withdraws its offer, one that falls silent goes, and a node always knows itself.
    No request, whatever it holds, changes the identity, the configuration, the registry or the
    advertised capabilities of a node (\<^verbatim>\<open>AgentServe\<close>).
  \<^item> Access: without the pool token no endpoint for peers does anything; inference is open.
  \<^item> Reading back what was written: states, the pool view, Ollama's listings, announcements, the
    identifier, the command line.
  \<^item> Arithmetic: memory estimates are exact in spite of \<^verbatim>\<open>float64\<close>, totals count without wrap-around, sizes
    are printed to the nearest tenth; polling loops end.

  \<^bold>\<open>Bounds.\<close>  The loop of \<open>waitReady\<close> runs for thirty minutes in steps of one second and a poll takes time
  of its own: 1801 rounds are enough, and the termination theorem of \<open>waitReady\<close> shows that the fuel is never
  exhausted.  \<open>waitForPort\<close> needs 51 rounds in the same way.  The JSON parser runs on
  fuel two times the length of the text plus two; the round trip lemmas show it enough for every
  text the code writes.

  \<^bold>\<open>Parameters.\<close>  What is not under \<^verbatim>\<open>src/\<close> is an argument: the file system, \<^verbatim>\<open>exec\<close>, the clock, the outcome
  of each HTTP exchange, the mDNS library, the reverse proxy's transport, the unstable sort, the map
  orders, the texts of system errors.

  \<^bold>\<open>Not modelled.\<close>  Log lines; the help text and the texts of flag errors; the page the dashboard embeds (HTML and JavaScript); \<^verbatim>\<open>http.Server\<close>'s
  connection handling; timeouts of HTTP clients other than as an outcome of the exchange; the replacement of
  invalid UTF-8 by \<^verbatim>\<open>encoding/json\<close>; the body of a redirect; the difference of a nil and an empty slice.
\<close>

end
